(* ===== verification/Prelude.thy ===== *)
theory Prelude
  imports Main
begin

section \<open>Shared vocabulary of the development\<close>

text \<open>
  The prelude every component imports: the result type in which the Python SDK's exceptions
  are values, the insertion-ordered dictionaries behind its \<^verbatim>\<open>dict\<close> objects, and the
  generic lemmas on both. A Python statement sequence in which any step may raise is written
  with \<open>rbind\<close>; a dictionary is an association list whose keys are pairwise distinct,
  because iteration order (which JSON text and schedule replay depend on) is insertion order.
\<close>

named_theorems res_simps \<open>evaluation rules of the result combinators\<close>
named_theorems dict_simps \<open>lookup, store and delete on dictionaries\<close>

subsection \<open>Definitions\<close>

text \<open>Sequencing: an exception (\<open>Inl\<close>) ends the statement sequence.\<close>

definition rbind :: "'e + 'a \<Rightarrow> ('a \<Rightarrow> 'e + 'b) \<Rightarrow> 'e + 'b" where
  "rbind m f = (case m of Inl e \<Rightarrow> Inl e | Inr x \<Rightarrow> f x)"

text \<open>\<open>if not b: raise e\<close> as a statement.\<close>

definition ensure :: "bool \<Rightarrow> 'e \<Rightarrow> 'e + unit" where
  "ensure b e = (if b then Inr () else Inl e)"

fun is_ok :: "'e + 'a \<Rightarrow> bool" where
  "is_ok (Inr _) = True"
| "is_ok (Inl _) = False"

text \<open>A list comprehension whose body may raise.\<close>

fun rmap :: "('a \<Rightarrow> 'e + 'b) \<Rightarrow> 'a list \<Rightarrow> 'e + 'b list" where
  "rmap f [] = Inr []"
| "rmap f (x # xs) = rbind (f x) (\<lambda>y. rbind (rmap f xs) (\<lambda>ys. Inr (y # ys)))"

text \<open>Python dictionaries: \<open>d.get(k)\<close>, \<open>d[k] = v\<close>, \<open>d.pop(k, None)\<close>, \<open>d.keys()\<close>.\<close>

type_synonym ('k, 'v) dict = "('k \<times> 'v) list"

abbreviation dget :: "('k, 'v) dict \<Rightarrow> 'k \<Rightarrow> 'v option" where
  "dget d k \<equiv> map_of d k"

fun dset :: "('k, 'v) dict \<Rightarrow> 'k \<Rightarrow> 'v \<Rightarrow> ('k, 'v) dict" where
  "dset [] k v = [(k, v)]"
| "dset ((k', v') # d) k v = (if k' = k then (k, v) # d else (k', v') # dset d k v)"

definition dpop :: "('k, 'v) dict \<Rightarrow> 'k \<Rightarrow> ('k, 'v) dict" where
  "dpop d k = filter (\<lambda>p. fst p \<noteq> k) d"

abbreviation dkeys :: "('k, 'v) dict \<Rightarrow> 'k list" where
  "dkeys d \<equiv> map fst d"

text \<open>\<open>d.update(e)\<close> and \<open>{**d, **e}\<close>: later bindings win, positions are kept.\<close>

definition dupdate :: "('k, 'v) dict \<Rightarrow> ('k, 'v) dict \<Rightarrow> ('k, 'v) dict" where
  "dupdate d e = foldl (\<lambda>a p. dset a (fst p) (snd p)) d e"

definition dict_ok :: "('k, 'v) dict \<Rightarrow> bool" where
  "dict_ok d = distinct (dkeys d)"

subsection \<open>Results\<close>

lemma rbind_Inr [simp, res_simps]: "rbind (Inr x) f = f x"
  by (simp add: rbind_def)

lemma rbind_Inl [simp, res_simps]: "rbind (Inl e) f = Inl e"
  by (simp add: rbind_def)

lemma rbind_eq_Inr: "rbind m f = Inr y \<longleftrightarrow> (\<exists>x. m = Inr x \<and> f x = Inr y)"
  by (cases m) simp_all

lemma rbind_eq_Inl: "rbind m f = Inl e \<longleftrightarrow> m = Inl e \<or> (\<exists>x. m = Inr x \<and> f x = Inl e)"
  by (cases m) simp_all

lemma rbind_cong [fundef_cong]:
  "m = n \<Longrightarrow> (\<And>x. n = Inr x \<Longrightarrow> f x = g x) \<Longrightarrow> rbind m f = rbind n g"
  by (cases n) simp_all

lemma ensure_True [simp, res_simps]: "ensure True e = Inr ()"
  by (simp add: ensure_def)

lemma ensure_False [simp, res_simps]: "ensure False e = Inl e"
  by (simp add: ensure_def)

lemma ensure_eq_Inr [simp]: "ensure b e = Inr u \<longleftrightarrow> b"
  by (simp add: ensure_def)

lemma ensure_eq_Inl [simp]: "ensure b e = Inl e' \<longleftrightarrow> \<not> b \<and> e' = e"
  by (auto simp: ensure_def)

lemma rbind_ensure_ensure: "rbind (ensure a e) (\<lambda>_. ensure b e) = ensure (a \<and> b) e"
  by (simp add: ensure_def)

lemma if_ensure: "(if c then ensure a e else Inr ()) = ensure (c \<longrightarrow> a) e"
  by simp

lemma is_ok_iff: "is_ok m \<longleftrightarrow> (\<exists>x. m = Inr x)"
  by (cases m) simp_all

lemma rmap_cong [fundef_cong]:
  "xs = ys \<Longrightarrow> (\<And>x. x \<in> set ys \<Longrightarrow> f x = g x) \<Longrightarrow> rmap f xs = rmap g ys"
  by (induction ys arbitrary: xs) simp_all

lemma rmap_all_Inr: "(\<And>x. x \<in> set xs \<Longrightarrow> f x = Inr (g x)) \<Longrightarrow> rmap f xs = Inr (map g xs)"
  by (induction xs) simp_all

lemma rmap_eq_Inr_length: "rmap f xs = Inr ys \<Longrightarrow> length ys = length xs"
  by (induction xs arbitrary: ys) (auto simp: rbind_eq_Inr)

lemma rmap_eq_Inr_all: "rmap f xs = Inr ys \<Longrightarrow> x \<in> set xs \<Longrightarrow> \<exists>y\<in>set ys. f x = Inr y"
  by (induction xs arbitrary: ys) (auto simp: rbind_eq_Inr)

lemma rmap_eq_Inr_set: "rmap f xs = Inr ys \<Longrightarrow> y \<in> set ys \<Longrightarrow> \<exists>x\<in>set xs. f x = Inr y"
  by (induction xs arbitrary: ys) (auto simp: rbind_eq_Inr)

subsection \<open>Lists\<close>

lemma filter_single: "filter P xs = [y] \<Longrightarrow> y \<in> set xs \<and> P y"
proof -
  assume "filter P xs = [y]"
  then have "y \<in> set (filter P xs)" by simp
  then show ?thesis by simp
qed

subsection \<open>Dictionaries\<close>

lemma dget_dset [simp, dict_simps]: "dget (dset d k v) k' = (if k' = k then Some v else dget d k')"
  by (induction d k v rule: dset.induct) auto

lemma dget_dpop [simp, dict_simps]: "dget (dpop d k) k' = (if k' = k then None else dget d k')"
  by (induction d) (auto simp: dpop_def)

lemma set_dkeys_dset [simp]: "set (dkeys (dset d k v)) = insert k (set (dkeys d))"
  by (induction d k v rule: dset.induct) auto

lemma fst_set_dset [simp]: "fst ` set (dset d k v) = insert k (fst ` set d)"
  by (induction d k v rule: dset.induct) auto

lemma set_dkeys_dpop [simp]: "set (dkeys (dpop d k)) = set (dkeys d) - {k}"
  by (auto simp: dpop_def)

lemma dkeys_dset_fresh: "k \<notin> set (dkeys d) \<Longrightarrow> dset d k v = d @ [(k, v)]"
  by (induction d k v rule: dset.induct) auto

lemma set_dset_subset: "set (dset d k v) \<subseteq> insert (k, v) (set d)"
  by (induction d k v rule: dset.induct) auto

lemma dict_ok_Nil [simp]: "dict_ok []"
  by (simp add: dict_ok_def)

lemma dict_ok_dset [simp]: "dict_ok d \<Longrightarrow> dict_ok (dset d k v)"
  unfolding dict_ok_def by (induction d k v rule: dset.induct) auto

lemma dict_ok_dpop [simp]: "dict_ok d \<Longrightarrow> dict_ok (dpop d k)"
  by (simp add: dict_ok_def dpop_def distinct_map_filter)

lemma length_dset: "length (dset d k v) = (if k \<in> set (dkeys d) then length d else Suc (length d))"
  by (induction d k v rule: dset.induct) auto

lemma length_dpop_le: "length (dpop d k) \<le> length d"
  by (simp add: dpop_def)

lemma dupdate_Nil [simp]: "dupdate d [] = d"
  by (simp add: dupdate_def)

lemma dupdate_Cons [simp]: "dupdate d ((k, v) # e) = dupdate (dset d k v) e"
  by (simp add: dupdate_def)

lemma dict_ok_dupdate [simp]: "dict_ok d \<Longrightarrow> dict_ok (dupdate d e)"
  by (induction e arbitrary: d) auto

lemma fst_set_dupdate [simp]: "fst ` set (dupdate d e) = fst ` set d \<union> fst ` set e"
proof (induction e arbitrary: d)
  case Nil
  then show ?case by simp
next
  case (Cons p e)
  then show ?case by (cases p) simp
qed

lemma set_dkeys_dupdate: "set (dkeys (dupdate d e)) = set (dkeys d) \<union> set (dkeys e)"
  by simp

lemma dget_dupdate:
  "dict_ok e \<Longrightarrow> dget (dupdate d e) k = (case dget e k of Some v \<Rightarrow> Some v | None \<Rightarrow> dget d k)"
proof (induction e arbitrary: d)
  case Nil
  then show ?case by simp
next
  case (Cons p e)
  obtain k' v' where p: "p = (k', v')" by fastforce
  from Cons.prems p have ok: "dict_ok e" and fresh: "k' \<notin> set (dkeys e)"
    by (auto simp: dict_ok_def)
  from fresh have "dget e k' = None"
    by (simp add: map_of_eq_None_iff)
  then show ?case
    using Cons.IH [OF ok, of "dset d k' v'"] p by (auto split: option.splits)
qed

lemma dupdate_fresh:
  assumes "dict_ok e" and "set (dkeys e) \<inter> set (dkeys d) = {}"
  shows "dupdate d e = d @ e"
  using assms
proof (induction e arbitrary: d)
  case Nil
  then show ?case by simp
next
  case (Cons p e)
  obtain k v where p: "p = (k, v)" by fastforce
  with Cons.prems have "k \<notin> set (dkeys d)" by auto
  then have d: "dset d k v = d @ [(k, v)]" by (rule dkeys_dset_fresh)
  have "dupdate (d @ [(k, v)]) e = (d @ [(k, v)]) @ e"
    using Cons.prems p by (intro Cons.IH) (auto simp: dict_ok_def)
  with p d show ?case by simp
qed

subsection \<open>The dictionary interface\<close>

text \<open>
  What the SDK's components rely on when they keep state in a \<^verbatim>\<open>dict\<close>: registries
  of tasks, tables of executions and of pending requests. The locale states the laws and the
  facts its clients use; the interpretation below shows that the insertion-ordered
  dictionaries of the model obey them.
\<close>

locale keyed_table =
  fixes lookup_op :: "'t \<Rightarrow> 'k \<Rightarrow> 'v option"
    and store_op :: "'t \<Rightarrow> 'k \<Rightarrow> 'v \<Rightarrow> 't"
    and delete_op :: "'t \<Rightarrow> 'k \<Rightarrow> 't"
    and keys_op :: "'t \<Rightarrow> 'k list"
    and table_ok :: "'t \<Rightarrow> bool"
  assumes lookup_store: "lookup_op (store_op t k v) k' = (if k' = k then Some v else lookup_op t k')"
    and lookup_delete: "lookup_op (delete_op t k) k' = (if k' = k then None else lookup_op t k')"
    and keys_lookup: "k \<in> set (keys_op t) \<longleftrightarrow> lookup_op t k \<noteq> None"
    and ok_distinct: "table_ok t \<Longrightarrow> distinct (keys_op t)"
    and ok_store: "table_ok t \<Longrightarrow> table_ok (store_op t k v)"
    and ok_delete: "table_ok t \<Longrightarrow> table_ok (delete_op t k)"
begin

lemma keys_store: "set (keys_op (store_op t k v)) = insert k (set (keys_op t))"
  by (auto simp: keys_lookup lookup_store split: if_splits)

lemma keys_delete: "set (keys_op (delete_op t k)) = set (keys_op t) - {k}"
  by (auto simp: keys_lookup lookup_delete split: if_splits)

lemma size_store_fresh:
  assumes "table_ok t" and "lookup_op t k = None"
  shows "length (keys_op (store_op t k v)) = Suc (length (keys_op t))"
proof -
  have "k \<notin> set (keys_op t)" using assms(2) by (simp add: keys_lookup)
  then have "card (set (keys_op (store_op t k v))) = Suc (card (set (keys_op t)))"
    by (simp add: keys_store)
  then show ?thesis
    using assms(1) ok_distinct ok_store by (metis distinct_card)
qed

lemma size_store_present:
  assumes "table_ok t" and "lookup_op t k = Some u"
  shows "length (keys_op (store_op t k v)) = length (keys_op t)"
proof -
  have "insert k (set (keys_op t)) = set (keys_op t)"
    using assms(2) by (auto simp: keys_lookup)
  then show ?thesis
    using assms(1) ok_distinct ok_store keys_store by (metis distinct_card)
qed

lemma size_delete_le:
  assumes "table_ok t"
  shows "length (keys_op (delete_op t k)) \<le> length (keys_op t)"
proof -
  have "set (keys_op (delete_op t k)) \<subseteq> set (keys_op t)" by (auto simp: keys_delete)
  then show ?thesis
    using assms ok_distinct ok_delete by (metis List.finite_set card_mono distinct_card)
qed

lemma delete_store: "lookup_op (delete_op (store_op t k v) k) = (lookup_op t)(k := None)"
  by (auto simp: lookup_store lookup_delete)

end

lemma dkeys_iff_dget: "k \<in> set (dkeys d) \<longleftrightarrow> dget d k \<noteq> None"
  by (simp add: map_of_eq_None_iff)

interpretation py_dict: keyed_table "map_of" dset dpop "map fst" dict_ok
proof unfold_locales
  show "distinct (map fst d)" if "dict_ok d" for d :: "('a \<times> 'b) list"
    using that by (simp add: dict_ok_def)
qed (simp_all only: dget_dset dget_dpop dkeys_iff_dget dict_ok_dset dict_ok_dpop)

subsection \<open>Numbered tables\<close>

text \<open>Objects with an identity (futures, asyncio tasks) are numbered in the order of their creation.\<close>

lemma dkeys_dset_present: "k \<in> set (dkeys d) \<Longrightarrow> dkeys (dset d k v) = dkeys d"
  by (induction d k v rule: dset.induct) auto

lemma numbered_fresh: "dkeys f = [0..<length f] \<Longrightarrow> dset f (length f) v = f @ [(length f, v)]"
  by (rule dkeys_dset_fresh) simp

lemma numbered_None: "dkeys f = [0..<length f] \<Longrightarrow> dget f k = None \<longleftrightarrow> length f \<le> k"
proof -
  assume "dkeys f = [0..<length f]"
  then have "set (dkeys f) = {0..<length f}" by (metis set_upt)
  then have "k < length f \<longleftrightarrow> dget f k \<noteq> None" using dkeys_iff_dget [of k f] by (simp del: set_map)
  then show ?thesis by (cases "dget f k") (simp_all add: not_less [symmetric])
qed

lemma numbered_append:
  "dkeys f = [0..<length f] \<Longrightarrow> dget (f @ [(length f, v)]) k = (if k = length f then Some v else dget f k)"
  using numbered_None [of f "length f"] by (auto simp: map_add_def split: option.split)

lemma numbered_dset: "dkeys f = [0..<length f] \<Longrightarrow> dget f k = Some u \<Longrightarrow> dkeys (dset f k v) = [0..<length (dset f k v)]"
  using dkeys_dset_present [of k f v] dkeys_iff_dget [of k f] by (metis length_map option.distinct(1))

lemma dkeys_dpop: "dkeys (dpop d e) = filter (\<lambda>k. k \<noteq> e) (dkeys d)"
  by (induction d) (auto simp: dpop_def)

end
