(* ===== verification/PyValue.thy ===== *)
theory PyValue
  imports Complex_Main Prelude
begin

section \<open>Python values and the SDK's exceptions\<close>

text \<open>
  The universe of values the SDK handles and the exceptions it raises.

  \<^item> A Python \<^verbatim>\<open>str\<close> is a list of code points (\<open>pystr\<close>); lone surrogates
    (0xD800..0xDFFF) can occur in it, as in Python.
  \<^item> A \<^verbatim>\<open>float\<close> is a rational number, the negative zero, an infinity or NaN;
    which rationals are IEEE doubles is said in theory \<open>PyFloat\<close>.
  \<^item> \<open>PDict\<close> is any \<^verbatim>\<open>Mapping\<close>, in insertion order; \<open>POther t\<close> is
    an object of any other type \<open>t\<close> (bytes, datetimes, ORM instances). User-defined
    subclasses of \<^verbatim>\<open>str\<close>, \<^verbatim>\<open>int\<close>, \<^verbatim>\<open>float\<close> and \<^verbatim>\<open>list\<close> are
    outside the model, so \<^verbatim>\<open>type(x) is T\<close> and \<^verbatim>\<open>isinstance(x, T)\<close> agree
    except on \<^verbatim>\<open>bool\<close>, which is a constructor of its own.
  \<^item> \<open>exn\<close> has one constructor per class of \<^verbatim>\<open>tay/errors.py\<close> and per built-in
    exception the SDK raises or lets through; \<open>is_TayError\<close> and its kin are the class
    hierarchy that the \<^verbatim>\<open>except\<close> clauses test. The text of messages built by the SDK
    itself is not modelled; a server error carries message, code and details because the
    SDK's control flow reads them.
\<close>

named_theorems str_simps \<open>string literals as lists of code points\<close>

subsection \<open>Values\<close>

type_synonym codepoint = nat
type_synonym pystr = "codepoint list"

definition str :: "string \<Rightarrow> pystr" where
  "str s = map of_char s"

text \<open>\<^verbatim>\<open>s.split(c)\<close> and \<^verbatim>\<open>c.join(parts)\<close> for a single character.\<close>

fun split_on :: "codepoint \<Rightarrow> pystr \<Rightarrow> pystr list" where
  "split_on c [] = [[]]"
| "split_on c (x # xs) =
     (if x = c then [] # split_on c xs
      else (case split_on c xs of [] \<Rightarrow> [[x]] | y # ys \<Rightarrow> (x # y) # ys))"

fun join_with :: "codepoint \<Rightarrow> pystr list \<Rightarrow> pystr" where
  "join_with c [] = []"
| "join_with c [x] = x"
| "join_with c (x # y # ys) = x @ [c] @ join_with c (y # ys)"

text \<open>\<^verbatim>\<open>s.partition(c)\<close> and \<^verbatim>\<open>s.rpartition(c)\<close>: the text before the first (last) separator, whether
  there is one, and the text after it.\<close>

definition partition_at :: "codepoint \<Rightarrow> pystr \<Rightarrow> pystr \<times> bool \<times> pystr" where
  "partition_at c s = (takeWhile (\<lambda>x. x \<noteq> c) s, c \<in> set s, drop 1 (dropWhile (\<lambda>x. x \<noteq> c) s))"

definition rpartition_at :: "codepoint \<Rightarrow> pystr \<Rightarrow> pystr \<times> bool \<times> pystr" where
  "rpartition_at c s =
     (rev (drop 1 (dropWhile (\<lambda>x. x \<noteq> c) (rev s))), c \<in> set s, rev (takeWhile (\<lambda>x. x \<noteq> c) (rev s)))"

datatype pyfloat = Flt rat | NegZero | PosInf | NegInf | NaN

datatype pyval =
    PNone
  | PBool bool
  | PInt int
  | PFloat pyfloat
  | PStr pystr
  | PList "pyval list"
  | PTuple "pyval list"
  | PDict "(pyval \<times> pyval) list"
  | POther string

type_synonym pydict = "(pyval, pyval) dict"

text \<open>\<^verbatim>\<open>math.isfinite\<close> on floats.\<close>

fun isfinite :: "pyfloat \<Rightarrow> bool" where
  "isfinite (Flt _) = True"
| "isfinite NegZero = True"
| "isfinite _ = False"

text \<open>The number a finite float stands for.\<close>

fun float_value :: "pyfloat \<Rightarrow> rat" where
  "float_value (Flt q) = q"
| "float_value _ = 0"

text \<open>\<^verbatim>\<open>bool(x)\<close>, and \<^verbatim>\<open>x == n\<close> for an integer constant: \<open>True\<close> and
  \<open>1.0\<close> are equal to \<open>1\<close> in Python.\<close>

fun truthy :: "pyval \<Rightarrow> bool" where
  "truthy PNone = False"
| "truthy (PBool b) = b"
| "truthy (PInt i) = (i \<noteq> 0)"
| "truthy (PFloat x) = (x \<noteq> Flt 0 \<and> x \<noteq> NegZero)"
| "truthy (PStr s) = (s \<noteq> [])"
| "truthy (PList xs) = (xs \<noteq> [])"
| "truthy (PTuple xs) = (xs \<noteq> [])"
| "truthy (PDict d) = (d \<noteq> [])"
| "truthy (POther _) = True"

fun equals_int :: "pyval \<Rightarrow> int \<Rightarrow> bool" where
  "equals_int (PInt i) n = (i = n)"
| "equals_int (PBool b) n = ((if b then 1 else 0) = n)"
| "equals_int (PFloat (Flt q)) n = (q = of_int n)"
| "equals_int (PFloat NegZero) n = (n = 0)"
| "equals_int _ n = False"

text \<open>\<^verbatim>\<open>d.get("name")\<close> with the default \<open>None\<close>, and \<^verbatim>\<open>"name" in d\<close>.\<close>

abbreviation skey :: "string \<Rightarrow> pyval" where
  "skey s \<equiv> PStr (str s)"

definition get_field :: "pydict \<Rightarrow> string \<Rightarrow> pyval" where
  "get_field d name = (case dget d (skey name) of None \<Rightarrow> PNone | Some v \<Rightarrow> v)"

definition has_field :: "pydict \<Rightarrow> string \<Rightarrow> bool" where
  "has_field d name = (dget d (skey name) \<noteq> None)"

text \<open>\<^verbatim>\<open>d.get(name, v)\<close>.\<close>

definition get_default :: "pydict \<Rightarrow> string \<Rightarrow> pyval \<Rightarrow> pyval" where
  "get_default d name v = (case dget d (skey name) of Some x \<Rightarrow> x | None \<Rightarrow> v)"

fun is_dict :: "pyval \<Rightarrow> bool" where
  "is_dict (PDict _) = True"
| "is_dict _ = False"

fun nonempty_str :: "pyval \<Rightarrow> bool" where
  "nonempty_str (PStr s) = (s \<noteq> [])"
| "nonempty_str _ = False"

subsection \<open>Exceptions\<close>

datatype server_kind = ServerError | RemoteTaskError | JobCancelled | ResultMissing

datatype exn =
    ValidationError
  | ResultTooLarge
  | ProtocolError
  | ConnectionLost
  | ServerExn server_kind pystr "pystr option" pyval
  | TaskRegistrationError
  | TaskNotRegistered
  | ModeError
  | ValueError
  | UnicodeEncodeError
  | UnicodeDecodeError
  | JSONDecodeError
  | TypeError
  | AttributeError
  | KeyError
  | OverflowError
  | RecursionError
  | StructError
  | ConnectionError
  | OSError
  | TimeoutError
  | RuntimeError
  | ImportError
  | ZeroDivisionError
  | CalledProcessError
  | IndexError
  | AssertionError
  | SubprocessError
  | KeyboardInterrupt
  | CancelledError

type_synonym 'a res = "exn + 'a"

fun is_ServerError :: "exn \<Rightarrow> bool" where
  "is_ServerError (ServerExn _ _ _ _) = True"
| "is_ServerError _ = False"

definition is_TayError :: "exn \<Rightarrow> bool" where
  "is_TayError e = (is_ServerError e \<or>
     e \<in> {ValidationError, ResultTooLarge, ProtocolError, ConnectionLost,
          TaskRegistrationError, TaskNotRegistered, ModeError})"

definition is_ValidationError :: "exn \<Rightarrow> bool" where
  "is_ValidationError e = (e \<in> {ValidationError, ResultTooLarge})"

definition is_ValueError :: "exn \<Rightarrow> bool" where
  "is_ValueError e = (is_ValidationError e \<or>
     e \<in> {ValueError, UnicodeEncodeError, UnicodeDecodeError, JSONDecodeError})"

text \<open>\<^verbatim>\<open>ConnectionError\<close> and \<^verbatim>\<open>TimeoutError\<close> are subclasses of
  \<^verbatim>\<open>OSError\<close>, and \<^verbatim>\<open>ConnectionLost\<close> of \<^verbatim>\<open>ConnectionError\<close>.\<close>

definition is_ConnectionError :: "exn \<Rightarrow> bool" where
  "is_ConnectionError e = (e \<in> {ConnectionError, ConnectionLost})"

definition is_OSError :: "exn \<Rightarrow> bool" where
  "is_OSError e = (is_ConnectionError e \<or> e \<in> {OSError, TimeoutError})"

text \<open>\<^verbatim>\<open>asyncio.CancelledError\<close> is the one exception here that
  \<^verbatim>\<open>except Exception\<close> does not catch.\<close>

definition is_Exception :: "exn \<Rightarrow> bool" where
  "is_Exception e = (e \<notin> {CancelledError, KeyboardInterrupt})"

subsection \<open>Lemmas\<close>

lemmas exn_class_defs = is_TayError_def is_ValidationError_def is_ValueError_def
  is_ConnectionError_def is_OSError_def is_Exception_def

lemma str_Nil [str_simps]: "str [] = []"
  by (simp add: str_def)

lemma str_Cons [str_simps]: "str (c # s) = of_char c # str s"
  by (simp add: str_def)

lemma str_inject [simp]: "str s = str t \<longleftrightarrow> s = t"
  unfolding str_def by (rule inj_map_eq_map) (simp add: inj_on_def)

lemma str_eq_Nil [simp]: "str s = [] \<longleftrightarrow> s = []"
  by (simp add: str_def)

lemma Nil_eq_str [simp]: "[] = str s \<longleftrightarrow> s = []"
  by (auto simp: str_def)

lemma length_str [simp]: "length (str s) = length s"
  by (simp add: str_def)

lemma get_field_dset [simp]:
  "get_field (dset d (skey n) v) m = (if m = n then v else get_field d m)"
  by (simp add: get_field_def)

lemma has_field_dset [simp]: "has_field (dset d (skey n) v) m \<longleftrightarrow> m = n \<or> has_field d m"
  by (simp add: has_field_def)

lemma get_field_absent: "\<not> has_field d n \<Longrightarrow> get_field d n = PNone"
  by (simp add: get_field_def has_field_def)

lemma has_field_keys: "has_field d n \<longleftrightarrow> skey n \<in> set (dkeys d)"
  by (simp add: has_field_def dkeys_iff_dget del: set_map)

lemma nonempty_strE:
  assumes "nonempty_str v"
  obtains s where "v = PStr s" and "s \<noteq> []"
  using assms by (cases v) auto

lemma is_dictE:
  assumes "is_dict v"
  obtains d where "v = PDict d"
  using assms by (cases v) auto

lemma is_TayError_ServerError: "is_ServerError e \<Longrightarrow> is_TayError e"
  by (simp add: is_TayError_def)

lemma is_ValidationError_TayError: "is_ValidationError e \<Longrightarrow> is_TayError e \<and> is_ValueError e"
  by (auto simp: exn_class_defs)

lemma split_on_no_sep: "x \<in> set (split_on c p) \<Longrightarrow> c \<notin> set x"
  by (induction c p arbitrary: x rule: split_on.induct) (fastforce split: if_splits list.splits)+

lemma split_on_nonempty [simp]: "split_on c p \<noteq> []"
  by (induction c p rule: split_on.induct) (auto split: list.splits)

lemma split_on_single: "c \<notin> set x \<Longrightarrow> split_on c x = [x]"
  by (induction x) auto

lemma split_on_append: "c \<notin> set x \<Longrightarrow> split_on c (x @ c # p) = x # split_on c p"
  by (induction x) auto

lemma split_on_join: "xs \<noteq> [] \<Longrightarrow> \<forall>x\<in>set xs. c \<notin> set x \<Longrightarrow> split_on c (join_with c xs) = xs"
  by (induction c xs rule: join_with.induct) (simp_all add: split_on_single split_on_append)

lemma join_split_on: "join_with c (split_on c p) = p"
proof (induction c p rule: split_on.induct)
  case (2 c x xs)
  obtain y ys where "split_on c xs = y # ys" by (cases "split_on c xs") auto
  with 2 show ?case by (cases ys) auto
qed simp

end
