(* ===== verification/Utf8.thy ===== *)
theory Utf8
  imports "HOL-Library.Word" PyValue
begin

section \<open>Byte streams: prefix codecs, UTF-8 and the 32-bit length header\<close>

text \<open>
  Python's strict UTF-8 codec (\<^verbatim>\<open>str.encode("utf-8")\<close>, which raises on lone
  surrogates, and \<^verbatim>\<open>bytes.decode("utf-8")\<close>, which refuses overlong forms, surrogates
  and code points past 0x10FFFF), the lossy \<^verbatim>\<open>errors="replace"\<close> encoder behind
  \<^verbatim>\<open>_safe_text\<close> of \<^verbatim>\<open>tay/execution.py\<close>, and the big-endian
  \<^verbatim>\<open>struct\<close> format \<^verbatim>\<open>">I"\<close> of the frame header.

  The locale \<open>prefix_codec\<close> is the interface of everything here that is written to and
  read back from a byte stream one item at a time. It is interpreted on the code points of
  UTF-8 and on the header in this theory, and on whole protocol frames in theory \<open>Protocol\<close>.
\<close>

subsection \<open>Definitions\<close>

type_synonym byte = "8 word"
type_synonym bytes = "byte list"

text \<open>Reading items off the front of a stream until the decoder stops; \<open>None\<close> as the
  stopping reason says that the decoder returned an item without consuming anything.\<close>

function read_all :: "('b list \<Rightarrow> 'e + 'a \<times> 'b list) \<Rightarrow> 'b list \<Rightarrow> 'a list \<times> 'e option" where
  "read_all dec bs =
     (case dec bs of
        Inl e \<Rightarrow> ([], Some e)
      | Inr (x, rest) \<Rightarrow>
          if length rest < length bs
          then (case read_all dec rest of (xs, e) \<Rightarrow> (x # xs, e))
          else ([x], None))"
  by pat_completeness auto
termination
  by (relation "measure (\<lambda>(dec, bs). length bs)") auto

declare read_all.simps [simp del]

definition is_surrogate :: "codepoint \<Rightarrow> bool" where
  "is_surrogate c = (0xD800 \<le> c \<and> c \<le> 0xDFFF)"

definition byte_of :: "nat \<Rightarrow> byte" where
  "byte_of n = of_nat n"

definition utf8_char :: "codepoint \<Rightarrow> bytes res" where
  "utf8_char c =
     (if c < 0x80 then Inr [byte_of c]
      else if c < 0x800 then Inr [byte_of (0xC0 + c div 64), byte_of (0x80 + c mod 64)]
      else if is_surrogate c then Inl UnicodeEncodeError
      else if c < 0x10000 then
        Inr [byte_of (0xE0 + c div 4096), byte_of (0x80 + c div 64 mod 64), byte_of (0x80 + c mod 64)]
      else if c < 0x110000 then
        Inr [byte_of (0xF0 + c div 262144), byte_of (0x80 + c div 4096 mod 64),
             byte_of (0x80 + c div 64 mod 64), byte_of (0x80 + c mod 64)]
      else Inl UnicodeEncodeError)"

fun utf8_encode :: "pystr \<Rightarrow> bytes res" where
  "utf8_encode [] = Inr []"
| "utf8_encode (c # s) = rbind (utf8_char c) (\<lambda>b. rbind (utf8_encode s) (\<lambda>bs. Inr (b @ bs)))"

datatype utf8_stop = EndOfInput | Malformed

definition is_cont :: "byte \<Rightarrow> bool" where
  "is_cont b = (0x80 \<le> unat b \<and> unat b < 0xC0)"

definition utf8_next :: "bytes \<Rightarrow> utf8_stop + codepoint \<times> bytes" where
  "utf8_next bs =
     (case bs of
        [] \<Rightarrow> Inl EndOfInput
      | b0 # r0 \<Rightarrow>
          let n0 = unat b0 in
          if n0 < 0x80 then Inr (n0, r0)
          else if n0 < 0xC2 then Inl Malformed
          else (case r0 of
             [] \<Rightarrow> Inl Malformed
           | b1 # r1 \<Rightarrow>
               let n1 = unat b1 - 0x80 in
               if \<not> is_cont b1 then Inl Malformed
               else if n0 < 0xE0 then Inr ((n0 - 0xC0) * 64 + n1, r1)
               else (case r1 of
                  [] \<Rightarrow> Inl Malformed
                | b2 # r2 \<Rightarrow>
                    let n2 = unat b2 - 0x80 in
                    if \<not> is_cont b2 then Inl Malformed
                    else if n0 < 0xF0 then
                      let c = (n0 - 0xE0) * 4096 + n1 * 64 + n2 in
                      if c < 0x800 \<or> is_surrogate c then Inl Malformed else Inr (c, r2)
                    else if n0 < 0xF5 then
                      (case r2 of
                         [] \<Rightarrow> Inl Malformed
                       | b3 # r3 \<Rightarrow>
                           let c = (n0 - 0xF0) * 262144 + n1 * 4096 + n2 * 64 + (unat b3 - 0x80) in
                           if \<not> is_cont b3 \<or> c < 0x10000 \<or> 0x110000 \<le> c then Inl Malformed
                           else Inr (c, r3))
                    else Inl Malformed)))"

definition utf8_decode :: "bytes \<Rightarrow> pystr res" where
  "utf8_decode bs =
     (case read_all utf8_next bs of
        (cs, Some EndOfInput) \<Rightarrow> Inr cs
      | _ \<Rightarrow> Inl UnicodeDecodeError)"

text \<open>\<^verbatim>\<open>len(s.encode("utf-8"))\<close>.\<close>

definition utf8_size :: "pystr \<Rightarrow> nat res" where
  "utf8_size s = rbind (utf8_encode s) (\<lambda>bs. Inr (length bs))"

text \<open>\<^verbatim>\<open>struct.pack(">I", n)\<close> and \<^verbatim>\<open>struct.unpack(">I", header)[0]\<close>.\<close>

definition pack_u32 :: "nat \<Rightarrow> bytes res" where
  "pack_u32 n =
     (if n < 2 ^ 32
      then Inr [byte_of (n div 2 ^ 24), byte_of (n div 2 ^ 16 mod 256),
                byte_of (n div 2 ^ 8 mod 256), byte_of (n mod 256)]
      else Inl StructError)"

definition unpack_u32 :: "bytes \<Rightarrow> exn + nat \<times> bytes" where
  "unpack_u32 bs =
     (case bs of
        b0 # b1 # b2 # b3 # rest \<Rightarrow>
          Inr (unat b0 * 2 ^ 24 + unat b1 * 2 ^ 16 + unat b2 * 2 ^ 8 + unat b3, rest)
      | _ \<Rightarrow> Inl StructError)"

subsection \<open>The interface: items written to and read from a stream\<close>

locale prefix_codec =
  fixes enc :: "'a \<Rightarrow> 'e + 'b list"
    and dec :: "'b list \<Rightarrow> 'd + 'a \<times> 'b list"
    and canon :: "'a \<Rightarrow> 'a"
    and item_ok :: "'a \<Rightarrow> bool"
  assumes dec_enc: "item_ok x \<Longrightarrow> enc x = Inr bs \<Longrightarrow> dec (bs @ rest) = Inr (canon x, rest)"
    and enc_nonempty: "enc x = Inr bs \<Longrightarrow> bs \<noteq> []"
begin

lemma read_all_enc:
  assumes "item_ok x" and "enc x = Inr bs"
  shows "read_all dec (bs @ rest) = (case read_all dec rest of (xs, e) \<Rightarrow> (canon x # xs, e))"
  using dec_enc [OF assms, of rest] enc_nonempty [OF assms(2)]
  by (simp add: read_all.simps [of dec "bs @ rest"])

lemma read_all_stream:
  assumes "\<And>x. x \<in> set xs \<Longrightarrow> item_ok x" and "rmap enc xs = Inr bss"
  shows "read_all dec (concat bss @ rest) =
           (case read_all dec rest of (ys, e) \<Rightarrow> (map canon xs @ ys, e))"
  using assms
proof (induction xs arbitrary: bss)
  case Nil
  then show ?case by (simp split: prod.splits)
next
  case (Cons x xs)
  then obtain b bs' where b: "enc x = Inr b" and bs': "rmap enc xs = Inr bs'"
    and bss: "bss = b # bs'"
    by (auto simp: rbind_eq_Inr)
  have "read_all dec (concat bs' @ rest) =
      (case read_all dec rest of (ys, e) \<Rightarrow> (map canon xs @ ys, e))"
    using Cons.IH [OF _ bs'] Cons.prems(1) by simp
  then show ?case
    using read_all_enc [of x b "concat bs' @ rest"] Cons.prems(1) b bss
    by (simp split: prod.splits)
qed

text \<open>An encoding determines its item up to canonical form, whatever follows it.\<close>

lemma enc_prefix_free:
  assumes "item_ok x" "item_ok y" and "enc x = Inr bs" "enc y = Inr cs" and "bs @ r = cs @ r'"
  shows "canon x = canon y \<and> r = r'"
  using dec_enc [OF assms(1,3), of r] dec_enc [OF assms(2,4), of r'] assms(5) by simp

end

subsection \<open>UTF-8\<close>

lemma unat_byte_of: "n < 256 \<Longrightarrow> unat (byte_of n) = n"
  by (simp add: byte_of_def unat_of_nat take_bit_eq_mod)

lemma is_cont_byte_of: "n < 256 \<Longrightarrow> is_cont (byte_of n) \<longleftrightarrow> 0x80 \<le> n \<and> n < 0xC0"
  by (simp add: is_cont_def unat_byte_of)

lemma split_2: "(c div 64) * 64 + c mod 64 = (c::nat)"
  by simp

lemma split_3: "(c div 4096) * 4096 + (c div 64 mod 64) * 64 + c mod 64 = (c::nat)"
proof -
  have "c div 4096 = c div 64 div 64" using div_mult2_eq [of c 64 64] by simp
  moreover have "c div 64 div 64 * 64 + c div 64 mod 64 = c div 64" by (rule div_mult_mod_eq)
  ultimately show ?thesis using split_2 [of c] by linarith
qed

lemma split_4:
  "(c div 262144) * 262144 + (c div 4096 mod 64) * 4096 + (c div 64 mod 64) * 64 + c mod 64 = (c::nat)"
proof -
  have "c div 262144 = c div 4096 div 64" using div_mult2_eq [of c 4096 64] by simp
  moreover have "c div 4096 div 64 * 64 + c div 4096 mod 64 = c div 4096" by (rule div_mult_mod_eq)
  ultimately show ?thesis using split_3 [of c] by linarith
qed

lemma utf8_next_char:
  assumes "utf8_char c = Inr bs"
  shows "utf8_next (bs @ rest) = Inr (c, rest)"
proof -
  consider (one) "c < 0x80" | (two) "0x80 \<le> c" "c < 0x800"
    | (three) "0x800 \<le> c" "c < 0x10000" "\<not> is_surrogate c"
    | (four) "0x10000 \<le> c" "c < 0x110000"
    using assms by (fastforce simp: utf8_char_def split: if_splits)
  then show ?thesis
  proof cases
    case one
    with assms show ?thesis by (auto simp: utf8_char_def utf8_next_def unat_byte_of)
  next
    case two
    then have "c div 64 < 32" "2 \<le> c div 64" by auto
    with two assms split_2 [of c] show ?thesis
      by (auto simp: utf8_char_def utf8_next_def unat_byte_of is_cont_byte_of)
  next
    case three
    then have "c div 4096 < 16" by auto
    with three assms split_3 [of c] show ?thesis
      by (auto simp: utf8_char_def utf8_next_def unat_byte_of is_cont_byte_of Let_def)
  next
    case four
    then have "c div 262144 < 5" "\<not> is_surrogate c" by (auto simp: is_surrogate_def)
    with four assms split_4 [of c] show ?thesis
      by (auto simp: utf8_char_def utf8_next_def unat_byte_of is_cont_byte_of Let_def)
  qed
qed

lemma utf8_char_nonempty: "utf8_char c = Inr bs \<Longrightarrow> bs \<noteq> []"
  by (auto simp: utf8_char_def split: if_splits)

interpretation utf8_codec: prefix_codec utf8_char utf8_next "\<lambda>c. c" "\<lambda>_. True"
  by unfold_locales (auto simp: utf8_next_char dest: utf8_char_nonempty)

lemma utf8_encode_rmap: "utf8_encode s = rbind (rmap utf8_char s) (\<lambda>bss. Inr (concat bss))"
proof (induction s)
  case Nil
  then show ?case by simp
next
  case (Cons c s)
  then show ?case by (cases "utf8_char c"; cases "rmap utf8_char s") simp_all
qed

lemma read_all_utf8_Nil: "read_all utf8_next [] = ([], Some EndOfInput)"
  by (simp add: read_all.simps utf8_next_def)

lemma utf8_decode_encode:
  assumes "utf8_encode s = Inr bs"
  shows "utf8_decode bs = Inr s"
proof -
  from assms obtain bss where "rmap utf8_char s = Inr bss" and "bs = concat bss"
    by (auto simp: utf8_encode_rmap rbind_eq_Inr)
  with utf8_codec.read_all_stream [of s bss "[]"] show ?thesis
    by (simp add: utf8_decode_def read_all_utf8_Nil)
qed

lemma utf8_char_error: "utf8_char c = Inl e \<Longrightarrow> e = UnicodeEncodeError"
  by (auto simp: utf8_char_def split: if_splits)

lemma utf8_encode_error: "utf8_encode s = Inl e \<Longrightarrow> e = UnicodeEncodeError"
  by (induction s) (auto simp: rbind_eq_Inl dest: utf8_char_error)

definition encodable :: "codepoint \<Rightarrow> bool" where
  "encodable c = (c < 0x110000 \<and> \<not> is_surrogate c)"

lemma utf8_char_ok_iff: "is_ok (utf8_char c) \<longleftrightarrow> encodable c"
  by (auto simp: utf8_char_def encodable_def is_surrogate_def)

lemma utf8_encode_ok_iff: "is_ok (utf8_encode s) \<longleftrightarrow> list_all encodable s"
proof (induction s)
  case Nil
  then show ?case by simp
next
  case (Cons c s)
  then show ?case
    by (cases "utf8_char c"; cases "utf8_encode s") (simp_all flip: utf8_char_ok_iff)
qed

lemma utf8_encode_append:
  "utf8_encode (s @ t) = rbind (utf8_encode s) (\<lambda>bs. rbind (utf8_encode t) (\<lambda>cs. Inr (bs @ cs)))"
proof (induction s)
  case Nil
  then show ?case by (cases "utf8_encode t") simp_all
next
  case (Cons c s)
  then show ?case
    by (cases "utf8_char c"; cases "utf8_encode s"; cases "utf8_encode t") simp_all
qed

lemma utf8_char_length: "utf8_char c = Inr bs \<Longrightarrow> 1 \<le> length bs \<and> length bs \<le> 4"
  by (auto simp: utf8_char_def split: if_splits)

lemma utf8_encode_length:
  "utf8_encode s = Inr bs \<Longrightarrow> length s \<le> length bs \<and> length bs \<le> 4 * length s"
proof (induction s arbitrary: bs)
  case Nil
  then show ?case by simp
next
  case (Cons c s)
  then show ?case by (fastforce simp: rbind_eq_Inr dest: utf8_char_length)
qed

lemma utf8_encode_ascii: "list_all (\<lambda>c. c < 0x80) s \<Longrightarrow> utf8_encode s = Inr (map byte_of s)"
  by (induction s) (auto simp: utf8_char_def)

lemma utf8_size_ascii: "list_all (\<lambda>c. c < 128) s \<Longrightarrow> utf8_size s = Inr (length s)"
  by (simp add: utf8_size_def utf8_encode_ascii)

lemma utf8_encode_inj:
  assumes "utf8_encode s = Inr bs" and "utf8_encode t = Inr bs"
  shows "s = t"
  using utf8_decode_encode [OF assms(1)] utf8_decode_encode [OF assms(2)] by simp

subsection \<open>The length header\<close>

lemma pack_u32_length: "pack_u32 n = Inr bs \<Longrightarrow> length bs = 4"
  by (auto simp: pack_u32_def split: if_splits)

lemma split_bytes:
  "n div 2 ^ 24 * 2 ^ 24 + n div 2 ^ 16 mod 256 * 2 ^ 16 + n div 2 ^ 8 mod 256 * 2 ^ 8 + n mod 256
     = (n::nat)"
proof -
  have "n div 65536 = n div 256 div 256" using div_mult2_eq [of n 256 256] by simp
  moreover have "n div 16777216 = n div 65536 div 256" using div_mult2_eq [of n 65536 256] by simp
  moreover have "n div 65536 div 256 * 256 + n div 65536 mod 256 = n div 65536"
    by (rule div_mult_mod_eq)
  moreover have "n div 256 div 256 * 256 + n div 256 mod 256 = n div 256"
    by (rule div_mult_mod_eq)
  moreover have "n div 256 * 256 + n mod 256 = n" by (rule div_mult_mod_eq)
  ultimately have "n div 16777216 * 16777216 + n div 65536 mod 256 * 65536
      + n div 256 mod 256 * 256 + n mod 256 = n"
    by linarith
  then show ?thesis by simp
qed

lemma unpack_pack_u32:
  assumes "pack_u32 n = Inr bs"
  shows "unpack_u32 (bs @ rest) = Inr (n, rest)"
proof -
  from assms have n: "n < 2 ^ 32"
    and bs: "bs = [byte_of (n div 2 ^ 24), byte_of (n div 2 ^ 16 mod 256),
                byte_of (n div 2 ^ 8 mod 256), byte_of (n mod 256)]"
    by (auto simp: pack_u32_def split: if_splits)
  have "n div 2 ^ 24 < 256" using n by auto
  moreover have "n div 2 ^ 24 * 2 ^ 24 + n div 2 ^ 16 mod 256 * 2 ^ 16
      + n div 2 ^ 8 mod 256 * 2 ^ 8 + n mod 256 = n"
    by (rule split_bytes)
  ultimately show ?thesis
    by (simp add: bs unpack_u32_def unat_byte_of)
qed

interpretation header_codec: prefix_codec pack_u32 unpack_u32 "\<lambda>n. n" "\<lambda>_. True"
  by unfold_locales (auto simp: unpack_pack_u32 dest: pack_u32_length)

end
