(* ===== verification/PyFloat.thy ===== *)
theory PyFloat
  imports "HOL-Library.Log_Nat" PyValue
begin

section \<open>IEEE doubles as Python computes with them\<close>

text \<open>
  Python floats are IEEE 754 doubles. \<open>to_double\<close> is round-to-nearest-even from the
  rationals, which is what \<^verbatim>\<open>float(text)\<close>, \<^verbatim>\<open>float(int)\<close>, the true
  division of ints and the arithmetic operators compute. \<open>float_repr\<close> is the shortest
  decimal text that reads back as the same double (\<^verbatim>\<open>float.__repr__\<close>, which
  \<^verbatim>\<open>json.dumps\<close> uses), with Python's choice between positional and exponent form.
\<close>

subsection \<open>Definitions\<close>

definition ipow :: "nat \<Rightarrow> int \<Rightarrow> rat" where
  "ipow b e = (if 0 \<le> e then of_nat b ^ nat e else 1 / of_nat b ^ nat (- e))"

text \<open>The exponent of the leading digit of a positive rational in base \<open>b\<close>.\<close>

definition ilog :: "nat \<Rightarrow> rat \<Rightarrow> int" where
  "ilog b q =
     (case quotient_of q of (n, d) \<Rightarrow>
        let l = int (floorlog b (nat n)) - int (floorlog b (nat d))
        in if ipow b l \<le> q then l else l - 1)"

definition round_half_even :: "rat \<Rightarrow> int" where
  "round_half_even q =
     (let f = \<lfloor>q\<rfloor>; r = q - of_int f in
      if r < 1 / 2 then f else if 1 / 2 < r then f + 1 else if even f then f else f + 1)"

definition ulp_exponent :: "rat \<Rightarrow> int" where
  "ulp_exponent q = max (ilog 2 q - 52) (- 1074)"

definition round_pos :: "rat \<Rightarrow> rat" where
  "round_pos q = of_int (round_half_even (q / ipow 2 (ulp_exponent q))) * ipow 2 (ulp_exponent q)"

definition to_double :: "rat \<Rightarrow> pyfloat" where
  "to_double q =
     (if q = 0 then Flt 0
      else if 0 < q then (let v = round_pos q in if 2 ^ 1024 \<le> v then PosInf else Flt v)
      else (let v = round_pos (- q) in
            if 2 ^ 1024 \<le> v then NegInf else if v = 0 then NegZero else Flt (- v)))"

definition double_of :: "rat \<Rightarrow> rat" where
  "double_of q = float_value (to_double q)"

definition is_double :: "rat \<Rightarrow> bool" where
  "is_double q = (to_double q = Flt q)"

fun float_ok :: "pyfloat \<Rightarrow> bool" where
  "float_ok (Flt q) = is_double q"
| "float_ok _ = True"

text \<open>\<^verbatim>\<open>float(n)\<close> and \<^verbatim>\<open>a / b\<close> on ints, which raise where the result is too large.\<close>

definition finite_or_overflow :: "pyfloat \<Rightarrow> pyfloat res" where
  "finite_or_overflow x = (if x = PosInf \<or> x = NegInf then Inl OverflowError else Inr x)"

definition float_of_int :: "int \<Rightarrow> pyfloat res" where
  "float_of_int n = finite_or_overflow (to_double (of_int n))"

definition int_truediv :: "int \<Rightarrow> int \<Rightarrow> pyfloat res" where
  "int_truediv a b = finite_or_overflow (to_double (of_int a / of_int b))"

fun signbit :: "pyfloat \<Rightarrow> bool" where
  "signbit (Flt q) = (q < 0)"
| "signbit NegZero = True"
| "signbit NegInf = True"
| "signbit _ = False"

definition float_mul :: "pyfloat \<Rightarrow> pyfloat \<Rightarrow> pyfloat" where
  "float_mul x y =
     (let neg = (signbit x \<noteq> signbit y); p = float_value x * float_value y in
      if x = NaN \<or> y = NaN then NaN
      else if isfinite x \<and> isfinite y then
        (if p = 0 then (if neg then NegZero else Flt 0) else to_double p)
      else if (isfinite x \<and> float_value x = 0) \<or> (isfinite y \<and> float_value y = 0) then NaN
      else if neg then NegInf else PosInf)"

text \<open>Subtraction of finite floats.\<close>

definition float_sub_finite :: "pyfloat \<Rightarrow> pyfloat \<Rightarrow> pyfloat" where
  "float_sub_finite x y =
     (let d = float_value x - float_value y in
      if d = 0 \<and> x = NegZero \<and> \<not> signbit y then NegZero else to_double d)"

text \<open>The exact order in which Python compares ints with floats.\<close>

datatype ext_num = NaNum | ENum int rat

fun num_of :: "pyval \<Rightarrow> ext_num" where
  "num_of (PInt i) = ENum 0 (of_int i)"
| "num_of (PFloat (Flt q)) = ENum 0 q"
| "num_of (PFloat NegZero) = ENum 0 0"
| "num_of (PFloat PosInf) = ENum 1 0"
| "num_of (PFloat NegInf) = ENum (- 1) 0"
| "num_of _ = NaNum"

fun ext_less :: "ext_num \<Rightarrow> ext_num \<Rightarrow> bool" where
  "ext_less (ENum c p) (ENum d q) = (c < d \<or> (c = d \<and> p < q))"
| "ext_less _ _ = False"

fun ext_le :: "ext_num \<Rightarrow> ext_num \<Rightarrow> bool" where
  "ext_le (ENum c p) (ENum d q) = (c < d \<or> (c = d \<and> p \<le> q))"
| "ext_le _ _ = False"

definition num_less :: "pyval \<Rightarrow> pyval \<Rightarrow> bool" where
  "num_less a b = ext_less (num_of a) (num_of b)"

definition num_le :: "pyval \<Rightarrow> pyval \<Rightarrow> bool" where
  "num_le a b = ext_le (num_of a) (num_of b)"

fun is_number :: "pyval \<Rightarrow> bool" where
  "is_number (PInt _) = True"
| "is_number (PFloat _) = True"
| "is_number _ = False"

text \<open>Decimal digits, most significant first, and their value.\<close>

fun dec_digits :: "nat \<Rightarrow> nat list" where
  "dec_digits n = (if n < 10 then [n] else dec_digits (n div 10) @ [n mod 10])"

declare dec_digits.simps [simp del]

definition dec_value :: "nat list \<Rightarrow> nat" where
  "dec_value ds = foldl (\<lambda>a d. 10 * a + d) 0 ds"

definition digit_text :: "nat list \<Rightarrow> pystr" where
  "digit_text ds = map (\<lambda>d. 48 + d) ds"

text \<open>The shortest digit string: \<open>q\<close> lies in \<open>10^(k-1) .. 10^k\<close>; with \<open>n\<close>
  significant digits the candidates are the two \<open>n\<close>-digit decimals around \<open>q\<close>.\<close>

definition reads_back :: "rat \<Rightarrow> int \<Rightarrow> nat \<Rightarrow> int \<Rightarrow> bool" where
  "reads_back q k n c = (to_double (of_int c * ipow 10 (k - int n)) = Flt q)"

fun shortest :: "nat \<Rightarrow> nat \<Rightarrow> int \<Rightarrow> rat \<Rightarrow> int \<times> nat" where
  "shortest fuel n k q =
     (let s = q * ipow 10 (int n - k); lo = \<lfloor>s\<rfloor>; hi = lo + 1;
          l = reads_back q k n lo; h = reads_back q k n hi in
      if l \<and> h then
        (if s - of_int lo < of_int hi - s then (lo, n)
         else if of_int hi - s < s - of_int lo then (hi, n)
         else if even lo then (lo, n) else (hi, n))
      else if l then (lo, n)
      else if h then (hi, n)
      else (case fuel of 0 \<Rightarrow> (lo, n) | Suc f \<Rightarrow> shortest f (Suc n) k q))"

declare shortest.simps [simp del]

text \<open>The smallest double is \<open>2^-1074\<close>, so \<open>1074\<close> decimals write any double exactly.\<close>

definition repr_digits :: "rat \<Rightarrow> nat list \<times> int" where
  "repr_digits q =
     (let k = ilog 10 q + 1; (c, n) = shortest (nat (k + 1074)) 1 k q;
          full = dec_digits (nat c)
      in (rev (dropWhile (\<lambda>d. d = 0) (rev full)), k + int (length full) - int n))"

definition exponent_text :: "int \<Rightarrow> pystr" where
  "exponent_text e =
     (if e < 0 then str ''-'' else str ''+'') @
     (let ds = dec_digits (nat \<bar>e\<bar>) in digit_text (if length ds < 2 then 0 # ds else ds))"

definition format_repr :: "nat list \<Rightarrow> int \<Rightarrow> pystr" where
  "format_repr ds decpt =
     (if - 4 < decpt \<and> decpt \<le> 16 then
        (if decpt \<le> 0 then str ''0.'' @ digit_text (replicate (nat (- decpt)) 0 @ ds)
         else if int (length ds) \<le> decpt then
           digit_text (ds @ replicate (nat decpt - length ds) 0) @ str ''.0''
         else digit_text (take (nat decpt) ds) @ str ''.'' @ digit_text (drop (nat decpt) ds))
      else
        digit_text (take 1 ds) @
        (if length ds \<le> 1 then [] else str ''.'' @ digit_text (drop 1 ds)) @
        str ''e'' @ exponent_text (decpt - 1))"

definition pos_repr :: "rat \<Rightarrow> pystr" where
  "pos_repr q = (case repr_digits q of (ds, decpt) \<Rightarrow> format_repr ds decpt)"

fun float_repr :: "pyfloat \<Rightarrow> pystr" where
  "float_repr (Flt q) =
     (if q = 0 then str ''0.0'' else if q < 0 then str ''-'' @ pos_repr (- q) else pos_repr q)"
| "float_repr NegZero = str ''-0.0''"
| "float_repr PosInf = str ''inf''"
| "float_repr NegInf = str ''-inf''"
| "float_repr NaN = str ''nan''"

text \<open>\<^verbatim>\<open>int.__repr__\<close>, which refuses more than 4300 digits (the interpreter's
  default \<^verbatim>\<open>sys.int_info.default_max_str_digits\<close>).\<close>

definition max_str_digits :: nat where
  "max_str_digits = 4300"

definition int_repr :: "int \<Rightarrow> pystr res" where
  "int_repr i =
     (let ds = dec_digits (nat \<bar>i\<bar>) in
      if max_str_digits < length ds then Inl ValueError
      else Inr ((if i < 0 then str ''-'' else []) @ digit_text ds))"

subsection \<open>Powers and logarithms\<close>

lemma ipow_power_int: "ipow b e = power_int (of_nat b) e"
  by (simp add: ipow_def power_int_def power_divide power_inverse divide_inverse)

lemma ipow_pos [simp]: "0 < b \<Longrightarrow> 0 < ipow b e"
  by (simp add: ipow_power_int)

lemma ipow_nonzero [simp]: "0 < b \<Longrightarrow> ipow b e \<noteq> 0"
  by (simp add: ipow_power_int)

lemma ipow_nonneg [simp]: "0 \<le> ipow b e"
  by (simp add: ipow_def)

lemma ipow_add: "0 < b \<Longrightarrow> ipow b (x + y) = ipow b x * ipow b y"
  by (simp add: ipow_power_int power_int_add)

lemma ipow_of_nat: "ipow b (int n) = of_nat b ^ n"
  by (simp add: ipow_def)

lemma ipow_0 [simp]: "ipow b 0 = 1"
  by (simp add: ipow_def)

lemma ipow_cancel: "0 < b \<Longrightarrow> ipow b e * ipow b (- e) = 1"
  by (simp flip: ipow_add)

lemma ipow_diff_cancel: "0 < b \<Longrightarrow> ipow b (x - y) * ipow b y = ipow b x"
  by (simp flip: ipow_add)

lemma ipow_mono: "1 < b \<Longrightarrow> x \<le> y \<Longrightarrow> ipow b x \<le> ipow b y"
  unfolding ipow_power_int by (rule power_int_increasing) simp_all

lemma ipow_strict_mono: "1 < b \<Longrightarrow> x < y \<Longrightarrow> ipow b x < ipow b y"
  unfolding ipow_power_int by (rule power_int_strict_increasing) simp_all

lemma ipow_less_iff: "1 < b \<Longrightarrow> ipow b x < ipow b y \<longleftrightarrow> x < y"
  by (metis ipow_mono ipow_strict_mono linorder_not_less)

lemma ilog_spec:
  assumes "1 < b" and "0 < q"
  shows "ipow b (ilog b q) \<le> q" and "q < ipow b (ilog b q + 1)"
proof -
  obtain n d where nd: "quotient_of q = (n, d)" by fastforce
  then have q: "q = of_int n / of_int d" and d: "0 < d"
    by (simp_all add: quotient_of_div quotient_of_denom_pos)
  with assms(2) have n: "0 < n" by (simp add: zero_less_divide_iff)
  define L where "L = floorlog b (nat n)"
  define M where "M = floorlog b (nat d)"
  have fl: "b ^ (floorlog b x - 1) \<le> x" "x < b ^ floorlog b x" "0 < floorlog b x" if "0 < x" for x
    using floorlog_bounds [OF that assms(1)] floorlog_eq_zero_iff [of b x] assms(1) that by auto
  have bounds: "ipow b (int (floorlog b (nat x)) - 1) \<le> of_int x"
    "of_int x < ipow b (int (floorlog b (nat x)))" if "0 < x" for x :: int
  proof -
    have x: "of_int x = (of_nat (nat x) :: rat)" using that by simp
    from fl [of "nat x"] that have a: "b ^ (floorlog b (nat x) - 1) \<le> nat x"
      and c: "nat x < b ^ floorlog b (nat x)" and p: "0 < floorlog b (nat x)" by auto
    from p have "int (floorlog b (nat x)) - 1 = int (floorlog b (nat x) - 1)" by linarith
    then have "ipow b (int (floorlog b (nat x)) - 1) = of_nat (b ^ (floorlog b (nat x) - 1))"
      by (simp only: ipow_of_nat of_nat_power)
    with a x show "ipow b (int (floorlog b (nat x)) - 1) \<le> of_int x"
      by (simp only: of_nat_le_iff)
    show "of_int x < ipow b (int (floorlog b (nat x)))"
      using c x by (simp only: ipow_of_nat of_nat_less_iff flip: of_nat_power)
  qed
  have dq: "(0::rat) < of_int d" using d by simp
  have up: "q < ipow b (int L - int M + 1)"
  proof -
    have "of_int n < ipow b (int L)" using bounds(2) [OF n] by (simp add: L_def)
    also have "\<dots> = ipow b (int L - int M + 1) * ipow b (int M - 1)"
      using assms(1) by (simp flip: ipow_add)
    also have "\<dots> \<le> ipow b (int L - int M + 1) * of_int d"
      using bounds(1) [OF d] by (intro mult_left_mono) (simp_all add: M_def)
    finally show ?thesis using dq by (simp add: q divide_less_eq)
  qed
  have low: "ipow b (int L - int M - 1) \<le> q"
  proof -
    have "ipow b (int L - int M - 1) * of_int d \<le> ipow b (int L - int M - 1) * ipow b (int M)"
      using bounds(2) [OF d] by (intro mult_left_mono) (simp_all add: M_def)
    also have "\<dots> = ipow b (int L - 1)" using assms(1) by (simp flip: ipow_add)
    also have "\<dots> \<le> of_int n" using bounds(1) [OF n] by (simp add: L_def)
    finally show ?thesis using dq by (simp add: q le_divide_eq)
  qed
  have "ilog b q = (if ipow b (int L - int M) \<le> q then int L - int M else int L - int M - 1)"
    by (simp add: ilog_def nd L_def M_def Let_def)
  with up low show "ipow b (ilog b q) \<le> q" and "q < ipow b (ilog b q + 1)"
    by (auto split: if_splits)
qed

subsection \<open>Rounding\<close>

lemma round_half_even_of_int [simp]: "round_half_even (of_int m) = m"
  by (simp add: round_half_even_def)

lemma ulp_exponent_le:
  assumes "q = of_int m * ipow 2 e" and "0 < m" and "m < 2 ^ 53" and "- 1074 \<le> e"
  shows "ulp_exponent q \<le> e"
proof -
  have q0: "0 < q" using assms(1,2) by simp
  have "of_int m < (ipow 2 53 :: rat)"
    using assms(3) by (simp add: ipow_def)
  then have "q < ipow 2 53 * ipow 2 e"
    unfolding assms(1) by (intro mult_strict_right_mono) simp_all
  then have "ipow 2 (ilog 2 q) < ipow 2 (53 + e)"
    using ilog_spec(1) [of 2 q] q0 by (simp add: ipow_add)
  then have "ilog 2 q < 53 + e" by (simp add: ipow_less_iff)
  then show ?thesis using assms(4) by (simp add: ulp_exponent_def)
qed

lemma round_pos_exact:
  assumes "q = of_int m * ipow 2 e" and "0 < m" and "m < 2 ^ 53" and "- 1074 \<le> e"
  shows "round_pos q = q"
proof -
  define u where "u = ulp_exponent q"
  have "u \<le> e" unfolding u_def using assms by (rule ulp_exponent_le)
  then have "q / ipow 2 u = of_int (m * 2 ^ nat (e - u))"
    using ipow_diff_cancel [of 2 e u] ipow_of_nat [of 2 "nat (e - u)"]
    by (simp add: assms(1) field_simps)
  then have "round_pos q = (q / ipow 2 u) * ipow 2 u"
    unfolding round_pos_def u_def [symmetric] by (simp only: round_half_even_of_int)
  then show ?thesis by simp
qed

lemma is_double_pos:
  assumes "q = of_int m * ipow 2 e" and "0 \<le> m" and "m < 2 ^ 53" and "- 1074 \<le> e"
    and "q < 2 ^ 1024"
  shows "is_double q"
proof (cases "m = 0")
  case True
  then show ?thesis by (simp add: assms(1) is_double_def to_double_def)
next
  case False
  with assms round_pos_exact [OF assms(1) _ assms(3,4)] show ?thesis
    by (auto simp: is_double_def to_double_def Let_def)
qed

lemma round_half_even_nonneg: "0 \<le> q \<Longrightarrow> 0 \<le> round_half_even q"
  by (simp add: round_half_even_def Let_def)

lemma round_pos_nonneg: "0 \<le> q \<Longrightarrow> 0 \<le> round_pos q"
  by (simp add: round_pos_def round_half_even_nonneg)

lemma to_double_pos_imp:
  assumes "to_double q = Flt r" and "0 < r"
  shows "0 < q"
proof (rule ccontr)
  assume "\<not> 0 < q"
  then have "q \<le> 0" by simp
  with assms round_pos_nonneg [of "- q"] show False
    by (auto simp: to_double_def Let_def split: if_splits)
qed

lemma is_double_dyadic:
  assumes "is_double q" and "0 < q"
  obtains m e where "q = of_int m * ipow 2 e" and "- 1074 \<le> e" and "0 < m" and "m < 2 ^ 53"
proof -
  define e where "e = ulp_exponent q"
  define m where "m = round_half_even (q / ipow 2 e)"
  from assms have q: "q = of_int m * ipow 2 e"
    by (auto simp: is_double_def to_double_def Let_def round_pos_def m_def e_def split: if_splits)
  have "q < ipow 2 53 * ipow 2 e"
  proof -
    have "ilog 2 q + 1 \<le> 53 + e" by (simp add: e_def ulp_exponent_def)
    then have "ipow 2 (ilog 2 q + 1) \<le> ipow 2 (53 + e)" by (simp add: ipow_mono)
    with ilog_spec(2) [of 2 q] assms(2) show ?thesis by (simp add: ipow_add)
  qed
  then have "of_int m < (ipow 2 53 :: rat)"
    unfolding q by (rule mult_right_less_imp_less) simp
  then have "m < 2 ^ 53"
    by (simp add: ipow_def)
  moreover have "0 < m"
    using assms(2) zero_less_mult_pos2 [of "of_int m" "ipow 2 e"] q by simp
  ultimately show thesis
    using that [OF q] by (simp add: e_def ulp_exponent_def)
qed

lemma is_double_0 [simp]: "is_double 0"
  by (simp add: is_double_def to_double_def)

lemma is_double_bound: "is_double q \<Longrightarrow> 0 < q \<Longrightarrow> q < 2 ^ 1024"
  by (auto simp: is_double_def to_double_def Let_def split: if_splits)

text \<open>The integer part and the fractional part of a double are doubles, so
  \<^verbatim>\<open>x - math.floor(x)\<close> is exact.\<close>

lemma floor_split:
  assumes "q = of_int m * ipow 2 e" and "e < 0"
  shows "\<lfloor>q\<rfloor> = m div 2 ^ nat (- e)"
    and "q - of_int \<lfloor>q\<rfloor> = of_int (m mod 2 ^ nat (- e)) * ipow 2 e"
proof -
  have e: "ipow 2 e = 1 / 2 ^ nat (- e)" using assms(2) by (simp add: ipow_def)
  have q: "q = of_int m / of_int (2 ^ nat (- e))" by (simp add: assms(1) e)
  then show f: "\<lfloor>q\<rfloor> = m div 2 ^ nat (- e)" by (simp only: floor_divide_of_int_eq)
  have "of_int m = of_int (m div 2 ^ nat (- e)) * 2 ^ nat (- e) + (of_int (m mod 2 ^ nat (- e)) :: rat)"
    using div_mult_mod_eq [of m "2 ^ nat (- e)"]
    by (metis of_int_add of_int_mult of_int_numeral of_int_power)
  then show "q - of_int \<lfloor>q\<rfloor> = of_int (m mod 2 ^ nat (- e)) * ipow 2 e"
    unfolding f by (simp add: q e field_simps)
qed

lemma is_double_floor_frac:
  assumes "is_double q" and "0 \<le> q"
  shows "is_double (of_int \<lfloor>q\<rfloor>) \<and> is_double (q - of_int \<lfloor>q\<rfloor>)"
proof (cases "q = 0")
  case False
  with assms have q0: "0 < q" by simp
  from is_double_dyadic [OF assms(1) q0] obtain m e
    where q: "q = of_int m * ipow 2 e" and e: "- 1074 \<le> e" and m: "0 < m" "m < 2 ^ 53" by blast
  have b: "q < 2 ^ 1024" using assms(1) q0 by (rule is_double_bound)
  show ?thesis
  proof (cases "0 \<le> e")
    case True
    then have "q = of_int (m * 2 ^ nat e)" by (simp add: q ipow_def)
    then obtain n where "q = of_int n" by blast
    with assms(1) show ?thesis by simp
  next
    case False
    then have neg: "e < 0" by simp
    define k where "k = nat (- e)"
    note fl = floor_split [OF q neg, folded k_def]
    have "m div 2 ^ k \<le> m" using zdiv_mono2 [of m 1 "2 ^ k"] m(1) by simp
    moreover have "of_int \<lfloor>q\<rfloor> < (2::rat) ^ 1024" using b floor_le_iff [of q] by linarith
    ultimately have dfl: "is_double (of_int \<lfloor>q\<rfloor>)"
      using m fl(1) by (intro is_double_pos [where m = "m div 2 ^ k" and e = 0])
        (simp_all add: pos_imp_zdiv_nonneg_iff)
    have "m mod 2 ^ k \<le> m" using m(1) by (simp add: zmod_le_nonneg_dividend)
    moreover have "q - of_int \<lfloor>q\<rfloor> < 2 ^ 1024"
      using b zero_le_floor [of q] assms(2) by (simp add: less_le_trans diff_less_eq add_increasing2)
    ultimately have "is_double (q - of_int \<lfloor>q\<rfloor>)"
      using m fl(2) e by (intro is_double_pos [where m = "m mod 2 ^ k" and e = e])
        (simp_all add: less_le_trans)
    with dfl show ?thesis by simp
  qed
qed simp

subsection \<open>Decimal digits\<close>

lemma dec_digits_nonempty [simp]: "dec_digits n \<noteq> []"
  by (subst dec_digits.simps) simp

lemma dec_digits_lt: "d \<in> set (dec_digits n) \<Longrightarrow> d < 10"
proof (induction n rule: dec_digits.induct)
  case (1 n)
  then show ?case by (subst (asm) (2) dec_digits.simps) (auto split: if_splits)
qed

lemma dec_value_append: "dec_value (xs @ ys) = dec_value xs * 10 ^ length ys + dec_value ys"
proof -
  have "foldl (\<lambda>a d. 10 * a + d) a ys = a * 10 ^ length ys + foldl (\<lambda>a d. 10 * a + d) 0 ys"
    for a :: nat
  proof (induction ys arbitrary: a)
    case Nil
    then show ?case by simp
  next
    case (Cons y ys)
    have "foldl (\<lambda>a d. 10 * a + d) a (y # ys) = (10 * a + y) * 10 ^ length ys + foldl (\<lambda>a d. 10 * a + d) 0 ys"
      by (simp only: foldl_Cons Cons [of "10 * a + y"])
    also have "\<dots> = a * 10 ^ length (y # ys) + (y * 10 ^ length ys + foldl (\<lambda>a d. 10 * a + d) 0 ys)"
      by (simp add: distrib_right)
    also have "y * 10 ^ length ys + foldl (\<lambda>a d. 10 * a + d) 0 ys = foldl (\<lambda>a d. 10 * a + d) y ys"
      by (rule Cons [of y, symmetric])
    finally show ?case by (simp only: foldl_Cons mult_0_right add_0)
  qed
  from this [of "foldl (\<lambda>a d. 10 * a + d) 0 xs"] show ?thesis
    by (simp only: dec_value_def foldl_append)
qed

lemma dec_value_Nil [simp]: "dec_value [] = 0"
  by (simp add: dec_value_def)

lemma dec_value_single [simp]: "dec_value [d] = d"
  by (simp add: dec_value_def)

lemma dec_value_replicate_0 [simp]: "dec_value (replicate n 0) = 0"
proof (induction n)
  case (Suc n)
  have "dec_value ([0] @ replicate n 0) = 0" unfolding dec_value_append by (simp add: Suc)
  then show ?case by simp
qed simp

lemma dec_value_Cons_0 [simp]: "dec_value (0 # ds) = dec_value ds"
  using dec_value_append [of "[0]" ds] by simp

lemma dec_value_dec_digits [simp]: "dec_value (dec_digits n) = n"
proof (induction n rule: dec_digits.induct)
  case (1 n)
  then show ?case by (subst dec_digits.simps) (auto simp: dec_value_append)
qed

lemma length_dec_digits: "n < 10 ^ Suc k \<Longrightarrow> length (dec_digits n) \<le> Suc k"
proof (induction k arbitrary: n)
  case 0
  then show ?case by (simp add: dec_digits.simps)
next
  case (Suc k)
  then have "n div 10 < 10 ^ Suc k" by (simp add: less_mult_imp_div_less)
  with Suc.IH [of "n div 10"] show ?case by (subst dec_digits.simps) simp
qed

lemma hd_dec_digits: "0 < n \<Longrightarrow> hd (dec_digits n) \<noteq> 0"
proof (induction n rule: dec_digits.induct)
  case (1 n)
  then show ?case by (subst dec_digits.simps) (auto simp: hd_append)
qed

lemma dec_digits_0 [simp]: "dec_digits 0 = [0]"
  by (simp add: dec_digits.simps)

lemma dec_value_strip:
  "dec_value ds = dec_value (rev (dropWhile (\<lambda>d. d = 0) (rev ds)))
     * 10 ^ (length ds - length (rev (dropWhile (\<lambda>d. d = 0) (rev ds))))"
proof -
  define zs where "zs = rev (takeWhile (\<lambda>d. d = 0) (rev ds))"
  define hs where "hs = rev (dropWhile (\<lambda>d. d = 0) (rev ds))"
  have "rev ds = takeWhile (\<lambda>d. d = 0) (rev ds) @ dropWhile (\<lambda>d. d = 0) (rev ds)" by simp
  then have ds: "ds = hs @ zs" unfolding hs_def zs_def by (metis rev_append rev_rev_ident)
  have "\<forall>d\<in>set zs. d = 0" unfolding zs_def by (auto dest: set_takeWhileD)
  then have "zs = replicate (length zs) 0" by (metis replicate_length_same)
  then have "dec_value zs = 0" by (metis dec_value_replicate_0)
  then show ?thesis unfolding hs_def [symmetric] by (simp add: ds dec_value_append)
qed

subsection \<open>The shortest representation reads back\<close>

lemma to_double_exact_product:
  assumes "is_double q" and "q * ipow 10 (int n - k) = of_int c"
  shows "reads_back q k n c"
proof -
  have "of_int c * ipow 10 (k - int n) = q * (ipow 10 (int n - k) * ipow 10 (- (int n - k)))"
    by (simp add: assms(2) [symmetric])
  also have "\<dots> = q" by (subst ipow_cancel) simp_all
  finally show ?thesis using assms(1) by (simp add: reads_back_def is_double_def)
qed

lemma shortest_reads_back:
  assumes "is_double q" and "q * ipow 10 (int (n + fuel) - k) \<in> \<int>"
  shows "case shortest fuel n k q of (c, n') \<Rightarrow> reads_back q k n' c"
  using assms(2)
proof (induction fuel arbitrary: n)
  case 0
  then obtain c where c: "q * ipow 10 (int n - k) = of_int c" by (auto elim: Ints_cases)
  then have "reads_back q k n \<lfloor>q * ipow 10 (int n - k)\<rfloor>"
    using to_double_exact_product [OF assms(1) c] by simp
  then show ?case by (simp add: shortest.simps Let_def)
next
  case (Suc fuel)
  have IH: "case shortest fuel (Suc n) k q of (c, n') \<Rightarrow> reads_back q k n' c"
    using Suc.IH [of "Suc n"] Suc.prems by simp
  show ?case
    by (subst shortest.simps) (simp add: Let_def IH)
qed

lemma double_times_power_10:
  assumes "is_double q" and "0 < q" and "1074 \<le> j"
  shows "q * ipow 10 j \<in> \<int>"
proof -
  obtain m e where q: "q = of_int m * ipow 2 e" and e: "- 1074 \<le> e"
    using is_double_dyadic [OF assms(1,2)] by blast
  have j: "0 \<le> j" and ej: "0 \<le> e + j" using e assms(3) by simp_all
  have "ipow 10 j = ipow 2 j * ipow 5 j"
    using j by (simp add: ipow_def flip: power_mult_distrib)
  then have "q * ipow 10 j = of_int m * (ipow 2 (e + j) * ipow 5 j)"
    by (simp add: q ipow_add mult_ac)
  also have "\<dots> = of_int (m * 2 ^ nat (e + j) * 5 ^ nat j)"
    using j ej by (simp add: ipow_def)
  finally show ?thesis by (metis Ints_of_int)
qed

lemma repr_digits_spec:
  assumes "is_double q" and "0 < q" and "repr_digits q = (ds, p)"
  shows "ds \<noteq> []" and "hd ds \<noteq> 0" and "\<And>d. d \<in> set ds \<Longrightarrow> d < 10"
    and "to_double (of_nat (dec_value ds) * ipow 10 (p - int (length ds))) = Flt q"
proof -
  define k where "k = ilog 10 q + 1"
  obtain c n where cn: "shortest (nat (k + 1074)) 1 k q = (c, n)" by fastforce
  define full where "full = dec_digits (nat c)"
  have "q * ipow 10 (int (1 + nat (k + 1074)) - k) \<in> \<int>"
    using assms(1,2) by (rule double_times_power_10) simp
  from shortest_reads_back [OF assms(1) this] cn have rb: "reads_back q k n c" by simp
  have "0 < of_int c * ipow 10 (k - int n)"
    using rb assms(2) by (auto simp: reads_back_def dest: to_double_pos_imp)
  then have c: "0 < c" using zero_less_mult_pos2 [of "of_int c" "ipow 10 (k - int n)"] by simp
  from assms(3) have ds: "ds = rev (dropWhile (\<lambda>d. d = 0) (rev full))"
    and p: "p = k + int (length full) - int n"
    by (simp_all add: repr_digits_def Let_def k_def [symmetric] cn [simplified] full_def)
  have full_ne: "full \<noteq> []" and hd_full: "hd full \<noteq> 0"
    using c hd_dec_digits [of "nat c"] by (simp_all add: full_def)
  obtain zs where fz: "full = ds @ zs"
    unfolding ds by (metis rev_append rev_rev_ident takeWhile_dropWhile_id)
  have val: "dec_value full = dec_value ds * 10 ^ (length full - length ds)"
    unfolding ds by (rule dec_value_strip)
  have "dec_value full = nat c" by (simp add: full_def)
  then show ne: "ds \<noteq> []" using c val by auto
  then show "hd ds \<noteq> 0" using hd_full fz by simp
  show "d < 10" if "d \<in> set ds" for d
    using that dec_digits_lt [of d "nat c"] fz by (simp add: full_def)
  have len: "length ds \<le> length full" by (simp add: fz)
  have "of_int c = (of_nat (dec_value full) :: rat)" using c by (simp add: full_def)
  also have "\<dots> = of_nat (dec_value ds) * ipow 10 (int (length full) - int (length ds))"
    using len by (simp add: val ipow_def nat_diff_distrib)
  finally have "of_int c * ipow 10 (k - int n) =
      of_nat (dec_value ds) * (ipow 10 (int (length full) - int (length ds)) * ipow 10 (k - int n))"
    by simp
  also have "\<dots> = of_nat (dec_value ds) * ipow 10 (p - int (length ds))"
    by (simp add: p algebra_simps flip: ipow_add)
  finally show "to_double (of_nat (dec_value ds) * ipow 10 (p - int (length ds))) = Flt q"
    using rb by (simp add: reads_back_def)
qed

subsection \<open>Rounded values are doubles and do not grow much\<close>

lemma round_half_even_le: "of_int (round_half_even x) \<le> x + 1 / 2"
  by (simp add: round_half_even_def Let_def) linarith

lemma round_half_even_mono_int:
  assumes "x < of_int n"
  shows "round_half_even x \<le> n"
proof -
  have "\<lfloor>x\<rfloor> < n" using assms by (simp add: floor_less_iff)
  then show ?thesis by (auto simp: round_half_even_def Let_def)
qed

lemma round_pos_upper:
  assumes "0 < q"
  shows "round_pos q \<le> 2 * q + 1"
proof -
  define e where "e = ulp_exponent q"
  have "round_pos q \<le> (q / ipow 2 e + 1 / 2) * ipow 2 e"
    unfolding round_pos_def e_def [symmetric] by (intro mult_right_mono round_half_even_le) simp
  also have "\<dots> = q + ipow 2 e / 2" by (simp add: field_simps)
  finally have up: "round_pos q \<le> q + ipow 2 e / 2" .
  have "ipow 2 e \<le> q + 1"
  proof (cases "ilog 2 q - 52 \<le> - 1074")
    case True
    then have "ipow 2 e \<le> ipow 2 0" by (intro ipow_mono) (simp_all add: e_def ulp_exponent_def)
    with assms show ?thesis by simp
  next
    case False
    then have "ipow 2 e \<le> ipow 2 (ilog 2 q)" by (intro ipow_mono) (simp_all add: e_def ulp_exponent_def)
    with ilog_spec(1) [of 2 q] assms show ?thesis by simp
  qed
  with up assms show ?thesis by linarith
qed

lemma is_double_round_pos:
  assumes "0 < q" and "round_pos q < 2 ^ 1024"
  shows "is_double (round_pos q)"
proof -
  define e where "e = ulp_exponent q"
  define m where "m = round_half_even (q / ipow 2 e)"
  have r: "round_pos q = of_int m * ipow 2 e" by (simp add: round_pos_def m_def e_def)
  have e: "- 1074 \<le> e" by (simp add: e_def ulp_exponent_def)
  have m0: "0 \<le> m" unfolding m_def using assms(1) by (intro round_half_even_nonneg) simp
  have "q < ipow 2 53 * ipow 2 e"
  proof -
    have "ipow 2 (ilog 2 q + 1) \<le> ipow 2 (53 + e)"
      by (intro ipow_mono) (simp_all add: e_def ulp_exponent_def)
    with ilog_spec(2) [of 2 q] assms(1) show ?thesis by (simp add: ipow_add)
  qed
  then have "q / ipow 2 e < of_int (2 ^ 53)"
    by (simp add: divide_less_eq) (simp add: ipow_def)
  then have m: "m \<le> 2 ^ 53" unfolding m_def by (rule round_half_even_mono_int)
  show ?thesis
  proof (cases "m = 2 ^ 53")
    case True
    then have "round_pos q = of_int (2 ^ 52) * ipow 2 (e + 1)"
      by (simp add: r ipow_add) (simp add: ipow_def)
    then show ?thesis using e assms(2) by (intro is_double_pos [where m = "2 ^ 52" and e = "e + 1"]) simp_all
  next
    case False
    with m have "m < 2 ^ 53" by simp
    then show ?thesis using r m0 e assms(2) by (intro is_double_pos [where m = m and e = e])
  qed
qed

lemma to_double_moderate:
  assumes "0 \<le> q" and "q \<le> 2 ^ 1000"
  shows "to_double q = Flt (double_of q)" and "is_double (double_of q)" and "0 \<le> double_of q"
proof -
  have "to_double q = Flt (double_of q) \<and> is_double (double_of q) \<and> 0 \<le> double_of q"
  proof (cases "q = 0")
    case True
    then show ?thesis by (simp add: double_of_def to_double_def)
  next
    case False
    with assms have q: "0 < q" by simp
    have "2 * q + 1 < 2 ^ 1024" using assms(2) by (rule_tac le_less_trans [where y = "2 * 2 ^ 1000 + 1"]) simp_all
    then have r: "round_pos q < 2 ^ 1024" using round_pos_upper [OF q] by simp
    then have "to_double q = Flt (round_pos q)" using q by (simp add: to_double_def Let_def)
    with is_double_round_pos [OF q r] round_pos_nonneg [of q] q show ?thesis by (simp add: double_of_def)
  qed
  then show "to_double q = Flt (double_of q)" and "is_double (double_of q)" and "0 \<le> double_of q"
    by simp_all
qed

lemma double_of_upper: "0 \<le> q \<Longrightarrow> q \<le> 2 ^ 1000 \<Longrightarrow> double_of q \<le> 2 * q + 1"
  using round_pos_upper [of q] to_double_moderate(1) [of q]
  by (auto simp: double_of_def to_double_def Let_def split: if_splits)

lemma float_of_int_small: "0 \<le> n \<Longrightarrow> n < 2 ^ 53 \<Longrightarrow> float_of_int n = Inr (Flt (of_int n))"
proof -
  assume n: "0 \<le> n" "n < 2 ^ 53"
  have "(of_int n :: rat) < of_int (2 ^ 53)" using n(2) by (simp only: of_int_less_iff)
  then have "(of_int n :: rat) < 2 ^ 1024" by (rule less_trans) simp
  with n have "is_double (of_int n)" by (intro is_double_pos [where m = n and e = 0]) simp_all
  then show ?thesis by (simp add: float_of_int_def finite_or_overflow_def is_double_def)
qed

lemma ilog_unique:
  assumes "ipow 2 k \<le> q" and "q < ipow 2 (k + 1)"
  shows "ilog 2 q = k"
proof -
  have q: "0 < q" using assms(1) ipow_pos [of 2 k] by linarith
  have "ipow 2 (ilog 2 q) < ipow 2 (k + 1)" and "ipow 2 k < ipow 2 (ilog 2 q + 1)"
    using ilog_spec [of 2 q] q assms by auto
  then show ?thesis by (simp add: ipow_less_iff)
qed

lemma round_half_even_ge_int: "of_int n \<le> x \<Longrightarrow> n \<le> round_half_even x"
  by (simp add: round_half_even_def Let_def flip: le_floor_iff)

lemma dyadic_scaled:
  assumes "d = of_int m * ipow 2 e" and "u \<le> e"
  obtains n where "d = of_int n * ipow 2 u"
proof
  show "d = of_int (m * 2 ^ nat (e - u)) * ipow 2 u"
    using assms ipow_diff_cancel [of 2 e u] ipow_of_nat [of 2 "nat (e - u)"] by (simp add: mult.assoc)
qed

text \<open>A double on a finer grid than that of \<open>q\<close> lies below the leading power of two of \<open>q\<close>, which is
  on the grid.\<close>

lemma leading_power_on_grid:
  assumes "- 1074 < ulp_exponent q"
  shows "ipow 2 (ilog 2 q) = of_int (2 ^ 52) * ipow 2 (ulp_exponent q)"
proof -
  have "ulp_exponent q = ilog 2 q - 52" using assms by (simp add: ulp_exponent_def max_def split: if_splits)
  then have "ipow 2 (ilog 2 q) = ipow 2 52 * ipow 2 (ulp_exponent q)" by (simp flip: ipow_add)
  moreover have "ipow 2 52 = of_int (2 ^ 52)" by (simp add: ipow_def)
  ultimately show ?thesis by simp
qed

lemma finer_below_leading_power:
  assumes "m < 2 ^ 53" and "- 1074 \<le> e" and "e < ulp_exponent q"
  shows "of_int m * ipow 2 e < ipow 2 (ilog 2 q)"
proof -
  have "of_int m * ipow 2 e < ipow 2 53 * ipow 2 e"
    using assms(1) by (intro mult_strict_right_mono) (simp_all add: ipow_def)
  also have "\<dots> \<le> ipow 2 52 * ipow 2 (ulp_exponent q)" using assms(3) by (simp add: ipow_mono flip: ipow_add)
  also have "\<dots> = ipow 2 (ilog 2 q)" using assms(2,3) by (subst leading_power_on_grid) (simp_all add: ipow_def)
  finally show ?thesis .
qed

text \<open>Rounding is monotone at the doubles.\<close>

lemma multiple_le_round:
  assumes "of_int n * ipow 2 (ulp_exponent q) \<le> q"
  shows "of_int n * ipow 2 (ulp_exponent q) \<le> round_pos q"
proof -
  have "of_int n \<le> q / ipow 2 (ulp_exponent q)" using assms by (simp add: le_divide_eq)
  then have "n \<le> round_half_even (q / ipow 2 (ulp_exponent q))" by (rule round_half_even_ge_int)
  then show ?thesis unfolding round_pos_def by (intro mult_right_mono) simp_all
qed

lemma double_le_round:
  assumes "is_double d" and "0 < d" and "d \<le> q"
  shows "d \<le> round_pos q"
proof -
  have q: "0 < q" using assms(2,3) by simp
  obtain m e where d: "d = of_int m * ipow 2 e" "- 1074 \<le> e" "0 < m" "m < 2 ^ 53" using is_double_dyadic [OF assms(1,2)] .
  show ?thesis
  proof (cases "ulp_exponent q \<le> e")
    case True
    then show ?thesis using dyadic_scaled [OF d(1)] multiple_le_round assms(3) by metis
  next
    case False
    then have "d < ipow 2 (ilog 2 q)" unfolding d(1) using d(2,4) by (intro finer_below_leading_power) simp_all
    moreover have "ipow 2 (ilog 2 q) \<le> round_pos q"
      using multiple_le_round [of "2 ^ 52" q] ilog_spec(1) [of 2 q] q leading_power_on_grid [of q] False d(2) by simp
    ultimately show ?thesis by simp
  qed
qed

lemma round_le_double:
  assumes "is_double d" and "0 < q" and "q \<le> d"
  shows "round_pos q \<le> d"
proof -
  have d0: "0 < d" using assms(2,3) by simp
  obtain m e where d: "d = of_int m * ipow 2 e" "- 1074 \<le> e" "0 < m" "m < 2 ^ 53" using is_double_dyadic [OF assms(1) d0] .
  have "ulp_exponent q \<le> e"
  proof (rule ccontr)
    assume e: "\<not> ulp_exponent q \<le> e"
    then have "d < ipow 2 (ilog 2 q)" unfolding d(1) using d(2,4) by (intro finer_below_leading_power) simp_all
    then show False using ilog_spec(1) [of 2 q] assms(2,3) by simp
  qed
  then obtain n where n: "d = of_int n * ipow 2 (ulp_exponent q)" using dyadic_scaled [OF d(1)] by blast
  then have "q / ipow 2 (ulp_exponent q) \<le> of_int n" using assms(3) by (simp add: divide_le_eq)
  then have "round_half_even (q / ipow 2 (ulp_exponent q)) \<le> n"
    by (metis le_less round_half_even_mono_int round_half_even_of_int)
  then show ?thesis unfolding n round_pos_def by (intro mult_right_mono) simp_all
qed

lemma double_of_ge_int:
  assumes "0 \<le> n" and "n < 2 ^ 53" and "of_int n \<le> q" and "q \<le> 2 ^ 1000"
  shows "of_int n \<le> double_of q"
proof (cases "n = 0")
  case True
  then show ?thesis using to_double_moderate(3) [of q] assms by simp
next
  case False
  then have q: "0 < q" using assms(1,3) by (rule_tac less_le_trans [of 0 "of_int n"]) simp_all
  then have "double_of q = round_pos q"
    using to_double_moderate(1) [of q] assms(4) by (auto simp: to_double_def Let_def double_of_def split: if_splits)
  moreover have "is_double (of_int n)"
    using float_of_int_small [OF assms(1,2)] by (auto simp: float_of_int_def finite_or_overflow_def is_double_def split: if_splits)
  ultimately show ?thesis using double_le_round [of "of_int n" q] False assms(1,3) by simp
qed

lemma int_truediv_moderate:
  assumes "0 \<le> a" and "a \<le> 2 ^ 999" and "0 < b"
  shows "int_truediv a b = Inr (Flt (double_of (of_int a / of_int b)))"
proof -
  have "(of_int a :: rat) \<le> of_int (2 ^ 999)" using assms(2) by (simp only: of_int_le_iff)
  moreover have "(of_int a :: rat) / of_int b \<le> of_int a"
    using assms(1,3) by (simp add: divide_le_eq) (metis mult.commute mult_le_cancel_right1 of_int_0_le_iff of_int_1_le_iff int_one_le_iff_zero_less not_le)
  ultimately have "(of_int a :: rat) / of_int b \<le> 2 ^ 1000" by simp
  then show ?thesis using to_double_moderate(1) [of "of_int a / of_int b"] assms
    by (simp add: int_truediv_def finite_or_overflow_def)
qed

end
