(* ===== verification/Json.thy ===== *)
theory Json
  imports "HOL-Library.List_Lexorder" "HOL-Library.Multiset" Utf8 PyFloat
begin

section \<open>JSON text: what the SDK uses of Python's \<^verbatim>\<open>json\<close> module\<close>

text \<open>
  \<open>json_dumps\<close> is \<^verbatim>\<open>json.dumps(v, ensure_ascii=False, allow_nan=False,
  separators=(",", ":"), sort_keys=True)\<close>, the call of \<^verbatim>\<open>protocol.json_bytes\<close>:
  \<open>sort_deep\<close> orders every object by key and \<open>dumps_raw\<close> writes the text.
  The SDK hands it string-keyed objects only; other keys, which \<^verbatim>\<open>json.dumps\<close> would
  turn into text or fail to sort, are the \<open>TypeError\<close> branch.

  \<open>json_loads\<close> is \<^verbatim>\<open>json.loads(text, object_pairs_hook=h, parse_constant=k)\<close>:
  the scanner of CPython over code points, with the two hooks as arguments. Its argument
  \<open>rl\<close> is the number of nested containers the interpreter's recursion limit allows;
  deeper text is the \<open>RecursionError\<close> branch, and integers of more than 4300 digits are
  the \<open>ValueError\<close> branch of \<^verbatim>\<open>int()\<close>.

  The main lemma is \<open>pvalue_dumps\<close>: the scanner reads back what the printer wrote, for
  every JSON value whose floats are doubles, and stops exactly at the end of its text.
\<close>

subsection \<open>Printing\<close>

fun key_str :: "pyval \<Rightarrow> pystr" where
  "key_str (PStr s) = s"
| "key_str _ = []"

definition sort_items :: "(pyval \<times> 'a) list \<Rightarrow> (pyval \<times> 'a) list" where
  "sort_items d = sort_key (\<lambda>p. key_str (fst p)) d"

fun sort_deep :: "pyval \<Rightarrow> pyval" where
  "sort_deep (PList xs) = PList (map sort_deep xs)"
| "sort_deep (PTuple xs) = PTuple (map sort_deep xs)"
| "sort_deep (PDict d) = PDict (sort_items (map (\<lambda>(k, v). (k, sort_deep v)) d))"
| "sort_deep v = v"

definition hex_digit :: "nat \<Rightarrow> codepoint" where
  "hex_digit n = (if n < 10 then 48 + n else 87 + n)"

definition escape_char :: "codepoint \<Rightarrow> pystr" where
  "escape_char c =
     (if c = 34 then [92, 34]
      else if c = 92 then [92, 92]
      else if c = 10 then [92, 110]
      else if c = 13 then [92, 114]
      else if c = 9 then [92, 116]
      else if c = 12 then [92, 102]
      else if c = 8 then [92, 98]
      else if c < 32 then [92, 117, 48, 48, hex_digit (c div 16), hex_digit (c mod 16)]
      else [c])"

definition escape :: "pystr \<Rightarrow> pystr" where
  "escape s = concat (map escape_char s)"

definition json_string :: "pystr \<Rightarrow> pystr" where
  "json_string s = 34 # escape s @ [34]"

fun dumps_raw :: "pyval \<Rightarrow> pystr res"
  and dumps_elems :: "pyval list \<Rightarrow> pystr res"
  and dumps_members :: "(pyval \<times> pyval) list \<Rightarrow> pystr res" where
  "dumps_raw PNone = Inr (str ''null'')"
| "dumps_raw (PBool b) = Inr (if b then str ''true'' else str ''false'')"
| "dumps_raw (PInt i) = int_repr i"
| "dumps_raw (PFloat x) = (if isfinite x then Inr (float_repr x) else Inl ValueError)"
| "dumps_raw (PStr s) = Inr (json_string s)"
| "dumps_raw (PList xs) = rbind (dumps_elems xs) (\<lambda>t. Inr (91 # t @ [93]))"
| "dumps_raw (PTuple xs) = rbind (dumps_elems xs) (\<lambda>t. Inr (91 # t @ [93]))"
| "dumps_raw (PDict d) = rbind (dumps_members d) (\<lambda>t. Inr (123 # t @ [125]))"
| "dumps_raw (POther _) = Inl TypeError"
| "dumps_elems [] = Inr []"
| "dumps_elems (v # vs) =
     rbind (dumps_raw v) (\<lambda>t.
       if vs = [] then Inr t else rbind (dumps_elems vs) (\<lambda>ts. Inr (t @ 44 # ts)))"
| "dumps_members [] = Inr []"
| "dumps_members ((k, v) # d) =
     (case k of
        PStr s \<Rightarrow>
          rbind (dumps_raw v) (\<lambda>t.
            if d = [] then Inr (json_string s @ 58 # t)
            else rbind (dumps_members d) (\<lambda>ts. Inr (json_string s @ 58 # t @ 44 # ts)))
      | _ \<Rightarrow> Inl TypeError)"

definition json_dumps :: "pyval \<Rightarrow> pystr res" where
  "json_dumps v = dumps_raw (sort_deep v)"

subsection \<open>Scanning\<close>

definition is_ws :: "codepoint \<Rightarrow> bool" where
  "is_ws c = (c = 32 \<or> c = 9 \<or> c = 10 \<or> c = 13)"

definition skip_ws :: "pystr \<Rightarrow> pystr" where
  "skip_ws s = dropWhile is_ws s"

definition is_digit :: "codepoint \<Rightarrow> bool" where
  "is_digit c = (48 \<le> c \<and> c \<le> 57)"

definition hex_value :: "codepoint \<Rightarrow> nat option" where
  "hex_value c =
     (if 48 \<le> c \<and> c \<le> 57 then Some (c - 48)
      else if 97 \<le> c \<and> c \<le> 102 then Some (c - 87)
      else if 65 \<le> c \<and> c \<le> 70 then Some (c - 55)
      else None)"

definition hex4 :: "pystr \<Rightarrow> (nat \<times> pystr) option" where
  "hex4 s =
     (case s of
        a # b # c # d # r \<Rightarrow>
          (case (hex_value a, hex_value b, hex_value c, hex_value d) of
             (Some w, Some x, Some y, Some z) \<Rightarrow> Some (w * 4096 + x * 256 + y * 16 + z, r)
           | _ \<Rightarrow> None)
      | _ \<Rightarrow> None)"

definition unescape_unicode :: "pystr \<Rightarrow> (codepoint \<times> pystr) option" where
  "unescape_unicode s =
     (case hex4 s of
        None \<Rightarrow> None
      | Some (u, r) \<Rightarrow>
          if 0xD800 \<le> u \<and> u \<le> 0xDBFF then
            (case r of
               b # c # r' \<Rightarrow>
                 if b = 92 \<and> c = 117 then
                   (case hex4 r' of
                      None \<Rightarrow> None
                    | Some (l, r'') \<Rightarrow>
                        if 0xDC00 \<le> l \<and> l \<le> 0xDFFF
                        then Some (0x10000 + (u - 0xD800) * 1024 + (l - 0xDC00), r'')
                        else Some (u, r))
                 else Some (u, r)
             | _ \<Rightarrow> Some (u, r))
          else Some (u, r))"

text \<open>One escape sequence, after its backslash.\<close>

definition unescape :: "pystr \<Rightarrow> (codepoint \<times> pystr) option" where
  "unescape s =
     (case s of
        [] \<Rightarrow> None
      | c # r \<Rightarrow>
          if c = 34 then Some (34, r)
          else if c = 92 then Some (92, r)
          else if c = 47 then Some (47, r)
          else if c = 98 then Some (8, r)
          else if c = 102 then Some (12, r)
          else if c = 110 then Some (10, r)
          else if c = 114 then Some (13, r)
          else if c = 116 then Some (9, r)
          else if c = 117 then unescape_unicode r
          else None)"

lemma hex4_shorter: "hex4 s = Some (u, r) \<Longrightarrow> length r < length s"
  by (auto simp: hex4_def split: list.splits option.splits)

lemma unescape_shorter: "unescape s = Some (c, r) \<Longrightarrow> length r < length s"
  by (auto simp: unescape_def unescape_unicode_def split: list.splits if_splits option.splits
      dest!: hex4_shorter)

text \<open>The characters of a string, after its opening quote.\<close>

function scan_string :: "pystr \<Rightarrow> (pystr \<times> pystr) option" where
  "scan_string [] = None"
| "scan_string (c # s) =
     (if c = 34 then Some ([], s)
      else if c = 92 then
        (case unescape s of
           None \<Rightarrow> None
         | Some (d, r) \<Rightarrow> (case scan_string r of None \<Rightarrow> None | Some (t, r') \<Rightarrow> Some (d # t, r')))
      else if c < 32 then None
      else (case scan_string s of None \<Rightarrow> None | Some (t, r') \<Rightarrow> Some (c # t, r')))"
  by pat_completeness auto
termination
  by (relation "measure length") (auto dest: unescape_shorter)

definition digit_values :: "pystr \<Rightarrow> nat list" where
  "digit_values s = map (\<lambda>c. c - 48) (takeWhile is_digit s)"

definition split_int :: "pystr \<Rightarrow> (nat list \<times> pystr) option" where
  "split_int s =
     (case s of
        [] \<Rightarrow> None
      | c # r \<Rightarrow>
          if c = 48 then Some ([0], r)
          else if is_digit c then Some (digit_values s, dropWhile is_digit s)
          else None)"

definition split_frac :: "pystr \<Rightarrow> nat list option \<times> pystr" where
  "split_frac s =
     (case s of
        p # d # r \<Rightarrow>
          if p = 46 \<and> is_digit d then (Some (digit_values (d # r)), dropWhile is_digit (d # r))
          else (None, s)
      | _ \<Rightarrow> (None, s))"

definition split_sign :: "pystr \<Rightarrow> bool \<times> pystr" where
  "split_sign s =
     (case s of
        [] \<Rightarrow> (False, s)
      | c # r \<Rightarrow> if c = 45 then (True, r) else if c = 43 then (False, r) else (False, s))"

definition split_exp :: "pystr \<Rightarrow> int option \<times> pystr" where
  "split_exp s =
     (case s of
        [] \<Rightarrow> (None, s)
      | c # r \<Rightarrow>
          if c = 101 \<or> c = 69 then
            (case split_sign r of (neg, r') \<Rightarrow>
               if r' \<noteq> [] \<and> is_digit (hd r') then
                 (Some ((if neg then -1 else 1) * int (dec_value (digit_values r'))), dropWhile is_digit r')
               else (None, s))
          else (None, s))"

text \<open>\<^verbatim>\<open>float(text)\<close> for the decimal \<open>m * 10^e\<close>.\<close>

definition decimal_to_double :: "bool \<Rightarrow> nat \<Rightarrow> int \<Rightarrow> pyfloat" where
  "decimal_to_double neg m e =
     (let q = of_nat m * ipow 10 e in
      if m = 0 then (if neg then NegZero else Flt 0)
      else to_double (if neg then - q else q))"

definition scan_number :: "pystr \<Rightarrow> (pyval res \<times> pystr) option" where
  "scan_number s =
     (let (neg, s1) = (case s of c # r \<Rightarrow> if c = 45 then (True, r) else (False, s) | [] \<Rightarrow> (False, s)) in
      case split_int s1 of
        None \<Rightarrow> None
      | Some (ip, s2) \<Rightarrow>
          (case split_frac s2 of (fp, s3) \<Rightarrow>
           case split_exp s3 of (ex, s4) \<Rightarrow>
             if fp = None \<and> ex = None then
               Some (if max_str_digits < length ip then Inl ValueError
                     else Inr (PInt ((if neg then -1 else 1) * int (dec_value ip))), s4)
             else
               (let f = (case fp of None \<Rightarrow> [] | Some ds \<Rightarrow> ds); e = (case ex of None \<Rightarrow> 0 | Some e \<Rightarrow> e)
                in Some (Inr (PFloat (decimal_to_double neg (dec_value (ip @ f)) (e - int (length f)))), s4))))"

definition starts_with :: "string \<Rightarrow> pystr \<Rightarrow> bool" where
  "starts_with p s = (take (length p) s = str p)"

type_synonym pairs_hook = "(pystr \<times> pyval) list \<Rightarrow> pyval res"
type_synonym const_hook = "string \<Rightarrow> pyval res"

lemma skip_ws_length: "length (skip_ws s) \<le> length s"
  by (simp add: skip_ws_def length_dropWhile_le)

lemma skip_ws_Cons_length: "skip_ws s = c # r \<Longrightarrow> length r < length s"
  using skip_ws_length [of s] by simp

text \<open>The scanner. The guards on lengths hold whenever a value was read
  (\<open>pvalue_shorter\<close>); they make the recursion visibly well-founded.\<close>

function (sequential) pvalue :: "pairs_hook \<Rightarrow> const_hook \<Rightarrow> nat \<Rightarrow> pystr \<Rightarrow> (pyval \<times> pystr) res"
  and pelems :: "pairs_hook \<Rightarrow> const_hook \<Rightarrow> nat \<Rightarrow> pyval list \<Rightarrow> pystr \<Rightarrow> (pyval \<times> pystr) res"
  and pmembers :: "pairs_hook \<Rightarrow> const_hook \<Rightarrow> nat \<Rightarrow> (pystr \<times> pyval) list \<Rightarrow> pystr \<Rightarrow> (pyval \<times> pystr) res"
where
  "pvalue h k rl [] = Inl JSONDecodeError"
| "pvalue h k rl (c # r) =
     (if c = 34 then
        (case scan_string r of None \<Rightarrow> Inl JSONDecodeError | Some (t, r') \<Rightarrow> Inr (PStr t, r'))
      else if c = 123 then
        (case rl of 0 \<Rightarrow> Inl RecursionError | Suc rl' \<Rightarrow>
           if starts_with ''}'' (skip_ws r)
           then rbind (h []) (\<lambda>v. Inr (v, tl (skip_ws r)))
           else pmembers h k rl' [] (skip_ws r))
      else if c = 91 then
        (case rl of 0 \<Rightarrow> Inl RecursionError | Suc rl' \<Rightarrow>
           if starts_with '']'' (skip_ws r)
           then Inr (PList [], tl (skip_ws r))
           else pelems h k rl' [] (skip_ws r))
      else if starts_with ''null'' (c # r) then Inr (PNone, drop 4 (c # r))
      else if starts_with ''true'' (c # r) then Inr (PBool True, drop 4 (c # r))
      else if starts_with ''false'' (c # r) then Inr (PBool False, drop 5 (c # r))
      else if starts_with ''NaN'' (c # r) then rbind (k ''NaN'') (\<lambda>v. Inr (v, drop 3 (c # r)))
      else if starts_with ''Infinity'' (c # r) then
        rbind (k ''Infinity'') (\<lambda>v. Inr (v, drop 8 (c # r)))
      else if starts_with ''-Infinity'' (c # r) then
        rbind (k ''-Infinity'') (\<lambda>v. Inr (v, drop 9 (c # r)))
      else (case scan_number (c # r) of
              None \<Rightarrow> Inl JSONDecodeError
            | Some (n, r') \<Rightarrow> rbind n (\<lambda>v. Inr (v, r'))))"
| "pelems h k rl acc s =
     rbind (pvalue h k rl s) (\<lambda>(v, r).
       if length r < length s then
         (case skip_ws r of
            [] \<Rightarrow> Inl JSONDecodeError
          | c # r' \<Rightarrow>
              if c = 93 then Inr (PList (acc @ [v]), r')
              else if c = 44 then pelems h k rl (acc @ [v]) (skip_ws r')
              else Inl JSONDecodeError)
       else Inl JSONDecodeError)"
| "pmembers h k rl acc s =
     (case s of
        [] \<Rightarrow> Inl JSONDecodeError
      | q # s1 \<Rightarrow>
          if q \<noteq> 34 then Inl JSONDecodeError
          else (case scan_string s1 of
             None \<Rightarrow> Inl JSONDecodeError
           | Some (key, r1) \<Rightarrow>
               (case skip_ws r1 of
                  [] \<Rightarrow> Inl JSONDecodeError
                | c # r2 \<Rightarrow>
                    if c \<noteq> 58 \<or> length r2 \<ge> length s then Inl JSONDecodeError
                    else rbind (pvalue h k rl (skip_ws r2)) (\<lambda>(v, r3).
                      if length r3 < length s then
                        (case skip_ws r3 of
                           [] \<Rightarrow> Inl JSONDecodeError
                         | d # r4 \<Rightarrow>
                             if d = 125 then
                               rbind (h (acc @ [(key, v)])) (\<lambda>w. Inr (w, r4))
                             else if d = 44 then
                               pmembers h k rl (acc @ [(key, v)]) (skip_ws r4)
                             else Inl JSONDecodeError)
                      else Inl JSONDecodeError))))"
  by pat_completeness auto

termination
  apply (relation "measure (case_sum (\<lambda>(h, k, rl, s). 2 * length s)
    (case_sum (\<lambda>(h, k, rl, acc, s). 2 * length s + 1) (\<lambda>(h, k, rl, acc, s). 2 * length s + 1)))")
  apply (auto simp: less_Suc_eq_le skip_ws_length dest!: skip_ws_Cons_length)
  subgoal for h k rl s v r r' using skip_ws_length [of r'] by linarith
  subgoal for s1 key r1 r2 using skip_ws_length [of r2] by linarith
  subgoal for h k rl s1 key r1 r2 v r3 r4 using skip_ws_length [of r4] by linarith
  done

definition json_loads :: "pairs_hook \<Rightarrow> const_hook \<Rightarrow> nat \<Rightarrow> pystr \<Rightarrow> pyval res" where
  "json_loads h k rl s =
     (if s \<noteq> [] \<and> hd s = 0xFEFF then Inl JSONDecodeError
      else rbind (pvalue h k rl (skip_ws s)) (\<lambda>(v, r).
        if skip_ws r = [] then Inr v else Inl JSONDecodeError))"

declare pvalue.simps [simp del] pelems.simps [simp del] pmembers.simps [simp del]

subsection \<open>Strings read back\<close>

lemma hex_value_hex_digit: "n < 16 \<Longrightarrow> hex_value (hex_digit n) = Some n"
  by (auto simp: hex_value_def hex_digit_def)

lemma unescape_control:
  assumes "c < 32"
  shows "unescape (117 # 48 # 48 # hex_digit (c div 16) # hex_digit (c mod 16) # r) = Some (c, r)"
proof -
  have "hex_value 48 = Some 0" by (simp add: hex_value_def)
  moreover have "hex_value (hex_digit (c div 16)) = Some (c div 16)"
    using assms by (intro hex_value_hex_digit) auto
  moreover have "hex_value (hex_digit (c mod 16)) = Some (c mod 16)"
    by (intro hex_value_hex_digit) auto
  ultimately have "hex4 (48 # 48 # hex_digit (c div 16) # hex_digit (c mod 16) # r) = Some (c, r)"
    by (simp add: hex4_def)
  with assms show ?thesis by (simp add: unescape_def unescape_unicode_def)
qed

lemma scan_escape_char:
  "scan_string (escape_char c @ s) =
     (case scan_string s of None \<Rightarrow> None | Some (t, r) \<Rightarrow> Some (c # t, r))"
proof (cases "c < 32 \<and> c \<notin> {8, 9, 10, 12, 13}")
  case True
  then have "escape_char c = [92, 117, 48, 48, hex_digit (c div 16), hex_digit (c mod 16)]"
    by (simp add: escape_char_def)
  with True show ?thesis by (simp add: unescape_control)
next
  case False
  then show ?thesis by (auto simp: escape_char_def unescape_def)
qed

lemma scan_string_escape: "scan_string (escape s @ 34 # r) = Some (s, r)"
proof (induction s)
  case Nil
  then show ?case by (simp add: escape_def)
next
  case (Cons c s)
  then show ?case using scan_escape_char [of c "escape s @ 34 # r"] by (simp add: escape_def)
qed

subsection \<open>Numbers read back\<close>

definition num_end :: "pystr \<Rightarrow> bool" where
  "num_end r = (r = [] \<or> (\<not> is_digit (hd r) \<and> hd r \<notin> {46, 101, 69}))"

abbreviation all_digits :: "nat list \<Rightarrow> bool" where
  "all_digits ds \<equiv> (\<forall>d\<in>set ds. d < 10)"

lemma is_digit_text: "d < 10 \<Longrightarrow> is_digit (48 + d)"
  by (simp add: is_digit_def)

lemma takeWhile_digit_text:
  assumes "all_digits ds" and "r = [] \<or> \<not> is_digit (hd r)"
  shows "takeWhile is_digit (digit_text ds @ r) = digit_text ds"
    and "dropWhile is_digit (digit_text ds @ r) = r"
proof -
  have all: "\<forall>c\<in>set (digit_text ds). is_digit c" using assms(1) by (auto simp: digit_text_def is_digit_def)
  have r: "takeWhile is_digit r = []" "dropWhile is_digit r = r" using assms(2) by (cases r; auto)+
  from all r show "takeWhile is_digit (digit_text ds @ r) = digit_text ds"
    by (simp add: takeWhile_append2)
  from all r show "dropWhile is_digit (digit_text ds @ r) = r"
    by (simp add: dropWhile_append2)
qed

lemma digit_values_text:
  assumes "all_digits ds" and "r = [] \<or> \<not> is_digit (hd r)"
  shows "digit_values (digit_text ds @ r) = ds"
  unfolding digit_values_def takeWhile_digit_text(1) [OF assms]
  by (simp add: digit_text_def comp_def)

lemma digit_text_Cons [simp]: "digit_text (d # ds) = (48 + d) # digit_text ds"
  by (simp add: digit_text_def)

lemma digit_text_Nil [simp]: "digit_text [] = []"
  by (simp add: digit_text_def)

lemma digit_text_append: "digit_text (xs @ ys) = digit_text xs @ digit_text ys"
  by (simp add: digit_text_def)

lemma split_int_text:
  assumes "all_digits ds" and "ds \<noteq> []" and "hd ds \<noteq> 0 \<or> ds = [0]" and "r = [] \<or> \<not> is_digit (hd r)"
  shows "split_int (digit_text ds @ r) = Some (ds, r)"
proof -
  obtain d ds' where ds: "ds = d # ds'" using assms(2) by (cases ds) auto
  show ?thesis
  proof (cases "d = 0")
    case True
    with assms(3) ds show ?thesis by (simp add: split_int_def)
  next
    case False
    have "digit_values (digit_text ds @ r) = ds" and "dropWhile is_digit (digit_text ds @ r) = r"
      using assms(1,4) by (simp_all only: digit_values_text takeWhile_digit_text)
    moreover have "is_digit (48 + d)" using assms(1) ds by (simp add: is_digit_def)
    ultimately show ?thesis using False ds by (simp add: split_int_def)
  qed
qed

lemma split_frac_text:
  assumes "all_digits ds" and "ds \<noteq> []" and "r = [] \<or> \<not> is_digit (hd r)"
  shows "split_frac (46 # digit_text ds @ r) = (Some ds, r)"
proof -
  obtain d ds' where ds: "ds = d # ds'" using assms(2) by (cases ds) auto
  have "digit_values (digit_text ds @ r) = ds" and "dropWhile is_digit (digit_text ds @ r) = r"
    using assms(1,3) by (simp_all only: digit_values_text takeWhile_digit_text)
  moreover have "is_digit (48 + d)" using assms(1) ds by (simp add: is_digit_def)
  ultimately show ?thesis using ds by (simp add: split_frac_def)
qed

lemma split_frac_none: "r = [] \<or> hd r \<noteq> 46 \<Longrightarrow> split_frac r = (None, r)"
  by (auto simp: split_frac_def split: list.splits)

lemma split_exp_none: "num_end r \<Longrightarrow> split_exp r = (None, r)"
  by (auto simp: split_exp_def num_end_def split: list.splits)

lemma split_exp_text:
  assumes "r = [] \<or> \<not> is_digit (hd r)"
  shows "split_exp (101 # exponent_text e @ r) = (Some e, r)"
proof -
  define ds where "ds = (let ds = dec_digits (nat \<bar>e\<bar>) in if length ds < 2 then 0 # ds else ds)"
  have ad: "all_digits ds" and ne: "ds \<noteq> []"
    by (auto simp: ds_def Let_def dest: dec_digits_lt)
  have val: "dec_value ds = nat \<bar>e\<bar>" by (simp add: ds_def Let_def)
  have e: "exponent_text e = (if e < 0 then 45 else 43) # digit_text ds"
    by (simp add: exponent_text_def ds_def Let_def str_def)
  have "digit_text ds @ r \<noteq> []" and "is_digit (hd (digit_text ds @ r))"
    using ad ne by (cases ds; simp add: is_digit_def)+
  moreover have "digit_values (digit_text ds @ r) = ds" and "dropWhile is_digit (digit_text ds @ r) = r"
    using ad assms by (simp_all only: digit_values_text takeWhile_digit_text)
  ultimately show ?thesis
    using val by (simp add: split_exp_def split_sign_def e)
qed

text \<open>The sign is read first; what follows is an unsigned number.\<close>

definition scan_unsigned :: "bool \<Rightarrow> pystr \<Rightarrow> (pyval res \<times> pystr) option" where
  "scan_unsigned neg s1 =
     (case split_int s1 of
        None \<Rightarrow> None
      | Some (ip, s2) \<Rightarrow>
          (case split_frac s2 of (fp, s3) \<Rightarrow>
           case split_exp s3 of (ex, s4) \<Rightarrow>
             if fp = None \<and> ex = None then
               Some (if max_str_digits < length ip then Inl ValueError
                     else Inr (PInt ((if neg then -1 else 1) * int (dec_value ip))), s4)
             else
               (let f = (case fp of None \<Rightarrow> [] | Some ds \<Rightarrow> ds); e = (case ex of None \<Rightarrow> 0 | Some e \<Rightarrow> e)
                in Some (Inr (PFloat (decimal_to_double neg (dec_value (ip @ f)) (e - int (length f)))), s4))))"

lemma scan_number_neg: "scan_number (45 # s) = scan_unsigned True s"
  by (simp add: scan_number_def scan_unsigned_def)

lemma scan_number_pos: "s = [] \<or> hd s \<noteq> 45 \<Longrightarrow> scan_number s = scan_unsigned False s"
  by (cases s) (auto simp: scan_number_def scan_unsigned_def)

lemma hd_digit_text: "ds \<noteq> [] \<Longrightarrow> hd (digit_text ds @ r) = 48 + hd ds"
  by (cases ds) simp_all

lemma dec_digits_shape: "hd (dec_digits n) \<noteq> 0 \<or> dec_digits n = [0]"
  using hd_dec_digits [of n] by (cases "n = 0") auto

lemma scan_unsigned_int:
  assumes "length (dec_digits n) \<le> max_str_digits" and "num_end r"
  shows "scan_unsigned neg (digit_text (dec_digits n) @ r) =
           Some (Inr (PInt ((if neg then -1 else 1) * int n)), r)"
proof -
  have "split_int (digit_text (dec_digits n) @ r) = Some (dec_digits n, r)"
    using assms(2) dec_digits_shape by (intro split_int_text) (auto simp: num_end_def dest: dec_digits_lt)
  moreover have "split_frac r = (None, r)" "split_exp r = (None, r)"
    using assms(2) by (auto intro: split_frac_none split_exp_none simp: num_end_def)
  ultimately show ?thesis using assms(1) by (simp add: scan_unsigned_def)
qed

lemma scan_number_int:
  assumes "int_repr i = Inr t" and "num_end r"
  shows "scan_number (t @ r) = Some (Inr (PInt i), r)"
proof -
  define n where "n = nat \<bar>i\<bar>"
  from assms(1) have len: "length (dec_digits n) \<le> max_str_digits"
    and t: "t = (if i < 0 then [45] else []) @ digit_text (dec_digits n)"
    by (auto simp: int_repr_def Let_def n_def str_def split: if_splits)
  note u = scan_unsigned_int [OF len assms(2)]
  show ?thesis
  proof (cases "i < 0")
    case True
    then show ?thesis using u [of True] by (simp add: t scan_number_neg n_def)
  next
    case False
    then show ?thesis using u [of False] by (simp add: t scan_number_pos hd_digit_text n_def)
  qed
qed

lemma scan_unsigned_parts:
  assumes "split_int s = Some (ip, s2)" and "split_frac s2 = (fp, s3)" and "split_exp s3 = (ex, s4)"
    and "fp \<noteq> None \<or> ex \<noteq> None"
    and "f = (case fp of None \<Rightarrow> [] | Some ds \<Rightarrow> ds)" and "e = (case ex of None \<Rightarrow> 0 | Some e \<Rightarrow> e)"
  shows "scan_unsigned neg s =
    Some (Inr (PFloat (decimal_to_double neg (dec_value (ip @ f)) (e - int (length f)))), s4)"
  using assms(4) by (auto simp: scan_unsigned_def Let_def assms(1,2,3,5,6))

lemma decimal_to_double_cong:
  assumes "of_nat m * ipow 10 e = of_nat n * ipow 10 e'"
  shows "decimal_to_double neg m e = decimal_to_double neg n e'"
proof -
  have "m = 0 \<longleftrightarrow> n = 0" using assms by (metis ipow_nonzero mult_eq_0_iff of_nat_eq_0_iff zero_less_numeral)
  with assms show ?thesis by (simp add: decimal_to_double_def)
qed

lemma scan_unsigned_point:
  assumes "all_digits ip" "ip \<noteq> []" "hd ip \<noteq> 0 \<or> ip = [0]" and "all_digits fp" "fp \<noteq> []" and "num_end r"
  shows "scan_unsigned neg (digit_text ip @ 46 # digit_text fp @ r) =
    Some (Inr (PFloat (decimal_to_double neg (dec_value (ip @ fp)) (- int (length fp)))), r)"
proof -
  have nd: "r = [] \<or> \<not> is_digit (hd r)" using assms(6) by (auto simp: num_end_def)
  have "split_int (digit_text ip @ 46 # digit_text fp @ r) = Some (ip, 46 # digit_text fp @ r)"
    using assms(1,2,3) by (intro split_int_text) (auto simp: is_digit_def)
  moreover have "split_frac (46 # digit_text fp @ r) = (Some fp, r)"
    using assms(4,5) nd by (rule split_frac_text)
  moreover have "split_exp r = (None, r)" using assms(6) by (rule split_exp_none)
  ultimately show ?thesis
    using scan_unsigned_parts [of _ ip _ "Some fp" r None r fp 0 neg] by simp
qed

lemma scan_unsigned_exponent:
  assumes "all_digits ds" "ds \<noteq> []" "hd ds \<noteq> 0" and "num_end r"
  shows "scan_unsigned neg
      (digit_text (take 1 ds) @ (if length ds \<le> 1 then [] else 46 # digit_text (drop 1 ds)) @
       101 # exponent_text e @ r) =
    Some (Inr (PFloat (decimal_to_double neg (dec_value ds) (e - (int (length ds) - 1)))), r)"
proof -
  obtain d ds' where ds: "ds = d # ds'" using assms(2) by (cases ds) auto
  have nd: "r = [] \<or> \<not> is_digit (hd r)" using assms(4) by (auto simp: num_end_def)
  define t where "t = 101 # exponent_text e @ r"
  have t: "t = [] \<or> \<not> is_digit (hd t)" by (simp add: t_def is_digit_def)
  have ex: "split_exp t = (Some e, r)" unfolding t_def using nd by (rule split_exp_text)
  have d: "all_digits [d]" "d \<noteq> 0" "all_digits ds'" using assms(1,3) ds by auto
  show ?thesis
  proof (cases "ds' = []")
    case True
    have "split_int (digit_text [d] @ t) = Some ([d], t)"
      using d t by (intro split_int_text) simp_all
    moreover have "split_frac t = (None, t)" by (rule split_frac_none) (simp add: t_def)
    ultimately show ?thesis
      using scan_unsigned_parts [of _ "[d]" t None t "Some e" r "[]" e neg] ex True ds by (simp add: t_def)
  next
    case False
    have "split_int (digit_text [d] @ 46 # digit_text ds' @ t) = Some ([d], 46 # digit_text ds' @ t)"
      using d by (intro split_int_text) (simp_all add: is_digit_def)
    moreover have "split_frac (46 # digit_text ds' @ t) = (Some ds', t)"
      using d(3) False t by (rule split_frac_text)
    ultimately show ?thesis
      using scan_unsigned_parts [of _ "[d]" _ "Some ds'" t "Some e" r ds' e neg] ex False ds
      by (simp add: t_def)
  qed
qed

lemma scan_unsigned_format:
  assumes "all_digits ds" "ds \<noteq> []" "hd ds \<noteq> 0" and "num_end r"
  shows "scan_unsigned neg (format_repr ds p @ r) =
    Some (Inr (PFloat (decimal_to_double neg (dec_value ds) (p - int (length ds)))), r)"
proof -
  consider (low) "- 4 < p" "p \<le> 0" | (mid) "0 < p" "p < int (length ds)" "p \<le> 16"
    | (high) "0 < p" "int (length ds) \<le> p" "p \<le> 16" | (expo) "p \<le> - 4 \<or> 16 < p"
    by linarith
  then show ?thesis
  proof cases
    case low
    define fp where "fp = replicate (nat (- p)) 0 @ ds"
    have "scan_unsigned neg (digit_text [0] @ 46 # digit_text fp @ r) =
      Some (Inr (PFloat (decimal_to_double neg (dec_value ([0] @ fp)) (- int (length fp)))), r)"
      using assms by (intro scan_unsigned_point) (auto simp: fp_def)
    moreover have "dec_value ([0] @ fp) = dec_value ds" by (simp add: fp_def dec_value_append)
    moreover have "format_repr ds p = digit_text [0] @ 46 # digit_text fp"
      using low by (simp add: format_repr_def fp_def str_def)
    moreover have "- int (length fp) = p - int (length ds)" using low by (simp add: fp_def)
    ultimately show ?thesis by simp
  next
    case mid
    define n where "n = nat p"
    have n: "0 < n" "n < length ds" "p = int n" using mid by (auto simp: n_def)
    have tk: "take n ds \<noteq> []" "hd (take n ds) \<noteq> 0" using n assms(2,3) by (auto simp: hd_take)
    have "scan_unsigned neg (digit_text (take n ds) @ 46 # digit_text (drop n ds) @ r) =
      Some (Inr (PFloat (decimal_to_double neg (dec_value (take n ds @ drop n ds))
        (- int (length (drop n ds))))), r)"
      using assms n tk by (intro scan_unsigned_point) (auto dest: in_set_takeD in_set_dropD)
    moreover have "format_repr ds p = digit_text (take n ds) @ 46 # digit_text (drop n ds)"
      using mid n by (simp add: format_repr_def str_def)
    ultimately show ?thesis using n by (simp add: of_nat_diff)
  next
    case high
    define zs where "zs = replicate (nat p - length ds) (0::nat)"
    have "scan_unsigned neg (digit_text (ds @ zs) @ 46 # digit_text [0] @ r) =
      Some (Inr (PFloat (decimal_to_double neg (dec_value ((ds @ zs) @ [0])) (- int (length [0::nat])))), r)"
      using assms by (intro scan_unsigned_point) (auto simp: zs_def)
    moreover have "format_repr ds p = digit_text (ds @ zs) @ 46 # digit_text [0]"
      using high by (simp add: format_repr_def zs_def str_def)
    moreover have "decimal_to_double neg (dec_value ((ds @ zs) @ [0])) (- int (length [0::nat])) =
        decimal_to_double neg (dec_value ds) (p - int (length ds))"
    proof (rule decimal_to_double_cong)
      have "dec_value ((ds @ zs) @ [0]) = dec_value ds * 10 ^ (nat p - length ds + 1)"
        by (simp add: dec_value_append zs_def)
      then have "of_nat (dec_value ((ds @ zs) @ [0])) =
          of_nat (dec_value ds) * ipow 10 (p - int (length ds) + 1)"
        using high by (simp add: ipow_def nat_add_distrib nat_diff_distrib)
      then show "of_nat (dec_value ((ds @ zs) @ [0])) * ipow 10 (- int (length [0::nat])) =
          of_nat (dec_value ds) * ipow 10 (p - int (length ds))"
        by (simp add: mult.assoc flip: ipow_add)
    qed
    ultimately show ?thesis by simp
  next
    case expo
    then have "format_repr ds p @ r = digit_text (take 1 ds) @
        (if length ds \<le> 1 then [] else 46 # digit_text (drop 1 ds)) @ 101 # exponent_text (p - 1) @ r"
      by (auto simp: format_repr_def str_def)
    then show ?thesis using scan_unsigned_exponent [OF assms, of neg "p - 1"] by (simp add: algebra_simps)
  qed
qed

lemma scan_unsigned_pos_repr:
  assumes "is_double q" and "0 < q" and "num_end r"
  shows "\<exists>m e. scan_unsigned neg (pos_repr q @ r) = Some (Inr (PFloat (decimal_to_double neg m e)), r)
     \<and> m \<noteq> 0 \<and> to_double (of_nat m * ipow 10 e) = Flt q"
proof -
  obtain ds p where dp: "repr_digits q = (ds, p)" by fastforce
  note spec = repr_digits_spec [OF assms(1,2) dp]
  have "scan_unsigned neg (pos_repr q @ r) =
      Some (Inr (PFloat (decimal_to_double neg (dec_value ds) (p - int (length ds)))), r)"
    using scan_unsigned_format [of ds r neg p] spec(1,2,3) assms(3) by (simp add: pos_repr_def dp)
  moreover have "dec_value ds \<noteq> 0"
    using to_double_pos_imp [OF spec(4) assms(2)] by (intro notI) simp
  ultimately show ?thesis using spec(4) by blast
qed

lemma to_double_uminus:
  assumes "to_double q = Flt r" and "0 < r"
  shows "to_double (- q) = Flt (- r)"
  using assms to_double_pos_imp [OF assms] by (auto simp: to_double_def Let_def split: if_splits)

lemma is_double_uminus: "is_double q \<Longrightarrow> q < 0 \<Longrightarrow> is_double (- q)"
  using round_pos_nonneg [of "- q"]
  by (auto simp: is_double_def to_double_def Let_def split: if_splits)

lemma hd_format_repr:
  assumes "all_digits ds" "ds \<noteq> []"
  shows "format_repr ds p \<noteq> [] \<and> is_digit (hd (format_repr ds p))"
proof -
  obtain d ds' where ds: "ds = d # ds'" using assms(2) by (cases ds) auto
  have "is_digit (48 + d)" using assms(1) ds by (simp add: is_digit_def)
  moreover have "nat p = Suc (nat p - 1)" if "0 < p" using that by simp
  ultimately show ?thesis
    by (auto simp: format_repr_def ds str_def is_digit_def hd_append take_Cons' split: if_splits)
qed

lemma hd_pos_repr:
  assumes "is_double q" and "0 < q"
  shows "pos_repr q \<noteq> [] \<and> is_digit (hd (pos_repr q))"
proof -
  obtain ds p where dp: "repr_digits q = (ds, p)" by fastforce
  from repr_digits_spec [OF assms dp] have "all_digits ds" "ds \<noteq> []" by auto
  then show ?thesis using hd_format_repr [of ds p] by (simp add: pos_repr_def dp)
qed

lemma scan_zero: "num_end r \<Longrightarrow> scan_unsigned neg (str ''0.0'' @ r) =
   Some (Inr (PFloat (if neg then NegZero else Flt 0)), r)"
  using scan_unsigned_point [of "[0]" "[0]" r neg]
  by (simp add: str_def decimal_to_double_def dec_value_append)

lemma scan_number_float:
  assumes "float_ok x" and "isfinite x" and "num_end r"
  shows "scan_number (float_repr x @ r) = Some (Inr (PFloat x), r)"
proof (cases x)
  case (Flt q)
  consider (zero) "q = 0" | (pos) "0 < q" | (neg) "q < 0" by linarith
  then show ?thesis
  proof cases
    case zero
    then show ?thesis using Flt scan_zero [OF assms(3), of False]
      by (simp add: scan_number_pos str_def)
  next
    case pos
    then have q: "is_double q" using assms(1) Flt by simp
    have h: "hd (pos_repr q @ r) \<noteq> 45" using hd_pos_repr [OF q pos] by (auto simp: is_digit_def)
    from scan_unsigned_pos_repr [OF q pos assms(3), of False] h pos Flt show ?thesis
      by (auto simp: scan_number_pos decimal_to_double_def)
  next
    case neg
    then have q: "is_double (- q)" "0 < - q" using assms(1) Flt by (auto intro: is_double_uminus)
    from scan_unsigned_pos_repr [OF q assms(3), of True] obtain m e
      where s: "scan_unsigned True (pos_repr (- q) @ r) =
          Some (Inr (PFloat (decimal_to_double True m e)), r)"
        and m: "m \<noteq> 0" and d: "to_double (of_nat m * ipow 10 e) = Flt (- q)" by blast
    have "to_double (- (of_nat m * ipow 10 e)) = Flt q"
      using to_double_uminus [OF d q(2)] by simp
    with s m neg Flt show ?thesis
      by (simp add: str_def scan_number_neg decimal_to_double_def)
  qed
next
  case NegZero
  then show ?thesis using scan_zero [OF assms(3), of True]
    by (simp add: scan_number_neg str_def)
qed (use assms in simp_all)

subsection \<open>Values read back\<close>

fun json_ok :: "pyval \<Rightarrow> bool" where
  "json_ok PNone = True"
| "json_ok (PBool _) = True"
| "json_ok (PInt _) = True"
| "json_ok (PFloat x) = (float_ok x \<and> isfinite x)"
| "json_ok (PStr _) = True"
| "json_ok (PList xs) = (\<forall>x\<in>set xs. json_ok x)"
| "json_ok (PTuple _) = False"
| "json_ok (PDict d) =
     (distinct (map fst d) \<and> (\<forall>p\<in>set d. (\<exists>s. fst p = PStr s) \<and> json_ok (snd p)))"
| "json_ok (POther _) = False"

fun jdepth :: "pyval \<Rightarrow> nat" where
  "jdepth (PList xs) = Suc (Max (insert 0 (set (map jdepth xs))))"
| "jdepth (PTuple xs) = Suc (Max (insert 0 (set (map jdepth xs))))"
| "jdepth (PDict d) = Suc (Max (insert 0 (set (map (\<lambda>p. jdepth (snd p)) d))))"
| "jdepth _ = 0"

definition pairs_of :: "(pyval \<times> pyval) list \<Rightarrow> (pystr \<times> pyval) list" where
  "pairs_of d = map (\<lambda>p. (key_str (fst p), snd p)) d"

definition keeps_pairs :: "pairs_hook \<Rightarrow> bool" where
  "keeps_pairs h =
     (\<forall>ps. distinct (map fst ps) \<longrightarrow> h ps = Inr (PDict (map (\<lambda>p. (PStr (fst p), snd p)) ps)))"

lemma jdepth_PList: "jdepth (PList xs) \<le> rl \<longleftrightarrow> 0 < rl \<and> (\<forall>x\<in>set xs. jdepth x \<le> rl - 1)"
  by (cases rl) auto

lemma jdepth_PDict: "jdepth (PDict d) \<le> rl \<longleftrightarrow> 0 < rl \<and> (\<forall>p\<in>set d. jdepth (snd p) \<le> rl - 1)"
  by (cases rl) auto

lemma pairs_of_inverse:
  "(\<forall>p\<in>set d. \<exists>s. fst p = PStr s) \<Longrightarrow> map (\<lambda>p. (PStr (fst p), snd p)) (pairs_of d) = d"
  by (induction d) (auto simp: pairs_of_def)

lemma distinct_pairs_of:
  assumes "\<forall>p\<in>set d. \<exists>s. fst p = PStr s" and "distinct (map fst d)"
  shows "distinct (map fst (pairs_of d))"
  using assms by (induction d) (force simp: pairs_of_def)+

lemma skip_ws_id: "s = [] \<or> \<not> is_ws (hd s) \<Longrightarrow> skip_ws s = s"
  by (cases s) (auto simp: skip_ws_def)

lemma int_repr_hd:
  assumes "int_repr i = Inr t"
  shows "t \<noteq> [] \<and> (is_digit (hd t) \<or> (hd t = 45 \<and> tl t \<noteq> [] \<and> is_digit (hd (tl t))))"
proof -
  obtain d ds where d: "dec_digits (nat \<bar>i\<bar>) = d # ds" by (metis dec_digits_nonempty list.exhaust)
  with dec_digits_lt [of d "nat \<bar>i\<bar>"] have "is_digit (48 + d)" by (simp add: is_digit_def)
  with assms d show ?thesis by (auto simp: int_repr_def Let_def str_def split: if_splits)
qed

lemma float_repr_hd:
  assumes "float_ok x" and "isfinite x"
  shows "float_repr x \<noteq> [] \<and> (is_digit (hd (float_repr x)) \<or>
    (hd (float_repr x) = 45 \<and> tl (float_repr x) \<noteq> [] \<and> is_digit (hd (tl (float_repr x)))))"
proof (cases x)
  case (Flt q)
  consider "q = 0" | "0 < q" | "q < 0" by linarith
  then show ?thesis
  proof cases
    case 3
    with assms Flt is_double_uminus [of q] hd_pos_repr [of "- q"] show ?thesis
      by (simp add: str_def)
  qed (use assms Flt hd_pos_repr [of q] in \<open>auto simp: str_def is_digit_def\<close>)
qed (use assms in \<open>auto simp: str_def is_digit_def\<close>)

lemma pvalue_number:
  assumes "s \<noteq> []" and "is_digit (hd s) \<or> (hd s = 45 \<and> tl s \<noteq> [] \<and> is_digit (hd (tl s)))"
    and "scan_number s = Some (Inr v, r)"
  shows "pvalue h k rl s = Inr (v, r)"
proof -
  obtain c s' where s: "s = c # s'" using assms(1) by (cases s) auto
  have "starts_with p (c # s') = False" if "p \<in> {''null'', ''true'', ''false'', ''NaN'', ''Infinity'', ''-Infinity''}" for p
    using that assms(2) by (cases s') (auto simp: s starts_with_def str_def is_digit_def)
  moreover have "c \<noteq> 34" "c \<noteq> 123" "c \<noteq> 91" using assms(2) by (auto simp: s is_digit_def)
  ultimately show ?thesis using assms(3) by (simp add: s pvalue.simps)
qed

lemma dumps_raw_hd:
  assumes "dumps_raw v = Inr t" and "json_ok v"
  shows "t \<noteq> [] \<and> \<not> is_ws (hd t) \<and> hd t \<noteq> 93 \<and> hd t \<noteq> 125"
proof (cases v)
  case (PInt i)
  with assms int_repr_hd [of i t] show ?thesis by (auto simp: is_digit_def is_ws_def)
next
  case (PFloat x)
  with assms float_repr_hd [of x] show ?thesis by (auto simp: is_digit_def is_ws_def)
qed (use assms in \<open>auto simp: rbind_eq_Inr str_def is_ws_def json_string_def split: if_splits\<close>)

lemma pvalue_literal:
  "pvalue h k rl (str ''null'' @ r) = Inr (PNone, r)"
  "pvalue h k rl (str ''true'' @ r) = Inr (PBool True, r)"
  "pvalue h k rl (str ''false'' @ r) = Inr (PBool False, r)"
  by (simp_all add: str_def pvalue.simps starts_with_def)

lemma pvalue_string: "pvalue h k rl (json_string s @ r) = Inr (PStr s, r)"
  by (simp add: json_string_def pvalue.simps scan_string_escape)

lemma num_end_delim: "c \<in> {44, 93, 125} \<Longrightarrow> num_end (c # r)"
  by (auto simp: num_end_def is_digit_def)

lemma pvalue_dumps_all:
  assumes h: "keeps_pairs h"
  shows "\<lbrakk>dumps_raw v = Inr t; json_ok v; jdepth v \<le> rl; num_end r\<rbrakk>
           \<Longrightarrow> pvalue h k rl (t @ r) = Inr (v, r)"
    and "\<lbrakk>dumps_elems vs = Inr t; vs \<noteq> []; \<forall>v\<in>set vs. json_ok v \<and> jdepth v \<le> rl\<rbrakk>
           \<Longrightarrow> pelems h k rl acc (t @ 93 # r) = Inr (PList (acc @ vs), r)"
    and "\<lbrakk>dumps_members d = Inr t; d \<noteq> [];
          \<forall>p\<in>set d. (\<exists>s. fst p = PStr s) \<and> json_ok (snd p) \<and> jdepth (snd p) \<le> rl\<rbrakk>
           \<Longrightarrow> pmembers h k rl pacc (t @ 125 # r) = rbind (h (pacc @ pairs_of d)) (\<lambda>w. Inr (w, r))"
proof (induction v and vs and d arbitrary: t rl r and t rl r acc and t rl r pacc
    rule: dumps_raw_dumps_elems_dumps_members.induct)
  case (3 i)
  then show ?case
    using int_repr_hd [of i t] scan_number_int [of i t r] by (intro pvalue_number) auto
next
  case (4 x)
  then have t: "t = float_repr x" and x: "float_ok x" "isfinite x" by auto
  show ?case unfolding t
    using float_repr_hd [OF x] scan_number_float [OF x 4(4)] by (intro pvalue_number) auto
next
  case (6 xs)
  then obtain u where u: "dumps_elems xs = Inr u" and t: "t = 91 # u @ [93]" by (auto simp: rbind_eq_Inr)
  obtain rl' where rl: "rl = Suc rl'" and d: "\<forall>x\<in>set xs. jdepth x \<le> rl'"
    using 6(4) unfolding jdepth_PList by (cases rl) auto
  show ?case
  proof (cases xs)
    case Nil
    then show ?thesis using u t rl by (simp add: pvalue.simps skip_ws_def is_ws_def starts_with_def str_def)
  next
    case (Cons v vs)
    then obtain u1 where u1: "dumps_raw v = Inr u1" and "\<exists>u2. u = u1 @ u2"
      using u by (auto simp: rbind_eq_Inr split: if_splits)
    then have "u \<noteq> [] \<and> \<not> is_ws (hd u) \<and> hd u \<noteq> 93"
      using dumps_raw_hd [OF u1] 6(3) Cons by auto
    then have "skip_ws (u @ 93 # r) = u @ 93 # r" and "\<not> starts_with '']'' (u @ 93 # r)"
      by (auto intro!: skip_ws_id simp: starts_with_def str_def take_Cons' neq_Nil_conv)
    moreover have "pelems h k rl' [] (u @ 93 # r) = Inr (PList ([] @ xs), r)"
      using 6(1) [OF u] Cons 6(3) d by simp
    ultimately show ?thesis using t rl by (simp add: pvalue.simps)
  qed
next
  case (8 d)
  then obtain u where u: "dumps_members d = Inr u" and t: "t = 123 # u @ [125]" by (auto simp: rbind_eq_Inr)
  obtain rl' where rl: "rl = Suc rl'" and dp: "\<forall>p\<in>set d. jdepth (snd p) \<le> rl'"
    using 8(4) unfolding jdepth_PDict by (cases rl) auto
  have hd: "h (pairs_of d) = Inr (PDict d)"
    using h 8(3) distinct_pairs_of [of d] pairs_of_inverse [of d] by (auto simp: keeps_pairs_def)
  show ?case
  proof (cases d)
    case Nil
    then show ?thesis using u t rl hd
      by (simp add: pvalue.simps skip_ws_def is_ws_def starts_with_def str_def pairs_of_def)
  next
    case (Cons p ps)
    then have "u \<noteq> [] \<and> hd u = 34"
      using u 8(3) by (cases p) (auto simp: rbind_eq_Inr json_string_def split: if_splits)
    then have "skip_ws (u @ 125 # r) = u @ 125 # r" and "\<not> starts_with ''}'' (u @ 125 # r)"
      by (auto intro!: skip_ws_id simp: is_ws_def starts_with_def str_def take_Cons' neq_Nil_conv)
    moreover have "pmembers h k rl' [] (u @ 125 # r) = rbind (h ([] @ pairs_of d)) (\<lambda>w. Inr (w, r))"
      using 8(1) [OF u] Cons 8(3) dp by simp
    ultimately show ?thesis using t rl hd by (simp add: pvalue.simps)
  qed
next
  case (11 v vs)
  then obtain t1 where t1: "dumps_raw v = Inr t1" by (auto simp: rbind_eq_Inr)
  have v: "json_ok v" "jdepth v \<le> rl" using 11(5) by auto
  note hd1 = dumps_raw_hd [OF t1 v(1)]
  show ?case
  proof (cases "vs = []")
    case True
    then have t: "t = t1" using 11(3) t1 by simp
    have "pvalue h k rl (t1 @ 93 # r) = Inr (v, 93 # r)"
      using 11(1) [OF t1 v] num_end_delim by simp
    then show ?thesis using True t hd1
      by (simp add: pelems.simps [of h k rl acc] skip_ws_def is_ws_def)
  next
    case False
    then obtain t2 where t2: "dumps_elems vs = Inr t2" and t: "t = t1 @ 44 # t2"
      using 11(3) t1 by (auto simp: rbind_eq_Inr)
    have p1: "pvalue h k rl (t1 @ 44 # t2 @ 93 # r) = Inr (v, 44 # t2 @ 93 # r)"
      using 11(1) [OF t1 v] num_end_delim by simp
    obtain w ws where ws: "vs = w # ws" using False by (cases vs) auto
    then obtain t3 where "dumps_raw w = Inr t3" and "\<exists>t4. t2 = t3 @ t4"
      using t2 by (auto simp: rbind_eq_Inr split: if_splits)
    then have "skip_ws (t2 @ 93 # r) = t2 @ 93 # r"
      using dumps_raw_hd [of w t3] 11(5) ws by (intro skip_ws_id) auto
    moreover have "pelems h k rl (acc @ [v]) (t2 @ 93 # r) = Inr (PList ((acc @ [v]) @ vs), r)"
      using 11(2) [OF t1 False t2 False] 11(5) by simp
    ultimately show ?thesis using p1 t hd1
      by (simp add: pelems.simps [of h k rl acc] skip_ws_def is_ws_def)
  qed
next
  case (13 key v d)
  then obtain s where key: "key = PStr s" by auto
  then obtain t1 where t1: "dumps_raw v = Inr t1" using 13(3) by (auto simp: rbind_eq_Inr)
  have v: "json_ok v" "jdepth v \<le> rl" using 13(5) by auto
  note hd1 = dumps_raw_hd [OF t1 v(1)]
  show ?case
  proof (cases "d = []")
    case True
    then have t: "t = json_string s @ 58 # t1" using 13(3) t1 key by simp
    have "pvalue h k rl (t1 @ 125 # r) = Inr (v, 125 # r)"
      using 13(1) [OF key t1 v] num_end_delim by simp
    moreover have "skip_ws (t1 @ 125 # r) = t1 @ 125 # r" using hd1 by (intro skip_ws_id) simp
    ultimately show ?thesis using True t key
      by (simp add: pmembers.simps [of h k rl pacc] json_string_def scan_string_escape
          skip_ws_def is_ws_def pairs_of_def)
  next
    case False
    then obtain t2 where t2: "dumps_members d = Inr t2" and t: "t = json_string s @ 58 # t1 @ 44 # t2"
      using 13(3) t1 key by (auto simp: rbind_eq_Inr)
    have "pvalue h k rl (t1 @ 44 # t2 @ 125 # r) = Inr (v, 44 # t2 @ 125 # r)"
      using 13(1) [OF key t1 v] num_end_delim by simp
    moreover have "skip_ws (t1 @ 44 # t2 @ 125 # r) = t1 @ 44 # t2 @ 125 # r"
      using hd1 by (intro skip_ws_id) simp
    moreover have "hd t2 = 34 \<and> t2 \<noteq> []"
      using t2 False 13(5) by (cases d) (auto simp: rbind_eq_Inr json_string_def split: if_splits)
    then have "skip_ws (t2 @ 125 # r) = t2 @ 125 # r" by (intro skip_ws_id) (simp add: is_ws_def)
    moreover have "pmembers h k rl (pacc @ [(s, v)]) (t2 @ 125 # r) =
        rbind (h ((pacc @ [(s, v)]) @ pairs_of d)) (\<lambda>w. Inr (w, r))"
      using 13(2) [OF key t1 False t2 False] 13(5) by simp
    ultimately show ?thesis using t key
      by (simp add: pmembers.simps [of h k rl pacc] json_string_def scan_string_escape
          skip_ws_def is_ws_def pairs_of_def)
  qed
qed (auto simp: pvalue_literal pvalue_string)

lemma json_loads_dumps_raw:
  assumes "keeps_pairs h" and "dumps_raw v = Inr t" and "json_ok v" and "jdepth v \<le> rl"
  shows "json_loads h k rl t = Inr v \<or> (t \<noteq> [] \<and> hd t = 0xFEFF)"
proof -
  have "pvalue h k rl (t @ []) = Inr (v, [])"
    using assms by (intro pvalue_dumps_all) (simp_all add: num_end_def)
  moreover have "skip_ws t = t" using dumps_raw_hd [OF assms(2,3)] by (intro skip_ws_id) simp
  ultimately show ?thesis by (simp add: json_loads_def skip_ws_def)
qed

lemma dumps_raw_no_bom:
  assumes "dumps_raw v = Inr t" and "json_ok v"
  shows "hd t \<noteq> 0xFEFF"
proof (cases v)
  case (PInt i)
  with assms int_repr_hd [of i t] show ?thesis by (auto simp: is_digit_def)
next
  case (PFloat x)
  with assms float_repr_hd [of x] show ?thesis by (auto simp: is_digit_def)
qed (use assms in \<open>auto simp: rbind_eq_Inr str_def json_string_def split: if_splits\<close>)

subsection \<open>Sorting the keys\<close>

lemma set_sort_items [simp]: "set (sort_items d) = set d"
  by (simp add: sort_items_def)

lemma length_sort_items [simp]: "length (sort_items d) = length d"
  by (simp add: sort_items_def)

lemma distinct_fst_sort_items [simp]: "distinct (map fst (sort_items d)) \<longleftrightarrow> distinct (map fst d)"
proof -
  have "mset (map fst (sort_items d)) = mset (map fst d)" by (simp add: sort_items_def)
  then show ?thesis by (metis mset_eq_imp_distinct_iff)
qed

lemma map_of_sort_items: "distinct (map fst d) \<Longrightarrow> map_of (sort_items d) = map_of d"
  by (rule map_of_inject_set [THEN iffD2]) simp_all

lemma json_ok_sort_deep: "json_ok v \<Longrightarrow> json_ok (sort_deep v)"
  by (induction v rule: sort_deep.induct) (auto simp: comp_def split_def)

lemma jdepth_sort_deep [simp]: "jdepth (sort_deep v) = jdepth v"
proof (induction v rule: sort_deep.induct)
  case (3 d)
  have "(\<lambda>p. jdepth (snd p)) ` set (map (\<lambda>(k, v). (k, sort_deep v)) d) = (\<lambda>p. jdepth (snd p)) ` set d"
    unfolding set_map image_image by (rule image_cong) (use 3 in \<open>auto split: prod.splits\<close>)
  then show ?case by simp
qed (simp_all add: comp_def image_image cong: image_cong)

lemma sort_items_sorted: "sorted (map (\<lambda>p. key_str (fst p)) d) \<Longrightarrow> sort_items d = d"
  unfolding sort_items_def by (rule sort_key_id_if_sorted)

lemma json_loads_dumps:
  assumes "keeps_pairs h" and "json_dumps v = Inr t" and "json_ok v" and "jdepth v \<le> rl"
  shows "json_loads h k rl t = Inr (sort_deep v)"
  using json_loads_dumps_raw [OF assms(1), of "sort_deep v" t rl k]
    dumps_raw_no_bom [of "sort_deep v" t] assms json_ok_sort_deep
  by (auto simp: json_dumps_def)

subsection \<open>The scanner makes progress and fails only with the errors of the decoder\<close>

lemma scan_string_shorter: "scan_string s = Some (t, r) \<Longrightarrow> length r < length s"
proof (induction s arbitrary: t rule: scan_string.induct)
  case (2 c s)
  then show ?case
    by (fastforce split: if_splits option.splits prod.splits dest: unescape_shorter)
qed simp

lemma dropWhile_is_digit_le: "length (dropWhile is_digit s) \<le> length s"
  by (rule length_dropWhile_le)

lemma split_int_shorter: "split_int s = Some (ds, r) \<Longrightarrow> length r < length s"
  using dropWhile_is_digit_le [of "tl s"]
  by (auto simp: split_int_def split: list.splits if_splits)

lemma split_frac_le: "split_frac s = (f, r) \<Longrightarrow> length r \<le> length s"
  using dropWhile_is_digit_le [of "tl s"]
  by (auto simp: split_frac_def split: list.splits if_splits)

lemma split_sign_le: "split_sign s = (b, r) \<Longrightarrow> length r \<le> length s"
  by (auto simp: split_sign_def split: list.splits if_splits)

lemma split_exp_le: "split_exp s = (e, r) \<Longrightarrow> length r \<le> length s"
  using dropWhile_is_digit_le split_sign_le
  by (fastforce simp: split_exp_def split: list.splits if_splits prod.splits intro: le_SucI order_trans)

lemma scan_number_shorter:
  assumes "scan_number s = Some (n, r)"
  shows "length r < length s"
proof -
  obtain neg s1 where s1: "scan_unsigned neg s1 = Some (n, r)" and le: "length s1 \<le> length s"
    using assms scan_number_neg [of "tl s"] scan_number_pos [of s] by (cases s; cases "hd s = 45") auto
  from s1 obtain ip s2 fp s3 ex where "split_int s1 = Some (ip, s2)" "split_frac s2 = (fp, s3)"
    "split_exp s3 = (ex, r)"
    by (auto simp: scan_unsigned_def Let_def split: option.splits prod.splits if_splits)
  then show ?thesis
    using le split_int_shorter [of s1 ip s2] split_frac_le [of s2 fp s3] split_exp_le [of s3 ex r] by linarith
qed

lemma scan_number_error: "scan_number s = Some (Inl e, r) \<Longrightarrow> e = ValueError"
  by (auto simp: scan_number_def Let_def split: option.splits prod.splits if_splits list.splits)

lemma tl_skip_ws_shorter: "length (tl (skip_ws r)) < Suc (length r)"
  using skip_ws_length [of r] by (simp add: less_Suc_eq_le le_diff_conv)

lemma skip_ws_Cons_le: "skip_ws r = c # r' \<Longrightarrow> length r < n \<Longrightarrow> length r' < n"
  by (drule skip_ws_Cons_length) simp

lemma skip_ws_less: "length r < length (skip_ws s) \<Longrightarrow> length s \<le> n \<Longrightarrow> length r < n"
  using skip_ws_length [of s] by simp

lemma skip_ws_le: "length r < length (skip_ws s) \<Longrightarrow> length r \<le> length s"
  using skip_ws_length [of s] by simp

lemma skip_ws_chain:
  "skip_ws r1 = c # x \<Longrightarrow> length r1 < n \<Longrightarrow> length r < length (skip_ws x) \<Longrightarrow> length r < n"
  using skip_ws_Cons_length [of r1 c x] skip_ws_length [of x] by simp

lemma pvalue_shorter:
  "pvalue h k rl s = Inr (v, r) \<Longrightarrow> length r < length s"
  "pelems h k rl acc s = Inr (v, r) \<Longrightarrow> length r < length s"
  "pmembers h k rl pacc s = Inr (v, r) \<Longrightarrow> length r < length s"
proof (induction h k rl s and h k rl acc s and h k rl pacc s arbitrary: v r and v r and v r
    rule: pvalue_pelems_pmembers.induct)
  case (2 h k rl c s)
  from 2(3) show ?case
    using 2(1,2) skip_ws_length [of s]
    by (auto simp: pvalue.simps rbind_eq_Inr less_Suc_eq_le
        split: if_splits option.splits nat.splits prod.splits
        dest!: scan_string_shorter scan_number_shorter intro: skip_ws_le)
next
  case (3 h k rl acc s)
  from 3(3) obtain w r1 where w: "pvalue h k rl s = Inr (w, r1)" and l: "length r1 < length s"
    and rest: "(case skip_ws r1 of [] \<Rightarrow> Inl JSONDecodeError
          | c # r' \<Rightarrow> if c = 93 then Inr (PList (acc @ [w]), r')
              else if c = 44 then pelems h k rl (acc @ [w]) (skip_ws r')
              else Inl JSONDecodeError) = Inr (v, r)"
    by (auto simp: pelems.simps [of h k rl acc] rbind_eq_Inr split: if_splits)
  from rest show ?case
    using l 3(2) [OF w refl l] by (auto split: list.splits if_splits dest: skip_ws_Cons_le
        intro: skip_ws_chain)
next
  case (4 h k rl pacc s)
  from 4(3) obtain q s1 key r1 c r2 w r3 where s: "s = q # s1" "q = 34"
    and k1: "scan_string s1 = Some (key, r1)" and c: "skip_ws r1 = c # r2" "c = 58" "length r2 < length s"
    and w: "pvalue h k rl (skip_ws r2) = Inr (w, r3)" and l: "length r3 < length s"
    and rest: "(case skip_ws r3 of [] \<Rightarrow> Inl JSONDecodeError
         | d # r4 \<Rightarrow> if d = 125 then rbind (h (pacc @ [(key, w)])) (\<lambda>u. Inr (u, r4))
             else if d = 44 then pmembers h k rl (pacc @ [(key, w)]) (skip_ws r4)
             else Inl JSONDecodeError) = Inr (v, r)"
    by (auto simp: pmembers.simps [of h k rl pacc] rbind_eq_Inr
        split: if_splits list.splits option.splits)
  from rest show ?case
    using l 4(2) [of q s1 "(key, r1)" key r1 c r2 "(w, r3)" w r3] s k1 c w
    by (auto simp: rbind_eq_Inr split: list.splits if_splits dest: skip_ws_Cons_le
        intro: skip_ws_chain)
qed (simp add: pvalue.simps)

definition decoder_error :: "pairs_hook \<Rightarrow> const_hook \<Rightarrow> exn \<Rightarrow> bool" where
  "decoder_error h k e \<longleftrightarrow> e \<in> {JSONDecodeError, RecursionError, ValueError}
     \<or> (\<exists>ps. h ps = Inl e) \<or> (\<exists>c. k c = Inl e)"

lemma pvalue_error:
  "pvalue h k rl s = Inl e \<Longrightarrow> decoder_error h k e"
  "pelems h k rl acc s = Inl e \<Longrightarrow> decoder_error h k e"
  "pmembers h k rl pacc s = Inl e \<Longrightarrow> decoder_error h k e"
proof (induction h k rl s and h k rl acc s and h k rl pacc s
    rule: pvalue_pelems_pmembers.induct)
  case (2 h k rl c s)
  from 2(3) show ?case
    using 2(1,2)
    by (auto simp: pvalue.simps rbind_eq_Inl decoder_error_def
        split: if_splits option.splits nat.splits prod.splits dest: scan_number_error)
next
  case (3 h k rl acc s)
  from 3(3) show ?case
    using 3(1,2) by (auto simp: pelems.simps [of h k rl acc] rbind_eq_Inl decoder_error_def
        split: if_splits list.splits)
next
  case (4 h k rl pacc s)
  from 4(3) show ?case
    using 4(1,2) by (auto simp: pmembers.simps [of h k rl pacc] rbind_eq_Inl decoder_error_def
        split: if_splits list.splits option.splits)
qed (simp add: pvalue.simps decoder_error_def)

lemma json_loads_error: "json_loads h k rl s = Inl e \<Longrightarrow> decoder_error h k e"
  using pvalue_error(1) by (auto simp: json_loads_def rbind_eq_Inl decoder_error_def split: if_splits)

end
