(* ===== verification/Protocol.thy ===== *)
theory Protocol
  imports Json
begin

section \<open>Protocol v1 framing and JSON validation (\<^verbatim>\<open>tay/protocol.py\<close>)\<close>

text \<open>
  Every function of \<^verbatim>\<open>clients/python/tay/protocol.py\<close>: normalisation of values to
  JSON, the deterministic encoder, the envelope checks, and the length-prefixed frames.
  A stream reader is the list of bytes that will still arrive before the peer closes;
  \<open>readexactly\<close> fails when fewer are left. \<open>rl\<close> is the nesting the interpreter's
  recursion limit allows the JSON decoder.

  Shown here: normalisation is the identity on exactly the values within the limits; frames
  are bounded and self-delimiting; whatever \<open>encode_frame\<close> accepts, \<open>read_frame\<close>
  reads back as the same envelope up to the order of object keys, frame after frame; and
  which exceptions a hostile payload can raise.
\<close>

subsection \<open>Constants\<close>

definition PROTOCOL_VERSION :: int where "PROTOCOL_VERSION = 1"
definition DEFAULT_MAX_FRAME_BYTES :: int where "DEFAULT_MAX_FRAME_BYTES = 1048576"
definition DEFAULT_MAX_JSON_DEPTH :: nat where "DEFAULT_MAX_JSON_DEPTH = 32"
definition DEFAULT_MAX_COLLECTION_ITEMS :: nat where "DEFAULT_MAX_COLLECTION_ITEMS = 10000"
definition DEFAULT_MAX_TASK_NAME_BYTES :: nat where "DEFAULT_MAX_TASK_NAME_BYTES = 255"

subsection \<open>Normalisation and encoding\<close>

text \<open>The hooks that \<open>decode_payload\<close> gives to the JSON decoder.\<close>

definition json_constant :: const_hook where
  "json_constant value = Inl ProtocolError"

fun no_duplicates_loop :: "pydict \<Rightarrow> (pystr \<times> pyval) list \<Rightarrow> pyval res" where
  "no_duplicates_loop result [] = Inr (PDict result)"
| "no_duplicates_loop result ((key, value) # pairs) =
     (if dget result (PStr key) \<noteq> None then Inl ProtocolError
      else no_duplicates_loop (dset result (PStr key) value) pairs)"

definition no_duplicate_keys :: pairs_hook where
  "no_duplicate_keys pairs = no_duplicates_loop [] pairs"

fun normalize :: "nat \<Rightarrow> nat \<Rightarrow> nat \<Rightarrow> pyval \<Rightarrow> pyval res"
  and normalize_list :: "nat \<Rightarrow> nat \<Rightarrow> nat \<Rightarrow> pyval list \<Rightarrow> pyval list res"
  and normalize_items :: "nat \<Rightarrow> nat \<Rightarrow> nat \<Rightarrow> pydict \<Rightarrow> pydict \<Rightarrow> pydict res" where
  "normalize max_depth max_items depth value =
     (if max_depth < depth then Inl ValidationError
      else (case value of
          PNone \<Rightarrow> Inr value
        | PBool _ \<Rightarrow> Inr value
        | PStr _ \<Rightarrow> Inr value
        | PInt _ \<Rightarrow> Inr value
        | PFloat x \<Rightarrow> if isfinite x then Inr value else Inl ValidationError
        | PList xs \<Rightarrow>
            if max_items < length xs then Inl ValidationError
            else rbind (normalize_list max_depth max_items (Suc depth) xs) (\<lambda>ys. Inr (PList ys))
        | PDict d \<Rightarrow>
            if max_items < length d then Inl ValidationError
            else rbind (normalize_items max_depth max_items (Suc depth) [] d) (\<lambda>e. Inr (PDict e))
        | PTuple _ \<Rightarrow> Inl ValidationError
        | POther _ \<Rightarrow> Inl ValidationError))"
| "normalize_list max_depth max_items depth [] = Inr []"
| "normalize_list max_depth max_items depth (x # xs) =
     rbind (normalize max_depth max_items depth x) (\<lambda>y.
       rbind (normalize_list max_depth max_items depth xs) (\<lambda>ys. Inr (y # ys)))"
| "normalize_items max_depth max_items depth normalized [] = Inr normalized"
| "normalize_items max_depth max_items depth normalized ((key, item) # d) =
     (case key of
        PStr _ \<Rightarrow>
          rbind (normalize max_depth max_items depth item) (\<lambda>v.
            normalize_items max_depth max_items depth (dset normalized key v) d)
      | _ \<Rightarrow> Inl ValidationError)"

declare normalize.simps [simp del]

definition normalize_json :: "pyval \<Rightarrow> pyval res" where
  "normalize_json value =
     normalize DEFAULT_MAX_JSON_DEPTH DEFAULT_MAX_COLLECTION_ITEMS 0 value"

definition json_bytes :: "pyval \<Rightarrow> bytes res" where
  "json_bytes value =
     (case rbind (json_dumps value) utf8_encode of
        Inl e \<Rightarrow> Inl (if e = TypeError \<or> is_ValueError e then ValidationError else e)
      | Inr b \<Rightarrow> Inr b)"

definition encoded_json_size :: "pyval \<Rightarrow> nat res" where
  "encoded_json_size value =
     rbind (normalize_json value) (\<lambda>n. rbind (json_bytes n) (\<lambda>b. Inr (length b)))"

definition validate_task_name :: "pyval \<Rightarrow> pystr res" where
  "validate_task_name name =
     (case name of
        PStr s \<Rightarrow>
          rbind (ensure (s \<noteq> []) ValidationError) (\<lambda>_.
          rbind (utf8_size s) (\<lambda>size.
          rbind (ensure (size \<le> DEFAULT_MAX_TASK_NAME_BYTES) ValidationError) (\<lambda>_.
          rbind (ensure (\<not> (\<exists>c\<in>set s. c < 0x20)) ValidationError) (\<lambda>_. Inr s))))
      | _ \<Rightarrow> Inl ValidationError)"

subsection \<open>Envelopes and frames\<close>

text \<open>A field that has to be a non-empty string of at most \<open>limit\<close> UTF-8 bytes.\<close>

definition check_text_field :: "pyval \<Rightarrow> nat \<Rightarrow> unit res" where
  "check_text_field value limit =
     (case value of
        PStr s \<Rightarrow>
          rbind (ensure (s \<noteq> []) ProtocolError) (\<lambda>_.
          rbind (utf8_size s) (\<lambda>size. ensure (size \<le> limit) ProtocolError))
      | _ \<Rightarrow> Inl ProtocolError)"

definition validate_envelope :: "bool \<Rightarrow> pyval \<Rightarrow> pydict res" where
  "validate_envelope incoming envelope =
     rbind (normalize_json envelope) (\<lambda>normalized.
       case normalized of
         PDict d \<Rightarrow>
           (let version = get_field d ''version'';
                version = (if incoming \<and> version = PNone then get_field d ''v'' else version) in
            rbind (ensure (equals_int version PROTOCOL_VERSION) ProtocolError) (\<lambda>_.
            rbind (check_text_field (get_field d ''type'') 64) (\<lambda>_.
            rbind (check_text_field (get_field d ''request_id'') 128) (\<lambda>_. Inr d))))
       | _ \<Rightarrow> Inl ProtocolError)"

definition encode_frame :: "int \<Rightarrow> pyval \<Rightarrow> bytes res" where
  "encode_frame max_frame_bytes envelope =
     rbind (ensure (1 \<le> max_frame_bytes) ValueError) (\<lambda>_.
     rbind (validate_envelope False envelope) (\<lambda>normalized.
     rbind (json_bytes (PDict normalized)) (\<lambda>payload.
     rbind (ensure (payload \<noteq> [] \<and> int (length payload) \<le> max_frame_bytes) ProtocolError) (\<lambda>_.
     rbind (pack_u32 (length payload)) (\<lambda>header. Inr (header @ payload))))))"

definition decode_payload :: "nat \<Rightarrow> int \<Rightarrow> bytes \<Rightarrow> pydict res" where
  "decode_payload rl max_frame_bytes payload =
     rbind (ensure (payload \<noteq> [] \<and> int (length payload) \<le> max_frame_bytes) ProtocolError) (\<lambda>_.
     case utf8_decode payload of
       Inl _ \<Rightarrow> Inl ProtocolError
     | Inr raw \<Rightarrow>
         (case json_loads no_duplicate_keys json_constant rl raw of
            Inl e \<Rightarrow> Inl (if e = JSONDecodeError then ProtocolError else e)
          | Inr parsed \<Rightarrow>
              rbind (ensure (is_dict parsed) ProtocolError) (\<lambda>_. validate_envelope True parsed)))"

text \<open>\<^verbatim>\<open>reader.readexactly(n)\<close>; \<open>None\<close> is \<^verbatim>\<open>IncompleteReadError\<close>.\<close>

definition readexactly :: "nat \<Rightarrow> bytes \<Rightarrow> (bytes \<times> bytes) option" where
  "readexactly n stream = (if n \<le> length stream then Some (take n stream, drop n stream) else None)"

definition read_frame :: "nat \<Rightarrow> int \<Rightarrow> bytes \<Rightarrow> (pydict \<times> bytes) res" where
  "read_frame rl max_frame_bytes stream =
     (case readexactly 4 stream of
        None \<Rightarrow> Inl ConnectionError
      | Some (header, stream1) \<Rightarrow>
          rbind (unpack_u32 header) (\<lambda>(n, _).
          rbind (ensure (n \<noteq> 0 \<and> int n \<le> max_frame_bytes) ProtocolError) (\<lambda>_.
          case readexactly n stream1 of
            None \<Rightarrow> Inl ConnectionError
          | Some (payload, stream2) \<Rightarrow>
              rbind (decode_payload rl max_frame_bytes payload) (\<lambda>d. Inr (d, stream2)))))"

subsection \<open>The duplicate-key hook\<close>

lemma no_duplicates_loop_fresh:
  assumes "distinct (map fst ps)" and "\<forall>s\<in>set (map fst ps). PStr s \<notin> set (dkeys result)"
  shows "no_duplicates_loop result ps = Inr (PDict (result @ map (\<lambda>p. (PStr (fst p), snd p)) ps))"
  using assms
proof (induction ps arbitrary: result)
  case Nil
  then show ?case by simp
next
  case (Cons p ps)
  obtain s v where p: "p = (s, v)" by fastforce
  with Cons.prems have fresh: "PStr s \<notin> set (dkeys result)" by auto
  then have "dget result (PStr s) = None" by (simp add: map_of_eq_None_iff)
  moreover have "dset result (PStr s) v = result @ [(PStr s, v)]"
    using fresh by (rule dkeys_dset_fresh)
  moreover have "no_duplicates_loop (result @ [(PStr s, v)]) ps =
      Inr (PDict ((result @ [(PStr s, v)]) @ map (\<lambda>p. (PStr (fst p), snd p)) ps))"
    using Cons.prems p by (intro Cons.IH) auto
  ultimately show ?case using p by simp
qed

lemma keeps_pairs_no_duplicate_keys: "keeps_pairs no_duplicate_keys"
  using no_duplicates_loop_fresh [of _ "[]"] by (simp add: keeps_pairs_def no_duplicate_keys_def)

lemma no_duplicates_loop_error: "no_duplicates_loop result ps = Inl e \<Longrightarrow> e = ProtocolError"
  by (induction result ps rule: no_duplicates_loop.induct) (auto split: if_splits)

lemma no_duplicates_loop_repeated:
  assumes "\<not> distinct (map fst ps) \<or> (\<exists>s\<in>set (map fst ps). PStr s \<in> set (dkeys result))"
  shows "no_duplicates_loop result ps = Inl ProtocolError"
  using assms
proof (induction result ps rule: no_duplicates_loop.induct)
  case (2 result key v pairs)
  show ?case
  proof (cases "PStr key \<in> set (dkeys result)")
    case True
    then show ?thesis by (simp only: no_duplicates_loop.simps dkeys_iff_dget) simp
  next
    case False
    then have "dget result (PStr key) = None" by (simp add: map_of_eq_None_iff)
    with 2 False show ?thesis by auto
  qed
qed simp

subsection \<open>Normalisation is the identity within the limits\<close>

fun pyval_wf :: "pyval \<Rightarrow> bool" where
  "pyval_wf (PFloat x) = float_ok x"
| "pyval_wf (PList xs) = (\<forall>x\<in>set xs. pyval_wf x)"
| "pyval_wf (PTuple xs) = (\<forall>x\<in>set xs. pyval_wf x)"
| "pyval_wf (PDict d) = (distinct (map fst d) \<and> (\<forall>p\<in>set d. pyval_wf (snd p)))"
| "pyval_wf _ = True"

fun acceptable :: "nat \<Rightarrow> nat \<Rightarrow> nat \<Rightarrow> pyval \<Rightarrow> bool" where
  "acceptable max_depth max_items depth (PFloat x) = (depth \<le> max_depth \<and> isfinite x)"
| "acceptable max_depth max_items depth (PList xs) =
     (depth \<le> max_depth \<and> length xs \<le> max_items \<and>
      (\<forall>x\<in>set xs. acceptable max_depth max_items (Suc depth) x))"
| "acceptable max_depth max_items depth (PDict d) =
     (depth \<le> max_depth \<and> length d \<le> max_items \<and>
      (\<forall>p\<in>set d. (\<exists>s. fst p = PStr s) \<and> acceptable max_depth max_items (Suc depth) (snd p)))"
| "acceptable max_depth max_items depth (PTuple xs) = False"
| "acceptable max_depth max_items depth (POther t) = False"
| "acceptable max_depth max_items depth v = (depth \<le> max_depth)"

lemma normalize_exact:
  "pyval_wf v \<Longrightarrow>
     normalize md mi d v = (if acceptable md mi d v then Inr v else Inl ValidationError)"
  "\<forall>x\<in>set xs. pyval_wf x \<Longrightarrow>
     normalize_list md mi d xs =
       (if \<forall>x\<in>set xs. acceptable md mi d x then Inr xs else Inl ValidationError)"
  "distinct (map fst (acc @ e)) \<Longrightarrow> \<forall>p\<in>set e. pyval_wf (snd p) \<Longrightarrow>
     normalize_items md mi d acc e =
       (if \<forall>p\<in>set e. (\<exists>s. fst p = PStr s) \<and> acceptable md mi d (snd p)
        then Inr (acc @ e) else Inl ValidationError)"
proof (induction md mi d v and md mi d xs and md mi d acc e
    rule: normalize_normalize_list_normalize_items.induct)
  case (1 md mi d v)
  show ?case
  proof (cases v)
    case (PList xs)
    then show ?thesis using 1 by (auto simp: normalize.simps [of md mi d])
  next
    case (PDict e)
    then show ?thesis using 1 by (auto simp: normalize.simps [of md mi d])
  qed (auto simp: normalize.simps)
next
  case (5 md mi d acc key item e)
  show ?case
  proof (cases "\<exists>s. key = PStr s")
    case True
    then obtain s where key: "key = PStr s" by blast
    have "dset acc key item = acc @ [(key, item)]"
      using 5(3) by (intro dkeys_dset_fresh) auto
    moreover have "normalize md mi d item =
        (if acceptable md mi d item then Inr item else Inl ValidationError)"
      using 5(1) [OF key] 5(4) by simp
    moreover have "normalize_items md mi d (acc @ [(key, item)]) e =
        (if \<forall>p\<in>set e. (\<exists>s. fst p = PStr s) \<and> acceptable md mi d (snd p)
         then Inr ((acc @ [(key, item)]) @ e) else Inl ValidationError)"
      if "acceptable md mi d item"
      using 5(2) [OF key] 5(3,4) calculation that by simp
    ultimately show ?thesis using key by auto
  next
    case False
    then show ?thesis by (cases key) auto
  qed
qed auto

lemma acceptable_depth: "acceptable md mi d v \<Longrightarrow> d \<le> md"
  by (cases v) auto

lemma acceptable_jdepth: "acceptable md mi d v \<Longrightarrow> d + jdepth v \<le> Suc md"
proof (induction md mi d v rule: acceptable.induct)
  case (2 md mi d xs)
  then have "\<forall>x\<in>set xs. jdepth x \<le> Suc md - Suc d" by fastforce
  with 2 show ?case using jdepth_PList [of xs "Suc md - d"] by auto
next
  case (3 md mi d e)
  then have "\<forall>p\<in>set e. jdepth (snd p) \<le> Suc md - Suc d" by fastforce
  with 3 show ?case using jdepth_PDict [of e "Suc md - d"] by auto
qed (auto dest: acceptable_depth)

lemma acceptable_json_ok: "acceptable md mi d v \<Longrightarrow> pyval_wf v \<Longrightarrow> json_ok v"
  by (induction md mi d v rule: acceptable.induct) auto

lemma acceptable_sort_deep: "acceptable md mi d (sort_deep v) \<longleftrightarrow> acceptable md mi d v"
proof (induction md mi d v rule: acceptable.induct)
  case (3 md mi d e)
  have "(\<forall>p\<in>set (map (\<lambda>(k, v). (k, sort_deep v)) e).
           (\<exists>s. fst p = PStr s) \<and> acceptable md mi (Suc d) (snd p)) \<longleftrightarrow>
        (\<forall>p\<in>set e. (\<exists>s. fst p = PStr s) \<and> acceptable md mi (Suc d) (snd p))"
    using 3 by (force split: prod.splits)
  then show ?case by (simp del: set_map)
qed auto

lemma pyval_wf_sort_deep: "pyval_wf v \<Longrightarrow> pyval_wf (sort_deep v)"
  by (induction v rule: sort_deep.induct) (auto simp: comp_def split_def)

lemma normalize_json_exact:
  assumes "pyval_wf v"
  shows "normalize_json v = (if acceptable 32 10000 0 v then Inr v else Inl ValidationError)"
  using normalize_exact(1) [OF assms]
  by (simp add: normalize_json_def DEFAULT_MAX_JSON_DEPTH_def DEFAULT_MAX_COLLECTION_ITEMS_def)

subsection \<open>Envelopes survive the key order\<close>

definition canon_dict :: "pydict \<Rightarrow> pydict" where
  "canon_dict d = sort_items (map (\<lambda>(k, v). (k, sort_deep v)) d)"

lemma sort_deep_PDict: "sort_deep (PDict d) = PDict (canon_dict d)"
  by (simp add: canon_dict_def)

lemma map_fst_sort_deep: "map fst (map (\<lambda>(k, v). (k, sort_deep v)) d) = map fst d"
  by (induction d) auto

lemma dget_canon_dict:
  assumes "distinct (map fst d)"
  shows "dget (canon_dict d) k = map_option sort_deep (dget d k)"
proof -
  have "dget (canon_dict d) k = dget (map (\<lambda>(k, v). (k, sort_deep v)) d) k"
    unfolding canon_dict_def using assms by (subst map_of_sort_items) (simp_all only: map_fst_sort_deep)
  also have "\<dots> = map_option sort_deep (dget d k)"
    by (simp add: map_of_map)
  finally show ?thesis .
qed

lemma get_field_canon_dict:
  "distinct (map fst d) \<Longrightarrow> get_field (canon_dict d) n = sort_deep (get_field d n)"
  by (simp add: get_field_def dget_canon_dict split: option.splits)

lemma sort_deep_eq_PNone [simp]: "sort_deep v = PNone \<longleftrightarrow> v = PNone"
  by (cases v) simp_all

lemma equals_int_sort_deep [simp]: "equals_int (sort_deep v) n = equals_int v n"
  by (cases v) simp_all

lemma check_text_field_sort_deep [simp]: "check_text_field (sort_deep v) n = check_text_field v n"
  by (cases v) (simp_all add: check_text_field_def)

lemma validate_envelope_PDict:
  assumes "pyval_wf (PDict d)"
  shows "validate_envelope incoming (PDict d) =
     (if \<not> acceptable 32 10000 0 (PDict d) then Inl ValidationError
      else let version = get_field d ''version'';
               version = (if incoming \<and> version = PNone then get_field d ''v'' else version) in
           rbind (ensure (equals_int version PROTOCOL_VERSION) ProtocolError) (\<lambda>_.
           rbind (check_text_field (get_field d ''type'') 64) (\<lambda>_.
           rbind (check_text_field (get_field d ''request_id'') 128) (\<lambda>_. Inr d))))"
  by (simp add: validate_envelope_def normalize_json_exact [OF assms] del: acceptable.simps)

lemma validate_envelope_Inr:
  assumes "pyval_wf env" and "validate_envelope incoming env = Inr d"
  shows "env = PDict d" and "acceptable 32 10000 0 env"
  using assms
  by (auto simp: validate_envelope_def normalize_json_exact rbind_eq_Inr Let_def
      split: if_splits pyval.splits)

lemma validate_envelope_canon:
  assumes "pyval_wf (PDict d)" and "validate_envelope False (PDict d) = Inr d"
  shows "validate_envelope True (PDict (canon_dict d)) = Inr (canon_dict d)"
proof -
  have d: "distinct (map fst d)" using assms(1) by simp
  have acc: "acceptable 32 10000 0 (PDict (canon_dict d))"
    using validate_envelope_Inr(2) [OF assms] acceptable_sort_deep [of 32 10000 0 "PDict d"]
    by (simp only: sort_deep_PDict)
  have wf: "pyval_wf (PDict (canon_dict d))"
    using pyval_wf_sort_deep [OF assms(1)] by (simp only: sort_deep_PDict)
  from assms(2) have "equals_int (get_field d ''version'') PROTOCOL_VERSION"
    and "check_text_field (get_field d ''type'') 64 = Inr ()"
    and "check_text_field (get_field d ''request_id'') 128 = Inr ()"
    unfolding validate_envelope_PDict [OF assms(1)]
    by (auto simp: Let_def rbind_eq_Inr split: if_splits)
  moreover from this(1) have "get_field d ''version'' \<noteq> PNone" by auto
  ultimately show ?thesis
    using acc by (simp add: validate_envelope_PDict [OF wf] get_field_canon_dict [OF d] del: acceptable.simps)
qed

subsection \<open>Frames\<close>

lemma json_bytes_Inr:
  assumes "json_bytes v = Inr b"
  obtains t where "json_dumps v = Inr t" and "utf8_encode t = Inr b"
  using assms by (auto simp: json_bytes_def rbind_eq_Inr split: sum.splits)

lemma json_bytes_error:
  "json_bytes v = Inl e \<Longrightarrow> json_dumps v = Inl e \<or> e = ValidationError"
  by (auto simp: json_bytes_def rbind_eq_Inl is_ValueError_def dest!: utf8_encode_error
      split: sum.splits if_splits)

lemma encode_frame_Inr:
  assumes "encode_frame m env = Inr frame"
  obtains d payload header where "validate_envelope False env = Inr d"
    and "json_bytes (PDict d) = Inr payload" and "payload \<noteq> []" and "int (length payload) \<le> m"
    and "pack_u32 (length payload) = Inr header" and "frame = header @ payload" and "1 \<le> m"
  using assms by (auto simp: encode_frame_def rbind_eq_Inr)

lemma readexactly_append [simp]: "length a = n \<Longrightarrow> readexactly n (a @ b) = Some (a, b)"
  by (simp add: readexactly_def)

lemma read_frame_frame:
  assumes "pack_u32 (length payload) = Inr header" and "payload \<noteq> []" and "int (length payload) \<le> m"
  shows "read_frame rl m (header @ payload @ rest) =
    rbind (decode_payload rl m payload) (\<lambda>d. Inr (d, rest))"
proof -
  have "unpack_u32 header = Inr (length payload, [])"
    using unpack_pack_u32 [OF assms(1), of "[]"] by simp
  then show ?thesis
    using assms pack_u32_length [OF assms(1)] by (simp add: read_frame_def)
qed

lemma decode_encoded_payload:
  assumes "pyval_wf (PDict d)" and "validate_envelope False (PDict d) = Inr d"
    and "json_bytes (PDict d) = Inr payload" and "payload \<noteq> []" and "int (length payload) \<le> m"
    and "33 \<le> rl"
  shows "decode_payload rl m payload = Inr (canon_dict d)"
proof -
  obtain t where t: "json_dumps (PDict d) = Inr t" and b: "utf8_encode t = Inr payload"
    using assms(3) by (rule json_bytes_Inr)
  have acc: "acceptable 32 10000 0 (PDict d)" using validate_envelope_Inr(2) [OF assms(1,2)] .
  have "jdepth (PDict d) \<le> rl" using acceptable_jdepth [OF acc] assms(6) by linarith
  then have "json_loads no_duplicate_keys json_constant rl t = Inr (sort_deep (PDict d))"
    using keeps_pairs_no_duplicate_keys t acceptable_json_ok [OF acc assms(1)] by (intro json_loads_dumps)
  then have "json_loads no_duplicate_keys json_constant rl t = Inr (PDict (canon_dict d))"
    by (simp only: sort_deep_PDict)
  then show ?thesis
    using assms(4,5) utf8_decode_encode [OF b] validate_envelope_canon [OF assms(1,2)]
    by (simp add: decode_payload_def)
qed

lemma read_encoded_frame:
  assumes "pyval_wf (PDict d)" and "encode_frame m (PDict d) = Inr frame" and "33 \<le> rl"
  shows "read_frame rl m (frame @ rest) = Inr (canon_dict d, rest)"
proof -
  obtain d' payload header where v: "validate_envelope False (PDict d) = Inr d'"
    and p: "json_bytes (PDict d') = Inr payload" "payload \<noteq> []" "int (length payload) \<le> m"
    and h: "pack_u32 (length payload) = Inr header" and f: "frame = header @ payload"
    using assms(2) by (rule encode_frame_Inr)
  have d': "d' = d" using validate_envelope_Inr(1) [OF assms(1) v] by simp
  have "decode_payload rl m payload = Inr (canon_dict d)"
    using assms(1,3) v p unfolding d' by (intro decode_encoded_payload)
  then show ?thesis
    using read_frame_frame [OF h p(2,3), of rl rest] by (simp add: f)
qed

lemma encode_frame_length:
  assumes "encode_frame m env = Inr frame"
  shows "4 < length frame \<and> int (length frame) \<le> m + 4
    \<and> unpack_u32 frame = Inr (length frame - 4, drop 4 frame)"
proof -
  obtain payload header where p: "payload \<noteq> []" "int (length payload) \<le> m"
    and h: "pack_u32 (length payload) = Inr header" and f: "frame = header @ payload"
    using assms by (rule encode_frame_Inr)
  show ?thesis
    using p pack_u32_length [OF h] unpack_pack_u32 [OF h, of payload] by (auto simp: f)
qed

interpretation frame_codec: prefix_codec
  "\<lambda>d. encode_frame m (PDict d)" "read_frame (n + 33) m" canon_dict "\<lambda>d. pyval_wf (PDict d)" for m n
  by unfold_locales (auto intro: read_encoded_frame dest: encode_frame_length)

lemma read_frame_empty: "read_frame rl m [] = Inl ConnectionError"
  by (simp add: read_frame_def readexactly_def)

text \<open>A frame cut short anywhere is reported as a closed connection, never as a message.\<close>

lemma read_truncated_frame:
  assumes "encode_frame m env = Inr frame" and "n < length frame"
  shows "read_frame rl m (take n frame) = Inl ConnectionError"
proof -
  obtain payload header where p: "payload \<noteq> []" "int (length payload) \<le> m"
    and h: "pack_u32 (length payload) = Inr header" and f: "frame = header @ payload"
    using assms(1) by (rule encode_frame_Inr)
  have h4: "length header = 4" using pack_u32_length [OF h] .
  show ?thesis
  proof (cases "n < 4")
    case True
    then show ?thesis by (simp add: read_frame_def readexactly_def)
  next
    case False
    then have tk: "take n frame = header @ take (n - 4) payload" by (simp add: f h4)
    have "unpack_u32 header = Inr (length payload, [])"
      using unpack_pack_u32 [OF h, of "[]"] by simp
    moreover have "readexactly (length payload) (take (n - 4) payload) = None"
      using assms(2) False by (auto simp: readexactly_def f h4)
    ultimately show ?thesis using h4 p by (simp add: tk read_frame_def)
  qed
qed

subsection \<open>Errors\<close>

lemma dumps_error:
  "dumps_raw v = Inl e \<Longrightarrow> e = TypeError \<or> e = ValueError"
  "dumps_elems vs = Inl e \<Longrightarrow> e = TypeError \<or> e = ValueError"
  "dumps_members d = Inl e \<Longrightarrow> e = TypeError \<or> e = ValueError"
  by (induction v and vs and d rule: dumps_raw_dumps_elems_dumps_members.induct)
    (auto simp: int_repr_def Let_def rbind_eq_Inl split: if_splits pyval.splits)

lemma json_bytes_only_ValidationError:
  assumes "json_bytes v = Inl e"
  shows "e = ValidationError"
proof -
  have "e' = TypeError \<or> is_ValueError e'" if "rbind (json_dumps v) utf8_encode = Inl e'" for e'
  proof (cases "json_dumps v")
    case (Inl e'')
    then show ?thesis using that dumps_error(1) [of "sort_deep v" e'']
      by (auto simp: json_dumps_def is_ValueError_def)
  next
    case (Inr t)
    then show ?thesis using that utf8_encode_error [of t e'] by (simp add: is_ValueError_def)
  qed
  with assms show ?thesis
    by (cases "rbind (json_dumps v) utf8_encode") (simp_all add: json_bytes_def split: if_splits)
qed

lemma normalize_error:
  "normalize md mi d v = Inl e \<Longrightarrow> e = ValidationError"
  "normalize_list md mi d xs = Inl e \<Longrightarrow> e = ValidationError"
  "normalize_items md mi d acc ds = Inl e \<Longrightarrow> e = ValidationError"
proof (induction md mi d v and md mi d xs and md mi d acc ds
    rule: normalize_normalize_list_normalize_items.induct)
  case (1 md mi d v)
  then show ?case
    by (cases v) (auto simp: normalize.simps [of md mi d] rbind_eq_Inl split: if_splits)
qed (auto simp: rbind_eq_Inl split: pyval.splits)

lemma check_text_field_error:
  "check_text_field v n = Inl e \<Longrightarrow> e = ProtocolError \<or> e = UnicodeEncodeError"
  by (auto simp: check_text_field_def utf8_size_def rbind_eq_Inl split: pyval.splits
      dest: utf8_encode_error)

lemma validate_envelope_error:
  assumes "validate_envelope inc env = Inl e"
  shows "e \<in> {ValidationError, ProtocolError, UnicodeEncodeError}"
proof (cases "normalize_json env")
  case (Inl e')
  with assms normalize_error(1) [of _ _ 0 env e'] show ?thesis
    by (simp add: validate_envelope_def normalize_json_def)
next
  case (Inr n)
  with assms show ?thesis
    by (cases n) (auto simp: validate_envelope_def rbind_eq_Inl Let_def split: if_splits
        dest!: check_text_field_error)
qed

lemma decode_payload_error:
  assumes "decode_payload rl m payload = Inl e"
  shows "e \<in> {ProtocolError, ValidationError, UnicodeEncodeError, ValueError, RecursionError}"
proof -
  have "e' \<in> {JSONDecodeError, RecursionError, ValueError, ProtocolError}"
    if "json_loads no_duplicate_keys json_constant rl raw = Inl e'" for raw e'
    using json_loads_error [OF that] no_duplicates_loop_error
    by (auto simp: decoder_error_def no_duplicate_keys_def json_constant_def)
  note loads = this
  show ?thesis
  proof (cases "utf8_decode payload")
    case (Inr raw)
    then show ?thesis
      using assms
      by (auto simp: decode_payload_def rbind_eq_Inl split: sum.splits if_splits
          dest!: validate_envelope_error loads)
  qed (use assms in \<open>auto simp: decode_payload_def rbind_eq_Inl\<close>)
qed

subsection \<open>The text does not depend on the order in which keys were inserted\<close>

text \<open>Two JSON values that Python's \<^verbatim>\<open>==\<close> identifies because only the insertion
  order of their objects differs, at any depth.\<close>

inductive json_perm :: "pyval \<Rightarrow> pyval \<Rightarrow> bool" where
  same: "json_perm v v"
| list: "list_all2 json_perm xs ys \<Longrightarrow> json_perm (PList xs) (PList ys)"
| dict: "list_all2 (\<lambda>p q. fst p = fst q \<and> json_perm (snd p) (snd q)) d e \<Longrightarrow> mset e = mset e' \<Longrightarrow>
    json_perm (PDict d) (PDict e')"

lemma sort_items_mset_eq:
  assumes "mset d = mset e" and "\<forall>p\<in>set d. \<exists>s. fst p = PStr s" and "distinct (map fst d)"
  shows "sort_items d = sort_items e"
  unfolding sort_items_def
proof (rule sort_key_inj_key_eq)
  show "mset d = mset (sort_key (\<lambda>p. key_str (fst p)) e)" using assms(1) by simp
  show "inj_on (\<lambda>p. key_str (fst p)) (set d)"
  proof (rule inj_onI)
    fix p q assume pq: "p \<in> set d" "q \<in> set d" "key_str (fst p) = key_str (fst q)"
    with assms(2) have "fst p = fst q" by (metis key_str.simps(1))
    with pq assms(3) show "p = q" by (metis eq_key_imp_eq_value prod.collapse)
  qed
qed simp

lemma sort_deep_json_perm: "json_perm v w \<Longrightarrow> json_ok v \<Longrightarrow> sort_deep v = sort_deep w"
proof (induction rule: json_perm.induct)
  case (list xs ys)
  then have "map sort_deep xs = map sort_deep ys"
    by (auto simp: list_all2_conv_all_nth intro!: nth_equalityI)
  then show ?case by simp
next
  case (dict d e e')
  let ?f = "\<lambda>(k, v). (k, sort_deep v)"
  have de: "map ?f d = map ?f e"
    using dict.IH dict.prems
    by (auto simp: list_all2_conv_all_nth split_def intro!: nth_equalityI prod_eqI)
  have "sort_items (map ?f e) = sort_items (map ?f e')"
  proof (rule sort_items_mset_eq)
    show "mset (map ?f e) = mset (map ?f e')" using dict.hyps by simp
    have "map fst (map ?f e) = map fst d" using de map_fst_sort_deep [of d] by simp
    then show "distinct (map fst (map ?f e))" using dict.prems by simp
    show "\<forall>p\<in>set (map ?f e). \<exists>s. fst p = PStr s"
      unfolding de [symmetric] using dict.prems by auto
  qed
  with de show ?case by simp
qed simp

lemma json_bytes_json_perm: "json_perm v w \<Longrightarrow> json_ok v \<Longrightarrow> json_bytes v = json_bytes w"
  by (simp add: json_bytes_def json_dumps_def sort_deep_json_perm)

subsection \<open>Evaluation rules for concrete messages\<close>

lemmas text_eval = str_def utf8_size_def utf8_char_def is_surrogate_def

lemmas json_eval = text_eval json_dumps_def sort_items_def json_string_def escape_def escape_char_def
  int_repr_def max_str_digits_def dec_digits.simps digit_text_def hex_digit_def

lemmas envelope_eval = text_eval validate_envelope_PDict get_field_def check_text_field_def
  PROTOCOL_VERSION_def

lemmas scan_eval = skip_ws_def is_ws_def starts_with_def json_loads_def pvalue.simps pelems.simps
  pmembers.simps unescape_def unescape_unicode_def hex4_def hex_value_def scan_number_def
  split_int_def split_frac_def split_exp_def is_digit_def digit_values_def no_duplicate_keys_def

definition ping_envelope :: pydict where
  "ping_envelope =
     [(skey ''version'', PInt 1), (skey ''type'', skey ''ping''), (skey ''request_id'', skey ''r1'')]"

lemma ping_envelope_wf: "pyval_wf (PDict ping_envelope)"
  by (simp add: ping_envelope_def)

lemma ping_envelope_valid: "validate_envelope False (PDict ping_envelope) = Inr ping_envelope"
  by (simp add: envelope_eval ping_envelope_def)

lemma ping_envelope_encodes: "\<exists>f. encode_frame 1024 (PDict ping_envelope) = Inr f"
  unfolding is_ok_iff [symmetric]
  by (simp add: encode_frame_def ping_envelope_valid,
      simp add: ping_envelope_def json_bytes_def json_eval pack_u32_def)

subsection \<open>What the checks accept\<close>

definition text_within :: "nat \<Rightarrow> pystr \<Rightarrow> bool" where
  "text_within n s \<longleftrightarrow> s \<noteq> [] \<and> (\<exists>b. utf8_encode s = Inr b \<and> length b \<le> n)"

lemma check_text_field_iff:
  "check_text_field v n = Inr () \<longleftrightarrow> (\<exists>s. v = PStr s \<and> text_within n s)"
  by (cases v) (auto simp: check_text_field_def text_within_def utf8_size_def rbind_eq_Inr)

lemma equals_int_1: "equals_int v 1 \<longleftrightarrow> v \<in> {PInt 1, PBool True, PFloat (Flt 1)}"
  by (cases v; cases "case v of PFloat x \<Rightarrow> x | _ \<Rightarrow> NaN") auto

section \<open>Properties\<close>

text \<open>C1: a stream of frames reads back as the messages that were sent. If a list of
  envelopes is encoded, each with \<^verbatim>\<open>encode_frame\<close>, and the frames are written one after
  the other, then repeated \<^verbatim>\<open>read_frame\<close> yields exactly these envelopes in order, with
  the keys of every object sorted, and then reports the closed connection; sorting changes no
  field. The envelopes are Python values (distinct keys, floats that are doubles) and the
  interpreter allows JSON text nested 33 deep.\<close>

theorem frames_roundtrip:
  assumes "\<forall>d\<in>set ds. pyval_wf (PDict d)"
    and "rmap (\<lambda>d. encode_frame m (PDict d)) ds = Inr frames" and "33 \<le> rl"
  shows "read_all (read_frame rl m) (concat frames) = (map canon_dict ds, Some ConnectionError)
    \<and> (\<forall>d\<in>set ds. \<forall>k. dget (canon_dict d) k = map_option sort_deep (dget d k))"
proof -
  obtain n where rl: "rl = n + 33" using assms(3) by (metis le_Suc_ex add.commute)
  have "read_all (read_frame rl m) [] = ([], Some ConnectionError)"
    by (simp add: read_all.simps read_frame_empty)
  then show ?thesis
    using frame_codec.read_all_stream [of ds m frames n "[]"] assms(1,2)
    by (auto simp: rl dget_canon_dict)
qed

theorem frames_roundtrip_witness:
  "\<exists>frames. rmap (\<lambda>d. encode_frame 1024 (PDict d)) [ping_envelope, ping_envelope] = Inr frames
    \<and> read_all (read_frame 1000 1024) (concat frames) =
        (map canon_dict [ping_envelope, ping_envelope], Some ConnectionError)"
proof -
  obtain f where f: "encode_frame 1024 (PDict ping_envelope) = Inr f"
    using ping_envelope_encodes by blast
  then show ?thesis
    using frames_roundtrip [of "[ping_envelope, ping_envelope]" 1024 "[f, f]" 1000] ping_envelope_wf
    by simp
qed

text \<open>A frame that is cut short at any byte is never delivered as a message: reading any
  proper prefix of an encoded frame reports the closed connection.\<close>

theorem truncated_frame_not_delivered:
  assumes "encode_frame m env = Inr frame" and "n < length frame"
  shows "read_frame rl m (take n frame) = Inl ConnectionError"
  using assms by (rule read_truncated_frame)

theorem truncated_frame_not_delivered_witness:
  "\<exists>frame. encode_frame 1024 (PDict ping_envelope) = Inr frame \<and>
     read_frame 1000 1024 (take 3 frame) = Inl ConnectionError"
proof -
  obtain f where f: "encode_frame 1024 (PDict ping_envelope) = Inr f"
    using ping_envelope_encodes by blast
  moreover have "3 < length f" using encode_frame_length [OF f] by simp
  ultimately show ?thesis using truncated_frame_not_delivered [OF f, of 3 1000] by blast
qed

text \<open>C27: every frame the encoder emits is within the configured limit and carries its own
  length: more than the four header bytes, at most \<^verbatim>\<open>max_frame_bytes\<close> after them, and
  the big-endian header is the number of bytes that follow.\<close>

theorem frame_length_bounds:
  assumes "encode_frame m env = Inr frame"
  shows "4 < length frame \<and> int (length frame) \<le> m + 4
    \<and> unpack_u32 frame = Inr (length frame - 4, drop 4 frame)"
  using assms by (rule encode_frame_length)

theorem frame_length_bounds_witness:
  "\<exists>frame. encode_frame 1024 (PDict ping_envelope) = Inr frame \<and> int (length frame) \<le> 1024 + 4"
proof -
  obtain f where f: "encode_frame 1024 (PDict ping_envelope) = Inr f"
    using ping_envelope_encodes by blast
  then show ?thesis using frame_length_bounds [OF f] by blast
qed

text \<open>C25: \<^verbatim>\<open>normalize_json\<close> returns its argument unchanged (as a detached copy) if it
  is null, a boolean, an int, a finite float, a string, or a list or string-keyed mapping of
  such values with at most 10000 entries and nesting depth at most 32, and raises
  \<^verbatim>\<open>ValidationError\<close> for every other Python value.\<close>

theorem normalize_json_accepts_exactly:
  assumes "pyval_wf v"
  shows "normalize_json v = (if acceptable 32 10000 0 v then Inr v else Inl ValidationError)"
  using assms by (rule normalize_json_exact)

theorem normalize_json_accepts_exactly_witness:
  "normalize_json (PDict [(skey ''a'', PList [PInt 1, PFloat NegZero])]) =
      Inr (PDict [(skey ''a'', PList [PInt 1, PFloat NegZero])])
   \<and> normalize_json (PList [PTuple []]) = Inl ValidationError"
  using normalize_json_accepts_exactly [of "PDict [(skey ''a'', PList [PInt 1, PFloat NegZero])]"]
    normalize_json_accepts_exactly [of "PList [PTuple []]"]
  by simp

text \<open>C26: an envelope passes the checks exactly when it is within the JSON limits, its
  version equals 1, and its type and request id are non-empty strings of at most 64 and 128
  UTF-8 bytes. Incoming envelopes may spell the version \<^verbatim>\<open>v\<close>. The version test is
  Python's \<^verbatim>\<open>!=\<close>, so \<^verbatim>\<open>true\<close> and \<^verbatim>\<open>1.0\<close> pass it like the integer 1.\<close>

theorem envelope_accepted_iff:
  assumes "pyval_wf (PDict d)"
  shows "validate_envelope incoming (PDict d) = Inr d \<longleftrightarrow>
     acceptable 32 10000 0 (PDict d)
     \<and> (if incoming \<and> get_field d ''version'' = PNone then get_field d ''v'' else get_field d ''version'')
         \<in> {PInt 1, PBool True, PFloat (Flt 1)}
     \<and> (\<exists>s. get_field d ''type'' = PStr s \<and> text_within 64 s)
     \<and> (\<exists>s. get_field d ''request_id'' = PStr s \<and> text_within 128 s)"
  by (simp add: validate_envelope_PDict [OF assms] Let_def rbind_eq_Inr PROTOCOL_VERSION_def
      flip: check_text_field_iff del: acceptable.simps) (auto simp: equals_int_1)

theorem envelope_accepted_iff_witness:
  "validate_envelope True (PDict [(skey ''version'', PBool True), (skey ''type'', skey ''ping''),
     (skey ''request_id'', skey ''r1'')]) =
   Inr [(skey ''version'', PBool True), (skey ''type'', skey ''ping''), (skey ''request_id'', skey ''r1'')]"
  by (subst envelope_accepted_iff) (simp_all add: get_field_def text_within_def text_eval)

text \<open>Whatever bytes the peer sends, \<^verbatim>\<open>decode_payload\<close> either returns an envelope
  or raises one of five exceptions: the two SDK errors, or, past its handlers,
  \<^verbatim>\<open>UnicodeEncodeError\<close> (a lone surrogate in the type or request id), a bare
  \<^verbatim>\<open>ValueError\<close> (an integer of more than 4300 digits) or \<^verbatim>\<open>RecursionError\<close>
  (nesting beyond the interpreter's limit).\<close>

theorem decode_payload_raises_only:
  assumes "decode_payload rl m payload = Inl e"
  shows "e \<in> {ProtocolError, ValidationError, UnicodeEncodeError, ValueError, RecursionError}"
  using assms by (rule decode_payload_error)

theorem decode_payload_raises_only_witness:
  "decode_payload 1000 1024 [] = Inl ProtocolError"
proof -
  have "decode_payload 1000 1024 [] = Inl ProtocolError" by (simp add: decode_payload_def)
  with decode_payload_raises_only [OF this] show ?thesis by simp
qed

text \<open>The exceptions outside the SDK's hierarchy do escape: the payload
  \<^verbatim>\<open>{"version":1,"type":"\ud800","request_id":"r"}\<close> is valid UTF-8 and valid JSON, and
  \<^verbatim>\<open>decode_payload\<close> raises \<^verbatim>\<open>UnicodeEncodeError\<close>, not \<^verbatim>\<open>ProtocolError\<close>.\<close>

theorem decode_payload_surrogate_escapes:
  "decode_payload 1000 1024
     (map byte_of ([123] @ json_string (str ''version'') @ [58, 49, 44] @ json_string (str ''type'') @ [58, 34, 92]
        @ str ''ud800'' @ [34, 44] @ json_string (str ''request_id'') @ [58] @ json_string (str ''r'') @ [125]))
   = Inl UnicodeEncodeError \<and> \<not> is_TayError UnicodeEncodeError"
proof -
  let ?t = "[123] @ json_string (str ''version'') @ [58, 49, 44] @ json_string (str ''type'') @ [58, 34, 92]
        @ str ''ud800'' @ [34, 44] @ json_string (str ''request_id'') @ [58] @ json_string (str ''r'') @ [125]"
  let ?d = "[(skey ''version'', PInt 1), (skey ''type'', PStr [0xD800]), (skey ''request_id'', skey ''r'')]"
  have "utf8_encode ?t = Inr (map byte_of ?t)"
    by (rule utf8_encode_ascii) (simp add: json_eval)
  then have u: "utf8_decode (map byte_of ?t) = Inr ?t" by (rule utf8_decode_encode)
  have j: "json_loads no_duplicate_keys json_constant 1000 ?t = Inr (PDict ?d)"
    by (simp add: scan_eval json_eval Let_def)
  have v: "validate_envelope True (PDict ?d) = Inl UnicodeEncodeError"
    by (simp add: envelope_eval)
  have "length (map byte_of ?t) \<le> 1024" by (simp add: json_eval)
  then show ?thesis
    by (simp only: decode_payload_def u j sum.case) (simp add: v is_TayError_def)
qed

text \<open>The encoding is deterministic: two JSON values that differ only in the order in
  which the entries of their objects (at any depth) were inserted have the same bytes.\<close>

theorem json_bytes_order_independent:
  assumes "json_perm v w" and "json_ok v"
  shows "json_bytes v = json_bytes w"
  using assms by (rule json_bytes_json_perm)

theorem json_bytes_order_independent_witness:
  "json_bytes (PDict [(skey ''b'', PInt 1), (skey ''a'', PNone)]) =
   json_bytes (PDict [(skey ''a'', PNone), (skey ''b'', PInt 1)])"
proof (rule json_bytes_order_independent)
  show "json_perm (PDict [(skey ''b'', PInt 1), (skey ''a'', PNone)])
      (PDict [(skey ''a'', PNone), (skey ''b'', PInt 1)])"
    by (rule json_perm.dict [where e = "[(skey ''b'', PInt 1), (skey ''a'', PNone)]"])
      (auto intro: json_perm.same)
qed simp

text \<open>\<^verbatim>\<open>validate_task_name\<close> returns a name exactly when it is a non-empty string
  of at most 255 UTF-8 bytes without control characters; the only other outcomes are
  \<^verbatim>\<open>ValidationError\<close> and, for a non-empty string with a lone surrogate, the
  \<^verbatim>\<open>UnicodeEncodeError\<close> of the unguarded \<^verbatim>\<open>encode\<close>.\<close>

theorem validate_task_name_outcomes:
  "validate_task_name v =
     (case v of
        PStr s \<Rightarrow>
          if s \<noteq> [] \<and> \<not> list_all encodable s then Inl UnicodeEncodeError
          else if text_within 255 s \<and> (\<forall>c\<in>set s. 0x20 \<le> c) then Inr s
          else Inl ValidationError
      | _ \<Rightarrow> Inl ValidationError)"
proof (cases v)
  case (PStr s)
  show ?thesis
  proof (cases "utf8_encode s")
    case (Inl e)
    then have "\<not> list_all encodable s" by (simp flip: utf8_encode_ok_iff)
    with Inl utf8_encode_error [OF Inl] PStr show ?thesis
      by (auto simp: validate_task_name_def utf8_size_def)
  next
    case (Inr b)
    then have "list_all encodable s" by (simp flip: utf8_encode_ok_iff)
    with Inr PStr show ?thesis
      by (auto simp: validate_task_name_def utf8_size_def text_within_def ensure_def not_le
          DEFAULT_MAX_TASK_NAME_BYTES_def)
  qed
qed (simp_all add: validate_task_name_def)

theorem validate_task_name_outcomes_witness:
  "validate_task_name (skey ''send'') = Inr (str ''send'')
   \<and> validate_task_name (PStr [0xD800]) = Inl UnicodeEncodeError
   \<and> validate_task_name (PStr [10]) = Inl ValidationError"
  unfolding validate_task_name_outcomes
  by (simp add: text_within_def text_eval encodable_def is_surrogate_def)

end
