(* ===== verification/Validation.thy ===== *)
theory Validation
  imports Protocol
begin

section \<open>Submission options (\<^verbatim>\<open>tay/validation.py\<close>, \<^verbatim>\<open>tay/job_options.py\<close>)\<close>

text \<open>
  The checks both transports apply to a submission before anything is sent: configuration
  numbers, identifiers, the option names and their ranges, the rules that forbid combining
  options, and the payload that is built from them. Options are a Python mapping (\<open>pydict\<close>);
  a check is a value of \<open>unit res\<close> that is \<open>Inr ()\<close> when it passes.

  Shown here: the checks accept exactly the options the protocol documentation lists
  (\<open>submission_spec\<close>, a specification stated field by field without any order of tests);
  they raise nothing but \<^verbatim>\<open>ValidationError\<close>, in particular the float conversion in
  \<open>milliseconds\<close> cannot overflow; seconds are converted to the nearest millisecond, halves
  upwards; and merging never lets one source of options override another.
\<close>

subsection \<open>Configuration values\<close>

definition positive_finite :: "pyval \<Rightarrow> pyfloat res" where
  "positive_finite value =
     (if \<not> is_number value then Inl ValidationError
      else
        (let converted = (case value of PInt n \<Rightarrow> float_of_int n | PFloat x \<Rightarrow> Inr x | _ \<Rightarrow> Inl TypeError) in
         case converted of
           Inl e \<Rightarrow> Inl (if e = OverflowError \<or> is_ValueError e then ValidationError else e)
         | Inr result \<Rightarrow>
             if \<not> isfinite result \<or> num_le (PFloat result) (PInt 0) then Inl ValidationError
             else Inr result))"

definition identifier_check :: "pyval \<Rightarrow> pystr res" where
  "identifier_check value =
     (case value of
        PStr s \<Rightarrow>
          if s = [] \<or> 0 \<in> set s then Inl ValidationError
          else (case utf8_size s of
                  Inl _ \<Rightarrow> Inl ValidationError
                | Inr n \<Rightarrow> if 128 < n then Inl ValidationError else Inr s)
      | _ \<Rightarrow> Inl ValidationError)"

subsection \<open>Ranges\<close>

definition DURABILITY_MODES :: "pystr list" where
  "DURABILITY_MODES = [str ''persistent'', str ''volatile'']"

definition ENQUEUE_OPTION_NAMES :: "pyval list" where
  "ENQUEUE_OPTION_NAMES =
     [skey ''id'', skey ''submission_id'', skey ''delay'', skey ''delay_ms'', skey ''run_at'',
      skey ''retries'', skey ''timeout'', skey ''timeout_ms'', skey ''backoff'', skey ''queue'',
      skey ''durability'']"

definition MAX_TIME :: int where
  "MAX_TIME = 9223372036854775807"

text \<open>\<^verbatim>\<open>math.floor\<close> of a float.\<close>

fun math_floor :: "pyfloat \<Rightarrow> int res" where
  "math_floor (Flt q) = Inr \<lfloor>q\<rfloor>"
| "math_floor NegZero = Inr 0"
| "math_floor NaN = Inl ValueError"
| "math_floor _ = Inl OverflowError"

text \<open>The milliseconds a number of seconds is rounded to.\<close>

definition converted_milliseconds :: "pyval \<Rightarrow> int res" where
  "converted_milliseconds value =
     (case value of
        PFloat x \<Rightarrow>
          rbind (float_of_int 1000) (\<lambda>k.
          let scaled = float_mul x k in
          rbind (math_floor scaled) (\<lambda>f.
          rbind (float_of_int f) (\<lambda>ff.
          let rest = float_sub_finite scaled ff in
          Inr (f + (if num_le (PFloat (Flt (1 / 2))) (PFloat rest) then 1 else 0)))))
      | PInt n \<Rightarrow> Inr (n * 1000)
      | _ \<Rightarrow> Inl TypeError)"

definition milliseconds :: "pyval \<Rightarrow> int \<Rightarrow> int \<Rightarrow> unit res" where
  "milliseconds value maximum minimum =
     rbind (ensure (is_number value \<and> \<not> num_less value (PInt 0)) ValidationError) (\<lambda>_.
     rbind (ensure (\<not> (case value of PFloat x \<Rightarrow> \<not> isfinite x | _ \<Rightarrow> False)) ValidationError) (\<lambda>_.
     rbind (int_truediv maximum 1000) (\<lambda>limit.
     rbind (ensure (\<not> num_less (PFloat limit) value) ValidationError) (\<lambda>_.
     rbind (converted_milliseconds value) (\<lambda>converted.
     ensure (minimum \<le> converted \<and> converted \<le> maximum) ValidationError)))))"

text \<open>\<^verbatim>\<open>type(x) is int and lo <= x <= hi\<close>.\<close>

fun int_in_range :: "int \<Rightarrow> int \<Rightarrow> pyval \<Rightarrow> bool" where
  "int_in_range lo hi (PInt n) = (lo \<le> n \<and> n \<le> hi)"
| "int_in_range lo hi _ = False"

definition validate_durability :: "pyval \<Rightarrow> unit res" where
  "validate_durability value =
     ensure (value = PNone \<or> (case value of PStr s \<Rightarrow> s \<in> set DURABILITY_MODES | _ \<Rightarrow> False)) ValidationError"

definition validate_execution_options :: "pydict \<Rightarrow> unit res" where
  "validate_execution_options options =
     (let retries = get_field options ''retries''; backoff = get_field options ''backoff'' in
      rbind (ensure (retries = PNone \<or> int_in_range 0 65534 retries) ValidationError) (\<lambda>_.
      rbind (ensure (backoff = PNone \<or> backoff = skey ''exponential'') ValidationError) (\<lambda>_.
      validate_durability (get_field options ''durability''))))"

subsection \<open>The options of a submission\<close>

definition is_lower_hex :: "codepoint \<Rightarrow> bool" where
  "is_lower_hex c = ((48 \<le> c \<and> c \<le> 57) \<or> (97 \<le> c \<and> c \<le> 102))"

text \<open>\<^verbatim>\<open>re.fullmatch(r"[0-9a-f]{32}", s)\<close> and \<^verbatim>\<open>int(s, 16)\<close>.\<close>

definition is_job_id :: "pystr \<Rightarrow> bool" where
  "is_job_id s = (length s = 32 \<and> list_all is_lower_hex s)"

definition int_base16 :: "pystr \<Rightarrow> nat" where
  "int_base16 s = foldl (\<lambda>a c. 16 * a + (if c \<le> 57 then c - 48 else c - 87)) 0 s"

definition check_queue :: "pydict \<Rightarrow> unit res" where
  "check_queue options =
     (if has_field options ''queue'' then
        (case get_field options ''queue'' of
           PStr q \<Rightarrow>
             if q = [] \<or> 0 \<in> set q then Inl ValidationError
             else (case utf8_size q of
                     Inl _ \<Rightarrow> Inl ValidationError
                   | Inr n \<Rightarrow> ensure (n \<le> 255) ValidationError)
         | _ \<Rightarrow> Inl ValidationError)
      else Inr ())"

definition validate_submission_options :: "pydict \<Rightarrow> unit res" where
  "validate_submission_options options =
     (let job_id = get_field options ''id''; submission_id = get_field options ''submission_id'';
          delay = get_field options ''delay''; delay_ms = get_field options ''delay_ms'';
          run_at = get_field options ''run_at''; timeout = get_field options ''timeout'';
          timeout_ms = get_field options ''timeout_ms'' in
      rbind (ensure (\<forall>k\<in>set (dkeys options). k \<in> set ENQUEUE_OPTION_NAMES) ValidationError) (\<lambda>_.
      rbind (validate_execution_options options) (\<lambda>_.
      rbind (ensure (job_id = PNone \<or>
               (case job_id of PStr s \<Rightarrow> is_job_id s \<and> int_base16 s \<noteq> 0 | _ \<Rightarrow> False)) ValidationError) (\<lambda>_.
      rbind (if submission_id \<noteq> PNone then
               rbind (identifier_check submission_id) (\<lambda>_. ensure (job_id = PNone) ValidationError)
             else Inr ()) (\<lambda>_.
      rbind (if delay \<noteq> PNone then milliseconds delay MAX_TIME 0 else Inr ()) (\<lambda>_.
      rbind (ensure (delay_ms = PNone \<or> int_in_range 0 MAX_TIME delay_ms) ValidationError) (\<lambda>_.
      rbind (ensure (delay = PNone \<or> delay_ms = PNone) ValidationError) (\<lambda>_.
      rbind (if run_at \<noteq> PNone then
               rbind (ensure (int_in_range 0 MAX_TIME run_at) ValidationError) (\<lambda>_.
               ensure (delay = PNone \<and> delay_ms = PNone) ValidationError)
             else Inr ()) (\<lambda>_.
      rbind (if timeout \<noteq> PNone then milliseconds timeout 86400000 1 else Inr ()) (\<lambda>_.
      rbind (ensure (timeout_ms = PNone \<or> int_in_range 1 86400000 timeout_ms) ValidationError) (\<lambda>_.
      rbind (ensure (timeout = PNone \<or> timeout_ms = PNone) ValidationError) (\<lambda>_.
      rbind (check_queue options) (\<lambda>_.
      ensure (\<not> (has_field options ''retries'' \<and> get_field options ''retries'' = PNone)) ValidationError)))))))))))))"

subsection \<open>Building the payload\<close>

definition job_arguments :: "pyval \<Rightarrow> pyval res" where
  "job_arguments args =
     (let args = (if args = PNone then PDict [] else args) in
      rbind (ensure (is_dict args) ValidationError) (\<lambda>_. normalize_json args))"

definition merge_enqueue_options :: "pyval \<Rightarrow> pydict \<Rightarrow> pyval \<Rightarrow> pydict res" where
  "merge_enqueue_options options keywords durability =
     rbind (ensure (options = PNone \<or> is_dict options) ValidationError) (\<lambda>_.
     let merged = (case options of PDict d \<Rightarrow> d | _ \<Rightarrow> []) in
     rbind (ensure (set (dkeys merged) \<inter> set (dkeys keywords) = {}) ValidationError) (\<lambda>_.
     let merged = dupdate merged keywords in
     rbind (if durability \<noteq> PNone then
              rbind (ensure (\<not> has_field merged ''durability'') ValidationError) (\<lambda>_.
              Inr (dset merged (skey ''durability'') durability))
            else Inr merged) (\<lambda>merged.
     rbind (validate_submission_options merged) (\<lambda>_. Inr merged))))"

definition enqueue_payload :: "pystr \<Rightarrow> pyval \<Rightarrow> pyval \<Rightarrow> pydict \<Rightarrow> pyval \<Rightarrow> pydict res" where
  "enqueue_payload task_name args options keywords durability =
     rbind (job_arguments args) (\<lambda>arguments.
     rbind (merge_enqueue_options options keywords durability) (\<lambda>merged.
     rbind (normalize_json (PDict merged)) (\<lambda>normalized.
     Inr [(skey ''task'', PStr task_name), (skey ''args'', arguments), (skey ''options'', normalized)])))"

subsection \<open>What is accepted, field by field\<close>

fun seconds_in_range :: "int \<Rightarrow> int \<Rightarrow> pyval \<Rightarrow> bool" where
  "seconds_in_range lo hi (PInt n) = (lo \<le> n * 1000 \<and> n * 1000 \<le> hi)"
| "seconds_in_range lo hi (PFloat x) =
     (isfinite x \<and> 0 \<le> float_value x \<and> float_value x \<le> double_of (of_int hi / 1000) \<and>
      lo \<le> \<lfloor>double_of (float_value x * 1000) + 1 / 2\<rfloor> \<and>
      \<lfloor>double_of (float_value x * 1000) + 1 / 2\<rfloor> \<le> hi)"
| "seconds_in_range lo hi _ = False"

definition optional :: "pydict \<Rightarrow> string \<Rightarrow> (pyval \<Rightarrow> bool) \<Rightarrow> bool" where
  "optional d name P = (get_field d name = PNone \<or> P (get_field d name))"

definition at_most_one :: "pydict \<Rightarrow> string list \<Rightarrow> bool" where
  "at_most_one d names = (length (filter (\<lambda>n. get_field d n \<noteq> PNone) names) \<le> 1)"

fun text_value :: "nat \<Rightarrow> pyval \<Rightarrow> bool" where
  "text_value limit (PStr s) = (text_within limit s \<and> 0 \<notin> set s)"
| "text_value limit _ = False"

fun job_id_value :: "pyval \<Rightarrow> bool" where
  "job_id_value (PStr s) = (is_job_id s \<and> (\<exists>c\<in>set s. c \<noteq> 48))"
| "job_id_value _ = False"

definition submission_spec :: "pydict \<Rightarrow> bool" where
  "submission_spec d =
     ((\<forall>k\<in>set (dkeys d). k \<in> set ENQUEUE_OPTION_NAMES)
      \<and> (has_field d ''retries'' \<longrightarrow> int_in_range 0 65534 (get_field d ''retries''))
      \<and> optional d ''backoff'' (\<lambda>v. v = skey ''exponential'')
      \<and> optional d ''durability'' (\<lambda>v. v = skey ''persistent'' \<or> v = skey ''volatile'')
      \<and> optional d ''id'' job_id_value
      \<and> optional d ''submission_id'' (text_value 128)
      \<and> at_most_one d [''id'', ''submission_id'']
      \<and> optional d ''delay'' (seconds_in_range 0 MAX_TIME)
      \<and> optional d ''delay_ms'' (int_in_range 0 MAX_TIME)
      \<and> optional d ''run_at'' (int_in_range 0 MAX_TIME)
      \<and> at_most_one d [''delay'', ''delay_ms'', ''run_at'']
      \<and> optional d ''timeout'' (seconds_in_range 1 86400000)
      \<and> optional d ''timeout_ms'' (int_in_range 1 86400000)
      \<and> at_most_one d [''timeout'', ''timeout_ms'']
      \<and> (has_field d ''queue'' \<longrightarrow> text_value 255 (get_field d ''queue'')))"

definition merged_options :: "pydict \<Rightarrow> pydict \<Rightarrow> pyval \<Rightarrow> pydict" where
  "merged_options options keywords durability =
     options @ keywords @ (if durability = PNone then [] else [(skey ''durability'', durability)])"

subsection \<open>Seconds and milliseconds\<close>

lemma floor_plus_half:
  "\<lfloor>x + 1 / 2\<rfloor> = \<lfloor>x\<rfloor> + (if 1 / 2 \<le> x - of_int \<lfloor>x\<rfloor> then 1 else (0::int))" for x :: rat
  by (rule floor_unique) (auto, linarith+)

lemma floor_half [simp]: "\<lfloor>1 / 2 :: rat\<rfloor> = 0"
  by (rule floor_unique) simp_all

lemma double_of_0 [simp]: "double_of 0 = 0"
  by (simp add: double_of_def to_double_def)

lemma float_of_int_1000: "float_of_int 1000 = Inr (Flt 1000)"
  using float_of_int_small [of 1000] by simp

lemma converted_milliseconds_float:
  assumes "0 \<le> q" and "q * 1000 \<le> 2 ^ 1000"
  shows "converted_milliseconds (PFloat (Flt q)) = Inr \<lfloor>double_of (q * 1000) + 1 / 2\<rfloor>"
proof -
  define s where "s = double_of (q * 1000)"
  have sd: "is_double s" "0 \<le> s" and mul: "float_mul (Flt q) (Flt 1000) = Flt s"
    using to_double_moderate [of "q * 1000"] assms
    by (simp_all add: s_def float_mul_def Let_def)
  have fl: "is_double (of_int \<lfloor>s\<rfloor>)" and fr: "is_double (s - of_int \<lfloor>s\<rfloor>)"
    using is_double_floor_frac [OF sd] by simp_all
  have "float_of_int \<lfloor>s\<rfloor> = Inr (Flt (of_int \<lfloor>s\<rfloor>))"
    using fl by (simp add: float_of_int_def is_double_def finite_or_overflow_def)
  moreover have "float_sub_finite (Flt s) (Flt (of_int \<lfloor>s\<rfloor>)) = Flt (s - of_int \<lfloor>s\<rfloor>)"
    using fr by (simp add: float_sub_finite_def is_double_def Let_def)
  ultimately show ?thesis
    using floor_plus_half [of s]
    by (simp add: converted_milliseconds_def float_of_int_1000 mul s_def [symmetric] num_le_def)
qed

lemma converted_milliseconds_NegZero: "converted_milliseconds (PFloat NegZero) = Inr 0"
  using float_of_int_small [of 0]
  by (simp add: converted_milliseconds_def float_of_int_1000 float_mul_def float_sub_finite_def num_le_def)

lemma double_of_MAX_TIME: "double_of (of_int MAX_TIME / 1000) = 9223372036854776"
proof -
  let ?q = "of_int MAX_TIME / 1000 :: rat"
  have "ilog 2 ?q = 53" by (rule ilog_unique) (simp_all add: MAX_TIME_def ipow_def)
  then have u: "ulp_exponent ?q = 1" by (simp add: ulp_exponent_def)
  have "\<lfloor>?q / 2\<rfloor> = 4611686018427387" by (rule floor_unique) (simp_all add: MAX_TIME_def)
  then have "round_half_even (?q / 2) = 4611686018427388"
    by (simp add: round_half_even_def Let_def) (simp add: MAX_TIME_def)
  then have "round_pos ?q = 9223372036854776" by (simp add: round_pos_def u ipow_def)
  then show ?thesis by (simp add: double_of_def to_double_def MAX_TIME_def)
qed

lemma milliseconds_exact:
  assumes "0 \<le> lo" and "0 \<le> hi" and small: "hi < 2 ^ 53 * 1000 \<or> hi = MAX_TIME"
  shows "milliseconds v hi lo = ensure (seconds_in_range lo hi v) ValidationError"
proof -
  have hi: "hi \<le> 2 ^ 63" using small by (auto simp: MAX_TIME_def)
  then have "hi \<le> 2 ^ 999" by simp
  then have lim: "int_truediv hi 1000 = Inr (Flt (double_of (of_int hi / 1000)))"
    using int_truediv_moderate [of hi 1000] assms(2) by simp
  show ?thesis
  proof (cases v)
    case (PInt n)
    have "of_int n \<le> double_of (of_int hi / 1000)" if n: "0 \<le> n" "n * 1000 \<le> hi"
    proof (cases "hi = MAX_TIME")
      case True
      with n(2) have "n \<le> 9223372036854775" by (simp add: MAX_TIME_def)
      then have "(of_int n :: rat) \<le> of_int 9223372036854775" by (simp only: of_int_le_iff)
      then show ?thesis unfolding True double_of_MAX_TIME by simp
    next
      case False
      show ?thesis
    proof (rule double_of_ge_int)
      show "n < 2 ^ 53" using n(2) small False by simp
      have "(of_int (n * 1000) :: rat) \<le> of_int hi" using n(2) by (simp only: of_int_le_iff)
      then show "of_int n \<le> (of_int hi :: rat) / 1000" by (simp add: le_divide_eq)
      have "(of_int hi :: rat) \<le> of_int (2 ^ 63)" using hi by (simp only: of_int_le_iff)
      then show "(of_int hi :: rat) / 1000 \<le> 2 ^ 1000" by simp
    qed (rule n(1))
    qed
    with PInt lim assms(1) show ?thesis
      by (auto simp: milliseconds_def num_less_def converted_milliseconds_def ensure_def not_less)
  next
    case (PFloat x)
    show ?thesis
    proof (cases x)
      case (Flt q)
      have "q * 1000 \<le> 2 ^ 1000" if q: "0 \<le> q" "q \<le> double_of (of_int hi / 1000)"
      proof -
        have h: "(of_int hi :: rat) \<le> of_int (2 ^ 63)" using hi by (simp only: of_int_le_iff)
        then have "double_of (of_int hi / 1000) \<le> 2 * (of_int hi / 1000) + 1"
          using assms(2) by (intro double_of_upper) simp_all
        with q h show ?thesis by simp
      qed
      with PFloat Flt lim assms(1) converted_milliseconds_float [of q] show ?thesis
        by (auto simp: milliseconds_def num_less_def ensure_def not_less)
    next
      case NegZero
      have "0 \<le> double_of (of_int hi / 1000)"
        using to_double_moderate(3) [of "of_int hi / 1000"] assms(2) \<open>hi \<le> 2 ^ 63\<close>
        using double_of_ge_int [of 0 "of_int hi / 1000"] by (simp add: MAX_TIME_def)
      with PFloat NegZero lim show ?thesis
        by (auto simp: milliseconds_def num_less_def ensure_def converted_milliseconds_NegZero)
    qed (use PFloat in \<open>simp_all add: milliseconds_def num_less_def ensure_def\<close>)
  qed (simp_all add: milliseconds_def)
qed

lemma text_value_PStr: "text_value limit v \<longleftrightarrow> (\<exists>s. v = PStr s \<and> text_within limit s \<and> 0 \<notin> set s)"
  by (cases v) simp_all

lemma text_within_size:
  "text_within limit s \<longleftrightarrow> s \<noteq> [] \<and> (\<exists>n. utf8_size s = Inr n \<and> n \<le> limit)"
  by (auto simp: text_within_def utf8_size_def rbind_eq_Inr)

lemma identifier_check_exact:
  "identifier_check v = (if text_value 128 v then Inr (case v of PStr s \<Rightarrow> s) else Inl ValidationError)"
  by (cases v) (auto simp: identifier_check_def text_within_size split: sum.splits)

lemma check_queue_exact:
  "check_queue d = ensure (has_field d ''queue'' \<longrightarrow> text_value 255 (get_field d ''queue'')) ValidationError"
  by (cases "get_field d ''queue''")
    (auto simp: check_queue_def text_within_size ensure_def split: sum.splits)

lemma foldl_base16_0:
  "foldl (\<lambda>a c. 16 * a + f c) a s = (0::nat) \<longleftrightarrow> a = 0 \<and> (\<forall>c\<in>set s. f c = 0)"
  by (induction s arbitrary: a) auto

lemma hex_digit_zero:
  "is_lower_hex c \<Longrightarrow> (if c \<le> 57 then c - 48 else c - 87) = 0 \<longleftrightarrow> c = 48"
  by (auto simp: is_lower_hex_def)

lemma int_base16_zero: "list_all is_lower_hex s \<Longrightarrow> int_base16 s = 0 \<longleftrightarrow> (\<forall>c\<in>set s. c = 48)"
  unfolding int_base16_def foldl_base16_0 list_all_iff using hex_digit_zero by simp

lemma job_id_value_exact:
  "(case v of PStr s \<Rightarrow> is_job_id s \<and> int_base16 s \<noteq> 0 | _ \<Rightarrow> False) \<longleftrightarrow> job_id_value v"
proof (cases v)
  case (PStr s)
  show ?thesis unfolding PStr pyval.case job_id_value.simps
    using int_base16_zero [of s] is_job_id_def by metis
qed simp_all

lemma at_most_one_pair: "at_most_one d [a, b] \<longleftrightarrow> get_field d a = PNone \<or> get_field d b = PNone"
  by (simp add: at_most_one_def)

lemma at_most_one_triple:
  "at_most_one d [a, b, c] \<longleftrightarrow>
     (get_field d a = PNone \<or> get_field d b = PNone)
     \<and> (get_field d c = PNone \<or> (get_field d a = PNone \<and> get_field d b = PNone))"
  by (auto simp: at_most_one_def)

lemma validate_execution_options_exact:
  "validate_execution_options d = ensure
     ((get_field d ''retries'' = PNone \<or> int_in_range 0 65534 (get_field d ''retries''))
      \<and> optional d ''backoff'' (\<lambda>v. v = skey ''exponential'')
      \<and> optional d ''durability'' (\<lambda>v. v = skey ''persistent'' \<or> v = skey ''volatile'')) ValidationError"
  by (auto simp: validate_execution_options_def validate_durability_def optional_def ensure_def Let_def
      DURABILITY_MODES_def split: pyval.splits)

lemma validate_submission_options_exact:
  "validate_submission_options d = ensure (submission_spec d) ValidationError"
proof -
  have ms: "milliseconds v MAX_TIME 0 = ensure (seconds_in_range 0 MAX_TIME v) ValidationError"
    "milliseconds v 86400000 1 = ensure (seconds_in_range 1 86400000 v) ValidationError" for v
    by (rule milliseconds_exact; simp add: MAX_TIME_def)+
  have id: "rbind (identifier_check v) (\<lambda>_. ensure b ValidationError) = ensure (text_value 128 v \<and> b) ValidationError" for v b
    by (simp add: identifier_check_exact)
  have retries: "(has_field d ''retries'' \<longrightarrow> int_in_range 0 65534 (get_field d ''retries'')) \<longleftrightarrow>
      (get_field d ''retries'' = PNone \<or> int_in_range 0 65534 (get_field d ''retries''))
      \<and> \<not> (has_field d ''retries'' \<and> get_field d ''retries'' = PNone)"
    using get_field_absent [of d "''retries''"] by auto
  show ?thesis
    unfolding validate_submission_options_def Let_def validate_execution_options_exact
      job_id_value_exact id ms check_queue_exact rbind_ensure_ensure if_ensure
      submission_spec_def retries at_most_one_pair at_most_one_triple optional_def
    by (rule arg_cong [where f = "\<lambda>b. ensure b ValidationError"]) satx
qed

subsection \<open>Merging and the payload\<close>

lemma merge_enqueue_options_exact:
  assumes "dict_ok keywords"
  shows "merge_enqueue_options (PDict options) keywords durability =
    (if set (dkeys options) \<inter> set (dkeys keywords) = {}
        \<and> (durability \<noteq> PNone \<longrightarrow> skey ''durability'' \<notin> set (dkeys (options @ keywords)))
        \<and> submission_spec (merged_options options keywords durability)
     then Inr (merged_options options keywords durability) else Inl ValidationError)"
proof (cases "set (dkeys options) \<inter> set (dkeys keywords) = {}")
  case True
  then have u: "dupdate options keywords = options @ keywords"
    using assms by (intro dupdate_fresh) auto
  show ?thesis
    using True dkeys_dset_fresh [of "skey ''durability''" "options @ keywords" durability]
    by (auto simp: merge_enqueue_options_def Let_def u has_field_keys merged_options_def
        validate_submission_options_exact ensure_def)
next
  case False
  then show ?thesis by (auto simp: merge_enqueue_options_def Let_def ensure_def)
qed

text \<open>Every admitted option value is a JSON scalar.\<close>

lemma option_value_acceptable:
  "seconds_in_range lo hi v \<Longrightarrow> acceptable 32 10000 1 v"
  "int_in_range lo hi v \<Longrightarrow> acceptable 32 10000 1 v"
  "text_value n v \<Longrightarrow> acceptable 32 10000 1 v"
  "job_id_value v \<Longrightarrow> acceptable 32 10000 1 v"
  by (cases v; auto)+

lemma optional_acceptable:
  "optional d n P \<Longrightarrow> (\<And>v. P v \<Longrightarrow> acceptable 32 10000 1 v) \<Longrightarrow> acceptable 32 10000 1 (get_field d n)"
  "has_field d n \<longrightarrow> P (get_field d n) \<Longrightarrow> (\<And>v. P v \<Longrightarrow> acceptable 32 10000 1 v)
    \<Longrightarrow> acceptable 32 10000 1 (get_field d n)"
  using get_field_absent [of d n] by (cases "get_field d n = PNone"; auto simp: optional_def)+

lemma submission_spec_field_acceptable:
  assumes "submission_spec d" and "skey n \<in> set ENQUEUE_OPTION_NAMES"
  shows "acceptable 32 10000 1 (get_field d n)"
proof -
  have names: "n \<in> {''id'', ''submission_id'', ''delay'', ''delay_ms'', ''run_at'', ''retries'', ''timeout'',
      ''timeout_ms'', ''backoff'', ''queue'', ''durability''}"
    using assms(2) by (simp only: ENQUEUE_OPTION_NAMES_def set_simps insert_iff pyval.inject str_inject empty_iff)
  note s = assms(1) [unfolded submission_spec_def]
  show ?thesis
    using names s option_value_acceptable
    apply (simp only: insert_iff empty_iff)
    apply (elim disjE FalseE; simp only:)
    apply (rule optional_acceptable(1) [of d _ job_id_value]; blast)
    apply (rule optional_acceptable(1) [of d _ "text_value 128"]; blast)
    apply (rule optional_acceptable(1) [of d _ "seconds_in_range 0 MAX_TIME"]; blast)
    apply (rule optional_acceptable(1) [of d _ "int_in_range 0 MAX_TIME"]; blast)
    apply (rule optional_acceptable(1) [of d _ "int_in_range 0 MAX_TIME"]; blast)
    apply (rule optional_acceptable(2) [of d _ "int_in_range 0 65534"]; blast)
    apply (rule optional_acceptable(1) [of d _ "seconds_in_range 1 86400000"]; blast)
    apply (rule optional_acceptable(1) [of d _ "int_in_range 1 86400000"]; blast)
    apply (rule optional_acceptable(1) [of d _ "\<lambda>v. v = skey ''exponential''"]; force)
    apply (rule optional_acceptable(2) [of d _ "text_value 255"]; blast)
    apply (rule optional_acceptable(1) [of d _ "\<lambda>v. v = skey ''persistent'' \<or> v = skey ''volatile''"]; force)
    done
qed

lemma submission_spec_acceptable:
  assumes "submission_spec d" and "dict_ok d"
  shows "acceptable 32 10000 0 (PDict d)"
proof -
  have keys: "set (dkeys d) \<subseteq> set ENQUEUE_OPTION_NAMES"
    using assms(1) unfolding submission_spec_def by blast
  have "length d = card (set (dkeys d))" using assms(2) by (metis dict_ok_def distinct_card length_map)
  also have "\<dots> \<le> card (set ENQUEUE_OPTION_NAMES)" using keys by (intro card_mono) simp_all
  also have "\<dots> \<le> 11" using card_length [of ENQUEUE_OPTION_NAMES] by (simp add: ENQUEUE_OPTION_NAMES_def)
  finally have "length d \<le> 10000" by simp
  moreover have "\<exists>n. fst p = skey n \<and> acceptable 32 10000 1 (snd p)" if "p \<in> set d" for p
  proof -
    from that keys have k: "fst p \<in> set ENQUEUE_OPTION_NAMES" by auto
    then obtain n where n: "fst p = skey n" by (auto simp: ENQUEUE_OPTION_NAMES_def)
    have "dget d (fst p) = Some (snd p)" using assms(2) that by (simp add: dict_ok_def)
    then have "get_field d n = snd p" by (simp add: get_field_def n)
    then show ?thesis using submission_spec_field_acceptable [OF assms(1), of n] k n by auto
  qed
  ultimately show ?thesis by fastforce
qed

lemma job_arguments_exact:
  assumes "pyval_wf args"
  shows "job_arguments args =
     (if args = PNone then Inr (PDict [])
      else if is_dict args \<and> acceptable 32 10000 0 args then Inr args else Inl ValidationError)"
  using assms by (auto simp: job_arguments_def ensure_def normalize_json_exact)

lemma dict_ok_merged:
  assumes "dict_ok options" and "dict_ok keywords" and "set (dkeys options) \<inter> set (dkeys keywords) = {}"
    and "durability \<noteq> PNone \<longrightarrow> skey ''durability'' \<notin> set (dkeys (options @ keywords))"
  shows "dict_ok (merged_options options keywords durability)"
  using assms by (auto simp: dict_ok_def merged_options_def)

lemma enqueue_payload_cases:
  assumes "pyval_wf args" and "pyval_wf (PDict options)" and "pyval_wf (PDict keywords)" and "pyval_wf durability"
  shows "enqueue_payload task_name args (PDict options) keywords durability =
    (if (args = PNone \<or> is_dict args \<and> acceptable 32 10000 0 args)
        \<and> set (dkeys options) \<inter> set (dkeys keywords) = {}
        \<and> (durability \<noteq> PNone \<longrightarrow> skey ''durability'' \<notin> set (dkeys (options @ keywords)))
        \<and> submission_spec (merged_options options keywords durability)
     then Inr [(skey ''task'', PStr task_name), (skey ''args'', if args = PNone then PDict [] else args),
               (skey ''options'', PDict (merged_options options keywords durability))]
     else Inl ValidationError)"
proof -
  let ?m = "merged_options options keywords durability"
  have ok: "dict_ok options" "dict_ok keywords" using assms(2,3) by (simp_all add: dict_ok_def)
  have norm: "normalize_json (PDict ?m) = Inr (PDict ?m)"
    if "set (dkeys options) \<inter> set (dkeys keywords) = {}"
      and "durability \<noteq> PNone \<longrightarrow> skey ''durability'' \<notin> set (dkeys (options @ keywords))"
      and "submission_spec ?m"
  proof -
    have d: "dict_ok ?m" using ok that(1,2) by (rule dict_ok_merged)
    moreover have "pyval_wf (PDict ?m)"
      using d assms(2-4) by (auto simp: merged_options_def dict_ok_def)
    ultimately show ?thesis
      using submission_spec_acceptable [OF that(3) d] by (simp add: normalize_json_exact del: acceptable.simps)
  qed
  show ?thesis
    unfolding enqueue_payload_def job_arguments_exact [OF assms(1)] merge_enqueue_options_exact [OF ok(2)]
    using norm by (auto simp del: acceptable.simps)
qed

section \<open>Properties\<close>

text \<open>C12: the option checks of a submission accept exactly the options the specification
  admits, whatever order they are tested in, and raise \<^verbatim>\<open>ValidationError\<close> for every
  other mapping: no option outside the eleven names; retries an int in 0..65534 and never null;
  backoff only \<^verbatim>\<open>exponential\<close>; durability one of the two modes; the id 32 lowercase hex
  digits, not all zero; queue and submission id non-empty NUL-free UTF-8 text of at most 255 and
  128 bytes; times in range; id excludes submission id, the three start times exclude each
  other, and so do the two timeouts.\<close>

theorem submission_options_exact:
  "validate_submission_options d = ensure (submission_spec d) ValidationError"
  by (rule validate_submission_options_exact)

text \<open>A number of seconds is accepted exactly when it converts to a number of
  milliseconds in the range: an int by exact multiplication, a finite non-negative float by
  rounding the double product to the nearest integer with halves going up (the subtraction in
  the test for the half is exact), provided the float does not exceed the double nearest to
  the upper limit in seconds. No conversion or multiplication overflows.\<close>

theorem milliseconds_round_half_up:
  assumes "0 \<le> lo" and "0 \<le> hi" and "hi < 2 ^ 53 * 1000 \<or> hi = MAX_TIME"
  shows "milliseconds v hi lo =
    (let accepted =
       (case v of
          PInt n \<Rightarrow> lo \<le> n * 1000 \<and> n * 1000 \<le> hi
        | PFloat x \<Rightarrow>
            isfinite x \<and> 0 \<le> float_value x \<and> float_value x \<le> double_of (of_int hi / 1000)
            \<and> \<lfloor>double_of (float_value x * 1000) + 1 / 2\<rfloor> \<in> {lo..hi}
        | _ \<Rightarrow> False)
     in if accepted then Inr () else Inl ValidationError)"
  using milliseconds_exact [OF assms, of v] by (cases v) (simp_all add: ensure_def)

theorem milliseconds_round_half_up_witness:
  "milliseconds (PFloat (Flt (1 / 16))) MAX_TIME 63 = Inr ()
   \<and> milliseconds (PFloat (Flt (1 / 16))) MAX_TIME 64 = Inl ValidationError"
proof -
  have "is_double (125 / 2)" by (rule is_double_pos [where m = 125 and e = "- 1"]) (simp_all add: ipow_def)
  then have "double_of (125 / 2) = 125 / 2" by (simp add: is_double_def double_of_def)
  moreover have "\<lfloor>63 :: rat\<rfloor> = 63" by simp
  ultimately show ?thesis
    using milliseconds_round_half_up [of 63 MAX_TIME "PFloat (Flt (1 / 16))"]
      milliseconds_round_half_up [of 64 MAX_TIME "PFloat (Flt (1 / 16))"] double_of_MAX_TIME
    by (simp add: MAX_TIME_def)
qed

text \<open>\<^verbatim>\<open>enqueue_payload\<close> never lets one source of options override another: the
  payload it builds holds the caller's arguments and the options mapping, the keywords and the
  durability side by side, unchanged and in this order, and it exists exactly when the
  arguments are an acceptable JSON object (or absent), the three sources are disjoint and the
  merged options satisfy the specification; every other call raises \<^verbatim>\<open>ValidationError\<close>.\<close>

theorem enqueue_payload_exact:
  assumes "pyval_wf args" and "pyval_wf (PDict options)" and "pyval_wf (PDict keywords)" and "pyval_wf durability"
  shows "enqueue_payload task_name args (PDict options) keywords durability =
    (if (args = PNone \<or> is_dict args \<and> acceptable 32 10000 0 args)
        \<and> set (dkeys options) \<inter> set (dkeys keywords) = {}
        \<and> (durability \<noteq> PNone \<longrightarrow> skey ''durability'' \<notin> set (dkeys (options @ keywords)))
        \<and> submission_spec (merged_options options keywords durability)
     then Inr [(skey ''task'', PStr task_name), (skey ''args'', if args = PNone then PDict [] else args),
               (skey ''options'', PDict (merged_options options keywords durability))]
     else Inl ValidationError)"
  using assms by (rule enqueue_payload_cases)

theorem enqueue_payload_exact_witness:
  "enqueue_payload (str ''send'') PNone (PDict [(skey ''retries'', PInt 3)]) [(skey ''delay_ms'', PInt 5)] PNone
   = Inr [(skey ''task'', skey ''send''), (skey ''args'', PDict []),
          (skey ''options'', PDict [(skey ''retries'', PInt 3), (skey ''delay_ms'', PInt 5)])]
   \<and> enqueue_payload (str ''send'') PNone (PDict [(skey ''retries'', PInt 3)]) [(skey ''retries'', PInt 4)] PNone
   = Inl ValidationError"
  using enqueue_payload_exact [of PNone "[(skey ''retries'', PInt 3)]" "[(skey ''delay_ms'', PInt 5)]" PNone "str ''send''"]
    enqueue_payload_exact [of PNone "[(skey ''retries'', PInt 3)]" "[(skey ''retries'', PInt 4)]" PNone "str ''send''"]
  by (simp add: merged_options_def submission_spec_def optional_def at_most_one_def get_field_def has_field_def
      ENQUEUE_OPTION_NAMES_def MAX_TIME_def)

end
