(* ===== verification/Responses.thy ===== *)
theory Responses
  imports Validation
begin

section \<open>Decoding replies and waiting for results (\<^verbatim>\<open>tay/responses.py\<close>, \<^verbatim>\<open>tay/results.py\<close>)\<close>

text \<open>
  The decoding of a server's reply that both transports share, and the bounded polling loop of
  \<^verbatim>\<open>wait_result\<close>.

  \<open>repr\<close> is Python's text of a value that is not a string, a parameter of the error
  decoding: it only ever reaches the message and the code of the exception.

  The polls of \<^verbatim>\<open>wait_result\<close> are a sequence: the outcome of the n-th
  \<^verbatim>\<open>handle.result()\<close> and the seconds it takes. The loop is a partial function in which
  \<open>None\<close> is not returning; that it returns is proved. A poll or a sleep that is still under
  way when the timeout expires is interrupted; one that ends exactly then counts as expired.
\<close>

subsection \<open>Definitions\<close>

definition py_str :: "(pyval \<Rightarrow> pystr) \<Rightarrow> pyval \<Rightarrow> pystr" where
  "py_str repr v = (case v of PStr s \<Rightarrow> s | _ \<Rightarrow> repr v)"

text \<open>\<^verbatim>\<open>a or b\<close>.\<close>

definition py_or :: "pyval \<Rightarrow> pyval \<Rightarrow> pyval" where
  "py_or a b = (if truthy a then a else b)"

definition server_error_from_payload :: "(pyval \<Rightarrow> pystr) \<Rightarrow> pyval \<Rightarrow> exn" where
  "server_error_from_payload repr payload =
     (case payload of
        PDict p \<Rightarrow>
          (let code = py_or (get_field p ''code'') (get_field p ''type'');
               message = py_or (get_field p ''message'') (get_field p ''reason'');
               message = (if truthy message then py_str repr message
                          else if truthy code then str ''Tay rejected the request ('' @ py_str repr code @ str '')''
                          else str ''Tay rejected the request'');
               text_code = (if truthy code then Some (py_str repr code) else None)
           in
           if code = skey ''task_cancelled'' then ServerExn JobCancelled message (Some (str ''task_cancelled'')) payload
           else if code = skey ''result_missing'' then ServerExn ResultMissing message (Some (str ''result_missing'')) payload
           else if truthy (get_field p ''remote_task'') \<or> code = skey ''task_failed'' \<or> code = skey ''TaskFailed''
           then ServerExn RemoteTaskError message text_code payload
           else ServerExn ServerError message text_code payload)
      | _ \<Rightarrow> ServerExn ServerError (py_str repr payload) None PNone)"

definition extract_identifier :: "pydict \<Rightarrow> string \<Rightarrow> string \<Rightarrow> pystr res" where
  "extract_identifier reply field nested_field =
     (let found = get_field reply field;
          found = (if found = PNone then
                     (case get_field reply nested_field of PDict nested \<Rightarrow> get_field nested ''id'' | _ \<Rightarrow> found)
                   else found)
      in case found of PStr s \<Rightarrow> if s \<noteq> [] then Inr s else Inl ProtocolError | _ \<Rightarrow> Inl ProtocolError)"

definition extract_job_durability :: "pydict \<Rightarrow> pystr option" where
  "extract_job_durability reply =
     (case get_field reply ''job'' of
        PDict job \<Rightarrow>
          (case get_field job ''durability'' of
             PStr s \<Rightarrow> if s \<in> set DURABILITY_MODES then Some s else None
           | _ \<Rightarrow> None)
      | _ \<Rightarrow> None)"

definition extract_result :: "(pyval \<Rightarrow> pystr) \<Rightarrow> pydict \<Rightarrow> pyval res" where
  "extract_result repr reply =
     (if truthy (get_field reply ''error'') then Inl (server_error_from_payload repr (get_field reply ''error''))
      else rbind (ensure (has_field reply ''result'') ProtocolError) (\<lambda>_. Inr (get_field reply ''result'')))"

text \<open>The loop of \<^verbatim>\<open>wait_result\<close>, started at poll \<open>n\<close> after \<open>elapsed\<close> seconds.\<close>

type_synonym polls = "nat \<Rightarrow> pyval res \<times> rat"

fun not_ready :: "'a res \<Rightarrow> bool" where
  "not_ready (Inl (ServerExn _ _ code _)) = (code = Some (str ''result_not_ready''))"
| "not_ready _ = False"

partial_function (option) wait_loop :: "polls \<Rightarrow> rat \<Rightarrow> rat \<Rightarrow> nat \<Rightarrow> rat \<Rightarrow> pyval res option" where
  "wait_loop polls timeout interval n elapsed =
     (let done_at = elapsed + snd (polls n) in
      if timeout \<le> done_at then Some (Inl TimeoutError)
      else if \<not> not_ready (fst (polls n)) then Some (fst (polls n))
      else if timeout \<le> done_at + interval then Some (Inl TimeoutError)
      else wait_loop polls timeout interval (Suc n) (done_at + interval))"

definition wait_result :: "polls \<Rightarrow> pyval \<Rightarrow> pyval \<Rightarrow> pyval res option" where
  "wait_result polls timeout poll_interval =
     (case positive_finite timeout of
        Inl e \<Rightarrow> Some (Inl e)
      | Inr t \<Rightarrow>
          (case positive_finite poll_interval of
             Inl e \<Rightarrow> Some (Inl e)
           | Inr p \<Rightarrow> wait_loop polls (float_value t) (float_value p) 0 0))"

text \<open>When the n-th poll is over.\<close>

fun poll_ends :: "polls \<Rightarrow> rat \<Rightarrow> nat \<Rightarrow> rat" where
  "poll_ends polls interval 0 = snd (polls 0)"
| "poll_ends polls interval (Suc n) = poll_ends polls interval n + interval + snd (polls (Suc n))"

subsection \<open>Replies\<close>

lemma server_error_is_ServerError: "is_ServerError (server_error_from_payload repr payload)"
  by (cases payload) (simp_all add: server_error_from_payload_def Let_def)

lemma server_error_not_ready:
  "not_ready (Inl (server_error_from_payload repr (PDict p))) \<longleftrightarrow>
     (let code = py_or (get_field p ''code'') (get_field p ''type'') in
      truthy code \<and> py_str repr code = str ''result_not_ready'')"
  by (auto simp: server_error_from_payload_def Let_def py_str_def)

lemma extract_identifier_Inr:
  "extract_identifier reply field nested = Inr s \<Longrightarrow> s \<noteq> []"
  by (auto simp: extract_identifier_def Let_def split: pyval.splits if_splits)

lemma extract_identifier_Inl: "extract_identifier reply field nested = Inl e \<Longrightarrow> e = ProtocolError"
  by (auto simp: extract_identifier_def Let_def split: pyval.splits if_splits)

lemma extract_result_Inr:
  "extract_result repr reply = Inr v \<longleftrightarrow>
     \<not> truthy (get_field reply ''error'') \<and> dget reply (skey ''result'') = Some v"
  by (auto simp: extract_result_def rbind_eq_Inr has_field_def get_field_def)

lemma extract_result_Inl:
  "extract_result repr reply = Inl e \<Longrightarrow> is_ServerError e \<or> e = ProtocolError"
  using server_error_is_ServerError by (auto simp: extract_result_def rbind_eq_Inl split: if_splits)

lemma positive_finite_cases:
  "(\<exists>x. positive_finite v = Inr x \<and> isfinite x \<and> 0 < float_value x) \<or> positive_finite v = Inl ValidationError"
proof (cases v)
  case (PInt n)
  show ?thesis
  proof (cases "float_of_int n")
    case (Inl e)
    then have "e = OverflowError" by (auto simp: float_of_int_def finite_or_overflow_def split: if_splits)
    with PInt Inl show ?thesis by (simp add: positive_finite_def)
  next
    case (Inr x)
    with PInt show ?thesis by (cases x) (auto simp: positive_finite_def num_le_def not_le)
  qed
next
  case (PFloat x)
  then show ?thesis by (cases x) (auto simp: positive_finite_def num_le_def not_le)
qed (simp_all add: positive_finite_def)

subsection \<open>Waiting\<close>

definition poll_starts :: "polls \<Rightarrow> rat \<Rightarrow> nat \<Rightarrow> rat" where
  "poll_starts polls interval n = poll_ends polls interval n - snd (polls n)"

lemma poll_starts_0 [simp]: "poll_starts polls interval 0 = 0"
  by (simp add: poll_starts_def)

lemma poll_starts_Suc [simp]: "poll_starts polls interval (Suc n) = poll_ends polls interval n + interval"
  by (simp add: poll_starts_def)

text \<open>Whether poll \<open>k\<close> is the first one that does not say the result is not ready.\<close>

definition first_final :: "polls \<Rightarrow> nat \<Rightarrow> bool" where
  "first_final polls k \<longleftrightarrow> (\<forall>i<k. not_ready (fst (polls i))) \<and> \<not> not_ready (fst (polls k))"

lemma first_final_unique: "first_final polls k \<Longrightarrow> first_final polls l \<Longrightarrow> k = l"
  unfolding first_final_def by (metis linorder_neqE_nat)

lemma wait_loop_from:
  assumes "0 < interval" and "\<And>n. 0 \<le> snd (polls n)" and "\<forall>i<n. not_ready (fst (polls i))"
  shows "\<exists>r. wait_loop polls timeout interval n (poll_starts polls interval n) = Some r
    \<and> (r = Inl TimeoutError \<or>
       (\<exists>k. first_final polls k \<and> poll_ends polls interval k < timeout \<and> r = fst (polls k)))"
  using assms(3)
proof (induction "nat \<lceil>(timeout - poll_starts polls interval n) / interval\<rceil>" arbitrary: n rule: less_induct)
  case less
  define done_at where "done_at = poll_ends polls interval n"
  have start: "done_at = poll_starts polls interval n + snd (polls n)" by (simp add: poll_starts_def done_at_def)
  show ?case
  proof (cases "timeout \<le> done_at \<or> \<not> not_ready (fst (polls n)) \<or> timeout \<le> done_at + interval")
    case True
    with less.prems show ?thesis
      by (subst wait_loop.simps) (auto simp: Let_def start [symmetric] done_at_def first_final_def not_le)
  next
    case False
    have e: "poll_starts polls interval n + interval \<le> done_at + interval" using assms(2) by (simp add: start)
    have pos: "0 < (timeout - poll_starts polls interval n) / interval"
      using False e assms(1) by (simp add: zero_less_divide_iff)
    have "(timeout - (done_at + interval)) / interval \<le> (timeout - poll_starts polls interval n) / interval - 1"
      using e assms(1) by (simp add: field_simps)
    then have "\<lceil>(timeout - (done_at + interval)) / interval\<rceil>
        < \<lceil>(timeout - poll_starts polls interval n) / interval\<rceil>" by linarith
    then have "nat \<lceil>(timeout - (done_at + interval)) / interval\<rceil>
        < nat \<lceil>(timeout - poll_starts polls interval n) / interval\<rceil>"
      using pos by (simp add: nat_less_eq_zless)
    moreover have "\<forall>i<Suc n. not_ready (fst (polls i))" using False less.prems by (auto simp: less_Suc_eq)
    ultimately have "\<exists>r. wait_loop polls timeout interval (Suc n) (done_at + interval) = Some r
      \<and> (r = Inl TimeoutError \<or>
         (\<exists>k. first_final polls k \<and> poll_ends polls interval k < timeout \<and> r = fst (polls k)))"
      using less.hyps [of "Suc n"] by (simp add: done_at_def)
    moreover have "wait_loop polls timeout interval n (poll_starts polls interval n)
        = wait_loop polls timeout interval (Suc n) (done_at + interval)"
      using False by (subst wait_loop.simps) (simp add: Let_def start [symmetric])
    ultimately show ?thesis by simp
  qed
qed

lemma poll_ends_mono:
  assumes "0 < interval" and "\<And>n. 0 \<le> snd (polls n)"
  shows "k < l \<Longrightarrow> poll_ends polls interval k + interval \<le> poll_ends polls interval l"
proof (induction l)
  case (Suc l)
  have "0 \<le> snd (polls (Suc l))" by (rule assms(2))
  with Suc assms(1) show ?case by (cases "k = l") (simp_all add: less_Suc_eq)
qed simp

lemma wait_loop_reaches:
  assumes "0 < interval" and "\<And>n. 0 \<le> snd (polls n)" and "poll_ends polls interval k < timeout"
  shows "n \<le> k \<Longrightarrow> \<forall>i<n. not_ready (fst (polls i)) \<Longrightarrow>
    wait_loop polls timeout interval 0 0 = wait_loop polls timeout interval n (poll_starts polls interval n)"
proof (induction n)
  case (Suc n)
  have "poll_ends polls interval n + interval \<le> poll_ends polls interval k"
    using Suc.prems(1) assms by (intro poll_ends_mono) simp_all
  with assms(1,3) have lt: "poll_ends polls interval n + interval < timeout" by simp
  have "wait_loop polls timeout interval n (poll_starts polls interval n)
      = wait_loop polls timeout interval (Suc n) (poll_starts polls interval (Suc n))"
    using Suc.prems(2) lt assms(1) by (subst wait_loop.simps) (simp add: Let_def poll_starts_def)
  with Suc show ?case by simp
qed simp

lemma wait_loop_final:
  assumes "0 < interval" and "\<And>n. 0 \<le> snd (polls n)" and "first_final polls k"
    and "poll_ends polls interval k < timeout"
  shows "wait_loop polls timeout interval 0 0 = Some (fst (polls k))"
proof -
  have "wait_loop polls timeout interval k (poll_starts polls interval k) = Some (fst (polls k))"
    using assms(3,4) by (subst wait_loop.simps) (simp add: Let_def poll_starts_def first_final_def)
  with wait_loop_reaches [OF assms(1,2,4), of k] assms(3) show ?thesis by (simp add: first_final_def)
qed

section \<open>Properties\<close>

text \<open>C28: waiting for a result ends, whatever the server answers. With a positive finite
  timeout and poll interval, the call returns or raises the outcome of the first poll that is
  not a \<^verbatim>\<open>result_not_ready\<close> error if that poll is over before the timeout, and raises
  \<^verbatim>\<open>TimeoutError\<close> in every other case, in particular when no poll is ever final.\<close>

theorem wait_result_bounded:
  assumes "positive_finite timeout = Inr t" and "positive_finite poll_interval = Inr p"
    and "\<And>n. 0 \<le> snd (polls n)"
  shows "wait_result polls timeout poll_interval =
    Some (if \<exists>k. first_final polls k \<and> poll_ends polls (float_value p) k < float_value t
          then fst (polls (LEAST k. \<not> not_ready (fst (polls k)))) else Inl TimeoutError)"
proof -
  have pos: "0 < float_value p"
    using positive_finite_cases [of poll_interval] assms(2) by auto
  have w: "wait_result polls timeout poll_interval = wait_loop polls (float_value t) (float_value p) 0 0"
    by (simp add: wait_result_def assms(1,2))
  show ?thesis
  proof (cases "\<exists>k. first_final polls k \<and> poll_ends polls (float_value p) k < float_value t")
    case True
    then obtain k where k: "first_final polls k" "poll_ends polls (float_value p) k < float_value t" by blast
    then have "(LEAST k. \<not> not_ready (fst (polls k))) = k"
      unfolding first_final_def by (intro Least_equality) (auto simp: not_less [symmetric])
    with True wait_loop_final [OF pos assms(3) k] show ?thesis by (simp add: w)
  next
    case False
    with wait_loop_from [where polls = polls and n = 0 and timeout = "float_value t", OF pos assms(3)] show ?thesis by (auto simp: w)
  qed
qed

theorem wait_result_bounded_witness:
  "wait_result (\<lambda>n. (if n = 0 then Inl (ServerExn ServerError [] (Some (str ''result_not_ready'')) PNone)
                   else Inr (PInt 7), 1 / 4)) (PFloat (Flt 2)) (PFloat (Flt 1))
   = Some (Inr (PInt 7))"
proof -
  let ?polls = "\<lambda>n::nat. (if n = 0 then Inl (ServerExn ServerError [] (Some (str ''result_not_ready'')) PNone)
                   else Inr (PInt 7), 1 / 4 :: rat)"
  have f: "first_final ?polls 1" by (simp add: first_final_def)
  have e: "poll_ends ?polls 1 1 < 2" by simp
  have l: "(LEAST k. \<not> not_ready (fst (?polls k))) = 1" by (rule Least_equality) (auto split: if_splits)
  have pf: "positive_finite (PFloat (Flt 2)) = Inr (Flt 2)" "positive_finite (PFloat (Flt 1)) = Inr (Flt 1)"
    by (simp_all add: positive_finite_def num_le_def)
  show ?thesis
    using wait_result_bounded [OF pf, of ?polls] f e unfolding l by auto
qed

end
