(* ===== verification/Schedules.thy ===== *)
theory Schedules
  imports "HOL-Library.List_Lexorder" Responses
begin

section \<open>Schedules (\<^verbatim>\<open>tay/schedules.py\<close>)\<close>

text \<open>
  Validation of schedule declarations and the transport-neutral \<^verbatim>\<open>Scheduling\<close> API. The
  methods a transport overrides (\<^verbatim>\<open>_schedule_request\<close>, \<^verbatim>\<open>_schedule_task_name\<close>,
  \<^verbatim>\<open>_retain_schedule\<close>, the \<^verbatim>\<open>mode\<close> attribute) and the attribute
  \<^verbatim>\<open>_withdrawn_schedules\<close> are the fields of a record \<open>hooks\<close> over an arbitrary object
  state, so that both transports are instances of the same definitions; a request changes the
  state and yields a reply or an exception. Listing follows the server's cursors and may run
  forever, so it is a partial function; that it returns for a server with finitely many pages
  is proved.

  The regular expression \<^verbatim>\<open>_TIMEZONE\<close> is a recogniser; its \<^verbatim>\<open>\d\<close> is Python's, the
  decimal digits of every script (the blocks of Unicode 14, which Python 3.11 has).
\<close>

subsection \<open>Text classes of the Python library\<close>

text \<open>\<^verbatim>\<open>str.isspace\<close> for one character; \<^verbatim>\<open>s.strip()\<close> is empty when all are.\<close>

definition is_space :: "codepoint \<Rightarrow> bool" where
  "is_space c = ((9 \<le> c \<and> c \<le> 13) \<or> (28 \<le> c \<and> c \<le> 32) \<or> (8192 \<le> c \<and> c \<le> 8202) \<or>
     c \<in> {133, 160, 5760, 8232, 8233, 8239, 8287, 12288})"

definition strip_empty :: "pystr \<Rightarrow> bool" where
  "strip_empty s = list_all is_space s"

definition decimal_zeros :: "codepoint list" where
  "decimal_zeros =
     [48, 1632, 1776, 1984, 2406, 2534, 2662, 2790, 2918, 3046, 3174, 3302, 3430, 3558, 3664, 3792,
      3872, 4160, 4240, 6112, 6160, 6470, 6608, 6784, 6800, 6992, 7088, 7232, 7248, 42528, 43216,
      43264, 43472, 43504, 43600, 44016, 65296, 66720, 68912, 69734, 69872, 69942, 70096, 70384,
      70736, 70864, 71248, 71360, 71472, 71904, 72016, 72784, 73040, 73120, 92768, 92864, 93008,
      120782, 120792, 120802, 120812, 120822, 123200, 123632, 125264, 130032]"

definition is_decimal :: "codepoint \<Rightarrow> bool" where
  "is_decimal c = list_ex (\<lambda>z. z \<le> c \<and> c < z + 10) decimal_zeros"

text \<open>\<^verbatim>\<open>(?:[01]\d|2[0-3])\<close>, \<^verbatim>\<open>[0-5]\d\<close> and the whole pattern.\<close>

definition hour_digits :: "codepoint \<Rightarrow> codepoint \<Rightarrow> bool" where
  "hour_digits a b = ((a \<in> {48, 49} \<and> is_decimal b) \<or> (a = 50 \<and> 48 \<le> b \<and> b \<le> 51))"

definition minute_digits :: "codepoint \<Rightarrow> codepoint \<Rightarrow> bool" where
  "minute_digits a b = (48 \<le> a \<and> a \<le> 53 \<and> is_decimal b)"

definition timezone_match :: "pystr \<Rightarrow> bool" where
  "timezone_match s =
     (s = str ''UTC'' \<or> s = str ''Z'' \<or>
      (case s of
         [sign, h1, h2] \<Rightarrow> sign \<in> {43, 45} \<and> hour_digits h1 h2
       | [sign, h1, h2, colon, m1, m2] \<Rightarrow>
           sign \<in> {43, 45} \<and> hour_digits h1 h2 \<and> colon = 58 \<and> minute_digits m1 m2
       | _ \<Rightarrow> False))"

subsection \<open>Validation\<close>

definition validate_cron :: "pyval \<Rightarrow> unit res" where
  "validate_cron cron =
     (case cron of
        PStr s \<Rightarrow>
          if strip_empty s then Inl ValidationError
          else (case utf8_size s of
                  Inl _ \<Rightarrow> Inl ValidationError
                | Inr n \<Rightarrow> ensure (n \<le> 128) ValidationError)
      | _ \<Rightarrow> Inl ValidationError)"

definition every_units :: "(pyval, int) dict" where
  "every_units = [(skey ''seconds'', 1000), (skey ''minutes'', 60000), (skey ''hours'', 3600000),
     (skey ''days'', 86400000)]"

text \<open>\<^verbatim>\<open>amount * units[unit]\<close>.\<close>

definition scaled_amount :: "pyval \<Rightarrow> int \<Rightarrow> pyval res" where
  "scaled_amount amount unit =
     (case amount of
        PInt n \<Rightarrow> Inr (PInt (n * unit))
      | PFloat x \<Rightarrow> rbind (float_of_int unit) (\<lambda>u. Inr (PFloat (float_mul x u)))
      | _ \<Rightarrow> Inl TypeError)"

definition validate_every :: "pyval \<Rightarrow> pydict res" where
  "validate_every value =
     (case value of
        PDict d \<Rightarrow>
          rbind (ensure (\<forall>k\<in>set (dkeys d). k \<in> set (dkeys every_units)) ValidationError) (\<lambda>_.
          case filter (\<lambda>p. snd p \<noteq> PNone) d of
            [(unit, amount)] \<Rightarrow>
              rbind (ensure (is_number amount \<and> \<not> num_le amount (PInt 0)) ValidationError) (\<lambda>_.
              rbind (ensure (\<not> (case amount of PFloat x \<Rightarrow> \<not> isfinite x | _ \<Rightarrow> False)) ValidationError) (\<lambda>_.
              rbind (scaled_amount amount (the (dget every_units unit))) (\<lambda>scaled.
              rbind (ensure (num_le (PFloat (Flt (1 / 2))) scaled \<and> num_le scaled (PInt MAX_TIME))
                ValidationError) (\<lambda>_.
              Inr [(unit, amount)]))))
          | _ \<Rightarrow> Inl ValidationError)
      | _ \<Rightarrow> Inl ValidationError)"

definition validate_schedule_options ::
  "pyval \<Rightarrow> pyval \<Rightarrow> pyval \<Rightarrow> pyval \<Rightarrow> pyval \<Rightarrow> pyval \<Rightarrow> unit res" where
  "validate_schedule_options declaration_id timezone catch_up overlap delay start_at =
     rbind (if declaration_id \<noteq> PNone then rbind (identifier_check declaration_id) (\<lambda>_. Inr ()) else Inr ()) (\<lambda>_.
     rbind (ensure (case timezone of PStr s \<Rightarrow> timezone_match s | _ \<Rightarrow> False) ValidationError) (\<lambda>_.
     rbind (ensure (catch_up = skey ''latest'' \<or> catch_up = skey ''all'') ValidationError) (\<lambda>_.
     rbind (ensure (overlap = PNone \<or> overlap \<in> {skey ''allow'', skey ''skip'', skey ''queue''}) ValidationError) (\<lambda>_.
     rbind (if delay \<noteq> PNone then
              rbind (ensure (is_number delay \<and> \<not> num_less delay (PInt 0)) ValidationError) (\<lambda>_.
              rbind (ensure (\<not> (case delay of PFloat x \<Rightarrow> \<not> isfinite x | _ \<Rightarrow> False)) ValidationError) (\<lambda>_.
              rbind (int_truediv MAX_TIME 1000) (\<lambda>limit.
              ensure (\<not> num_less (PFloat limit) delay) ValidationError)))
            else Inr ()) (\<lambda>_.
     rbind (ensure (start_at = PNone \<or> int_in_range 0 MAX_TIME start_at) ValidationError) (\<lambda>_.
     ensure (delay = PNone \<or> start_at = PNone) ValidationError))))))"

subsection \<open>The scheduling API\<close>

text \<open>A task argument: anything that is not a \<^verbatim>\<open>Task\<close>, or a \<^verbatim>\<open>Task\<close> with the
  identity of the client that created it and its name.\<close>

datatype task_ref = Named pyval | Declared nat pystr

record 's hooks =
  schedule_request :: "string \<Rightarrow> pydict \<Rightarrow> 's \<Rightarrow> pydict res \<times> 's"
  schedule_task_name :: "'s \<Rightarrow> task_ref \<Rightarrow> pystr res"
  retain_schedule :: "pystr \<Rightarrow> pydict \<Rightarrow> 's \<Rightarrow> 's"
  forget_schedule :: "pystr \<Rightarrow> 's \<Rightarrow> 's"
  hook_mode :: "'s \<Rightarrow> string option"
  get_withdrawn :: "'s \<Rightarrow> pystr list"
  set_withdrawn :: "pystr list \<Rightarrow> 's \<Rightarrow> 's"

text \<open>The keyword arguments \<^verbatim>\<open>schedule\<close> and \<^verbatim>\<open>every\<close> have in common.\<close>

record schedule_call =
  sc_kwargs :: pyval
  sc_args :: pyval
  sc_declaration_id :: pyval
  sc_timezone :: pyval
  sc_catch_up :: pyval
  sc_overlap :: pyval
  sc_delay :: pyval
  sc_start_at :: pyval
  sc_options :: pydict

text \<open>\<^verbatim>\<open>Scheduling._schedule_task_name\<close>, which a transport may override.\<close>

definition default_schedule_task_name :: "task_ref \<Rightarrow> pystr res" where
  "default_schedule_task_name task =
     (case task of
        Declared _ name \<Rightarrow> validate_task_name (PStr name)
      | Named v \<Rightarrow> (case v of PStr s \<Rightarrow> validate_task_name v | _ \<Rightarrow> Inl AttributeError))"

definition check_schedule_mode :: "'s hooks \<Rightarrow> 's \<Rightarrow> unit res" where
  "check_schedule_mode h s = ensure (hook_mode h s \<noteq> Some ''worker'') ModeError"

definition schedule_payload :: "'s hooks \<Rightarrow> 's \<Rightarrow> task_ref \<Rightarrow> schedule_call \<Rightarrow> pydict res" where
  "schedule_payload h s task c =
     rbind (ensure (sc_kwargs c = PNone \<or> sc_args c = PNone) ValidationError) (\<lambda>_.
     rbind (validate_schedule_options (sc_declaration_id c) (sc_timezone c) (sc_catch_up c) (sc_overlap c)
       (sc_delay c) (sc_start_at c)) (\<lambda>_.
     rbind (schedule_task_name h s task) (\<lambda>name.
     rbind (job_arguments (if sc_kwargs c \<noteq> PNone then sc_kwargs c else sc_args c)) (\<lambda>arguments.
     rbind (merge_enqueue_options (PDict (sc_options c)) [] PNone) (\<lambda>merged.
     rbind (normalize_json (PDict merged)) (\<lambda>options.
     Inr ([(skey ''task'', PStr name), (skey ''args'', arguments), (skey ''catch_up'', sc_catch_up c),
           (skey ''options'', options)]
          @ filter (\<lambda>p. snd p \<noteq> PNone)
              [(skey ''declaration_id'', sc_declaration_id c), (skey ''overlap'', sc_overlap c),
               (skey ''delay'', sc_delay c), (skey ''start_at'', sc_start_at c)])))))))"

text \<open>The id of the \<^verbatim>\<open>ScheduleHandle\<close> is what is returned.\<close>

definition declare_schedule :: "'s hooks \<Rightarrow> pydict \<Rightarrow> 's \<Rightarrow> pystr res \<times> 's" where
  "declare_schedule h payload s =
     (case schedule_request h ''schedule'' payload s of
        (Inl e, s) \<Rightarrow> (Inl e, s)
      | (Inr reply, s) \<Rightarrow>
          (case extract_identifier reply ''schedule_id'' ''schedule'' of
             Inl e \<Rightarrow> (Inl e, s)
           | Inr schedule_id \<Rightarrow>
               (let s = set_withdrawn h (removeAll schedule_id (get_withdrawn h s)) s;
                    s = retain_schedule h schedule_id (dset payload (skey ''declaration_id'') (PStr schedule_id)) s
                in (Inr schedule_id, s))))"

definition schedule :: "'s hooks \<Rightarrow> task_ref \<Rightarrow> pyval \<Rightarrow> schedule_call \<Rightarrow> 's \<Rightarrow> pystr res \<times> 's" where
  "schedule h task cron c s =
     (case rbind (check_schedule_mode h s) (\<lambda>_. rbind (validate_cron cron) (\<lambda>_. schedule_payload h s task c)) of
        Inl e \<Rightarrow> (Inl e, s)
      | Inr payload \<Rightarrow>
          declare_schedule h (dset (dset payload (skey ''cron'') cron) (skey ''timezone'') (sc_timezone c)) s)"

text \<open>\<open>amounts\<close> are the keyword arguments seconds, minutes, hours and days.\<close>

definition every :: "'s hooks \<Rightarrow> task_ref \<Rightarrow> pydict \<Rightarrow> schedule_call \<Rightarrow> 's \<Rightarrow> pystr res \<times> 's" where
  "every h task amounts c s =
     (case rbind (check_schedule_mode h s) (\<lambda>_. rbind (validate_every (PDict amounts)) (\<lambda>interval.
             rbind (schedule_payload h s task (c\<lparr>sc_timezone := skey ''+00''\<rparr>)) (\<lambda>payload. Inr (interval, payload)))) of
        Inl e \<Rightarrow> (Inl e, s)
      | Inr (interval, payload) \<Rightarrow> declare_schedule h (dset payload (skey ''every'') (PDict interval)) s)"

text \<open>\<^verbatim>\<open>Scheduling._cancel_schedule\<close>; \<open>forget_schedule\<close> is what the socket client's
  override does before calling it, the identity elsewhere.\<close>

definition cancel_schedule :: "'s hooks \<Rightarrow> pyval \<Rightarrow> 's \<Rightarrow> pydict res \<times> 's" where
  "cancel_schedule h schedule_id s =
     (case identifier_check schedule_id of
        Inl e \<Rightarrow> (Inl e, s)
      | Inr sid \<Rightarrow>
          (let s = forget_schedule h sid s;
               s = set_withdrawn h (List.insert sid (get_withdrawn h s)) s
           in schedule_request h ''cancel_schedule'' [(skey ''schedule_id'', schedule_id)] s))"

definition get_schedule :: "'s hooks \<Rightarrow> pyval \<Rightarrow> 's \<Rightarrow> pydict res \<times> 's" where
  "get_schedule h schedule_id s =
     (case identifier_check schedule_id of
        Inl e \<Rightarrow> (Inl e, s)
      | Inr sid \<Rightarrow>
          (case schedule_request h ''schedule_status'' [(skey ''schedule_id'', schedule_id)] s of
             (Inl e, s) \<Rightarrow> (Inl e, s)
           | (Inr reply, s) \<Rightarrow>
               (case get_field reply ''schedule'' of PDict d \<Rightarrow> (Inr d, s) | _ \<Rightarrow> (Inl ProtocolError, s))))"

text \<open>\<^verbatim>\<open>ScheduleHandle.cancel\<close> and \<^verbatim>\<open>status\<close>.\<close>

definition handle_cancel :: "'s hooks \<Rightarrow> pystr \<Rightarrow> 's \<Rightarrow> pyval res \<times> 's" where
  "handle_cancel h schedule_id s =
     (case cancel_schedule h (PStr schedule_id) s of
        (Inl e, s) \<Rightarrow> (Inl e, s)
      | (Inr reply, s) \<Rightarrow> (Inr (get_default reply ''schedule'' (get_default reply ''status'' (PDict reply))), s))"

definition handle_status :: "'s hooks \<Rightarrow> pystr \<Rightarrow> 's \<Rightarrow> pydict res \<times> 's" where
  "handle_status h schedule_id s = get_schedule h (PStr schedule_id) s"

text \<open>One page of the listing: the schedules and the next cursor.\<close>

definition read_page :: "pydict \<Rightarrow> pystr option \<Rightarrow> (pyval list \<times> pystr option) res" where
  "read_page reply cursor =
     (case get_field reply ''schedules'' of
        PList items \<Rightarrow>
          if \<not> list_all is_dict items then Inl ProtocolError
          else (case get_field reply ''next_cursor'' of
                  PNone \<Rightarrow> Inr (items, None)
                | PStr next_cursor \<Rightarrow>
                    if next_cursor = [] \<or> (case cursor of None \<Rightarrow> False | Some c \<Rightarrow> next_cursor \<le> c)
                    then Inl ProtocolError else Inr (items, Some next_cursor)
                | _ \<Rightarrow> Inl ProtocolError)
      | _ \<Rightarrow> Inl ProtocolError)"

definition cursor_payload :: "pystr option \<Rightarrow> pydict" where
  "cursor_payload cursor = (case cursor of None \<Rightarrow> [] | Some c \<Rightarrow> [(skey ''cursor'', PStr c)])"

partial_function (option) schedules_loop ::
  "'s hooks \<Rightarrow> pyval list \<Rightarrow> pystr option \<Rightarrow> 's \<Rightarrow> (pyval list res \<times> 's) option" where
  "schedules_loop h collected cursor s =
     (case schedule_request h ''schedules'' (cursor_payload cursor) s of
        (Inl e, s') \<Rightarrow> Some (Inl e, s')
      | (Inr reply, s') \<Rightarrow>
          (case read_page reply cursor of
             Inl e \<Rightarrow> Some (Inl e, s')
           | Inr (items, None) \<Rightarrow> Some (Inr (collected @ items), s')
           | Inr (items, Some c) \<Rightarrow> schedules_loop h (collected @ items) (Some c) s'))"

definition schedules :: "'s hooks \<Rightarrow> 's \<Rightarrow> (pyval list res \<times> 's) option" where
  "schedules h s = schedules_loop h [] None s"

subsection \<open>What validation accepts\<close>

lemma every_units_values: "dget every_units k = Some n \<Longrightarrow> 0 < n \<and> n < 2 ^ 53"
  by (auto simp: every_units_def split: if_splits)

lemma scaled_amount_ok:
  assumes "is_number v" and "0 \<le> n" and "n < 2 ^ 53"
  obtains w where "scaled_amount v n = Inr w"
  using assms float_of_int_small [of n] by (cases v) (auto simp: scaled_amount_def)

text \<open>Which single amounts make an interval.\<close>

definition interval_ok :: "pyval \<Rightarrow> pyval \<Rightarrow> bool" where
  "interval_ok unit amount \<longleftrightarrow>
     is_number amount \<and> \<not> num_le amount (PInt 0) \<and> (case amount of PFloat x \<Rightarrow> isfinite x | _ \<Rightarrow> True) \<and>
     (\<exists>scaled. scaled_amount amount (the (dget every_units unit)) = Inr scaled \<and>
        num_le (PFloat (Flt (1 / 2))) scaled \<and> num_le scaled (PInt MAX_TIME))"

lemma validate_every_PDict:
  "validate_every (PDict d) =
     (if set (dkeys d) \<subseteq> set (dkeys every_units) then
        (case filter (\<lambda>p. snd p \<noteq> PNone) d of
           [(unit, amount)] \<Rightarrow> if interval_ok unit amount then Inr [(unit, amount)] else Inl ValidationError
         | _ \<Rightarrow> Inl ValidationError)
      else Inl ValidationError)"
proof (cases "set (dkeys d) \<subseteq> set (dkeys every_units)")
  case sub: True
  show ?thesis
  proof (cases "\<exists>unit amount. filter (\<lambda>p. snd p \<noteq> PNone) d = [(unit, amount)]")
    case True
    then obtain unit amount where f: "filter (\<lambda>p. snd p \<noteq> PNone) d = [(unit, amount)]" by blast
    then have "(unit, amount) \<in> set d" by (auto dest: filter_single)
    with sub have "unit \<in> set (dkeys every_units)" by force
    then obtain n where n: "dget every_units unit = Some n" by (auto simp: dkeys_iff_dget simp del: set_map)
    show ?thesis
    proof (cases "is_number amount")
      case num: True
      obtain w where "scaled_amount amount n = Inr w"
        using scaled_amount_ok [OF num, of n] every_units_values [OF n] by fastforce
      with sub f n num show ?thesis
        by (auto simp: validate_every_def interval_ok_def ensure_def split: pyval.splits)
    qed (use sub f in \<open>auto simp: validate_every_def interval_ok_def ensure_def\<close>)
  qed (use sub in \<open>auto simp: validate_every_def ensure_def split: list.splits\<close>)
qed (auto simp: validate_every_def ensure_def)

lemma validate_every_error: "validate_every v = Inl e \<Longrightarrow> e = ValidationError"
proof (cases v)
  case (PDict d)
  then show "validate_every v = Inl e \<Longrightarrow> e = ValidationError"
    by (auto simp: validate_every_PDict split: if_splits list.splits)
qed (auto simp: validate_every_def)

lemma validate_every_Inr:
  assumes "validate_every v = Inr d"
  obtains unit amount where "d = [(unit, amount)]" and "unit \<in> set (dkeys every_units)" and "amount \<noteq> PNone"
    and "interval_ok unit amount"
proof -
  obtain m where m: "v = PDict m" using assms by (cases v) (auto simp: validate_every_def)
  with assms obtain unit amount where f: "filter (\<lambda>p. snd p \<noteq> PNone) m = [(unit, amount)]"
    and d: "d = [(unit, amount)]" "set (dkeys m) \<subseteq> set (dkeys every_units)" "interval_ok unit amount"
    by (auto simp: validate_every_PDict split: if_splits list.splits)
  from f have "(unit, amount) \<in> set m" "amount \<noteq> PNone" by (auto dest: filter_single)
  with d that show thesis by force
qed

lemma validate_every_idem: "validate_every v = Inr d \<Longrightarrow> validate_every (PDict d) = Inr d"
  by (erule validate_every_Inr) (simp add: validate_every_PDict)

text \<open>A schedule's delay: the upper limit in seconds is rounded to a double.\<close>

fun schedule_delay_ok :: "pyval \<Rightarrow> bool" where
  "schedule_delay_ok (PInt n) = (0 \<le> n \<and> n \<le> 9223372036854776)"
| "schedule_delay_ok (PFloat x) = (isfinite x \<and> 0 \<le> float_value x \<and> float_value x \<le> 9223372036854776)"
| "schedule_delay_ok _ = False"

lemma schedule_delay_check:
  "rbind (ensure (is_number delay \<and> \<not> num_less delay (PInt 0)) ValidationError) (\<lambda>_.
   rbind (ensure (\<not> (case delay of PFloat x \<Rightarrow> \<not> isfinite x | _ \<Rightarrow> False)) ValidationError) (\<lambda>_.
   rbind (int_truediv MAX_TIME 1000) (\<lambda>limit.
   ensure (\<not> num_less (PFloat limit) delay) ValidationError))) = ensure (schedule_delay_ok delay) ValidationError"
proof -
  have l: "int_truediv MAX_TIME 1000 = Inr (Flt 9223372036854776)"
    using int_truediv_moderate [of MAX_TIME 1000] double_of_MAX_TIME by (simp add: MAX_TIME_def)
  have int_le: "(9223372036854776 :: rat) < of_int n \<longleftrightarrow> 9223372036854776 < n" for n
    by (metis of_int_less_iff of_int_numeral)
  show ?thesis
  proof (cases delay)
    case (PFloat x)
    then show ?thesis by (cases x) (auto simp: l num_less_def ensure_def)
  qed (auto simp: l num_less_def ensure_def int_le)
qed

definition schedule_options_spec :: "pyval \<Rightarrow> pyval \<Rightarrow> pyval \<Rightarrow> pyval \<Rightarrow> pyval \<Rightarrow> pyval \<Rightarrow> bool" where
  "schedule_options_spec declaration_id timezone catch_up overlap delay start_at \<longleftrightarrow>
     (declaration_id = PNone \<or> text_value 128 declaration_id)
     \<and> (\<exists>s. timezone = PStr s \<and> timezone_match s)
     \<and> catch_up \<in> {skey ''latest'', skey ''all''}
     \<and> overlap \<in> {PNone, skey ''allow'', skey ''skip'', skey ''queue''}
     \<and> (delay = PNone \<or> schedule_delay_ok delay)
     \<and> (start_at = PNone \<or> int_in_range 0 MAX_TIME start_at)
     \<and> (delay = PNone \<or> start_at = PNone)"

lemma validate_schedule_options_exact:
  "validate_schedule_options declaration_id timezone catch_up overlap delay start_at =
     ensure (schedule_options_spec declaration_id timezone catch_up overlap delay start_at) ValidationError"
proof -
  have id: "rbind (identifier_check v) (\<lambda>_. Inr ()) = ensure (text_value 128 v) ValidationError" for v
    by (simp add: identifier_check_exact)
  have tz: "(case timezone of PStr s \<Rightarrow> timezone_match s | _ \<Rightarrow> False) \<longleftrightarrow> (\<exists>s. timezone = PStr s \<and> timezone_match s)"
    by (cases timezone) simp_all
  show ?thesis
    unfolding validate_schedule_options_def id tz schedule_delay_check rbind_ensure_ensure if_ensure
      schedule_options_spec_def
    by (rule arg_cong [where f = "\<lambda>b. ensure b ValidationError"]) blast
qed


text \<open>The offsets a reader of the documentation expects.\<close>

definition two_digits :: "nat \<Rightarrow> pystr" where
  "two_digits n = [48 + n div 10, 48 + n mod 10]"

definition is_offset :: "pystr \<Rightarrow> bool" where
  "is_offset s \<longleftrightarrow> (\<exists>sign\<in>{43, 45}. \<exists>h<24. s = sign # two_digits h \<or>
     (\<exists>m<60. s = sign # two_digits h @ [58] @ two_digits m))"

lemma is_decimal_ascii: "c < 128 \<Longrightarrow> is_decimal c \<longleftrightarrow> 48 \<le> c \<and> c \<le> 57"
  by (auto simp: is_decimal_def decimal_zeros_def)

lemma two_digits_eq:
  "[a, b] = two_digits n \<and> n < 100 \<longleftrightarrow> 48 \<le> a \<and> a \<le> 57 \<and> 48 \<le> b \<and> b \<le> 57 \<and> n = 10 * (a - 48) + (b - 48)"
  (is "?l \<longleftrightarrow> ?r")
proof
  assume r: ?r
  define x y where "x = a - 48" and "y = b - 48"
  with r have "a = 48 + x" "b = 48 + y" "x \<le> 9" "y \<le> 9" "n = 10 * x + y" by auto
  then show ?l by (simp add: two_digits_def)
qed (auto simp: two_digits_def)

lemma hour_digits_ascii:
  assumes "b < 128"
  shows "hour_digits a b \<longleftrightarrow> (\<exists>h<24. [a, b] = two_digits h)"
proof -
  have "(\<exists>h<24. [a, b] = two_digits h) \<longleftrightarrow> (\<exists>h<24. [a, b] = two_digits h \<and> h < 100)" by fastforce
  also have "\<dots> \<longleftrightarrow> 48 \<le> a \<and> a \<le> 57 \<and> 48 \<le> b \<and> b \<le> 57 \<and> 10 * (a - 48) + (b - 48) < 24"
    unfolding two_digits_eq by blast
  also have "\<dots> \<longleftrightarrow> hour_digits a b"
    unfolding hour_digits_def is_decimal_ascii [OF assms] by auto
  finally show ?thesis by simp
qed

lemma minute_digits_ascii:
  assumes "b < 128"
  shows "minute_digits a b \<longleftrightarrow> (\<exists>m<60. [a, b] = two_digits m)"
proof -
  have "(\<exists>m<60. [a, b] = two_digits m) \<longleftrightarrow> (\<exists>m<60. [a, b] = two_digits m \<and> m < 100)" by fastforce
  also have "\<dots> \<longleftrightarrow> 48 \<le> a \<and> a \<le> 57 \<and> 48 \<le> b \<and> b \<le> 57 \<and> 10 * (a - 48) + (b - 48) < 60"
    unfolding two_digits_eq by blast
  also have "\<dots> \<longleftrightarrow> minute_digits a b"
    unfolding minute_digits_def is_decimal_ascii [OF assms] by auto
  finally show ?thesis by simp
qed

lemma timezone_match_ascii:
  assumes "list_all (\<lambda>c. c < 128) s"
  shows "timezone_match s \<longleftrightarrow> s = str ''UTC'' \<or> s = str ''Z'' \<or> is_offset s"
proof -
  have off: "is_offset s \<longleftrightarrow>
     (case s of
         [sign, h1, h2] \<Rightarrow> sign \<in> {43, 45} \<and> hour_digits h1 h2
       | [sign, h1, h2, colon, m1, m2] \<Rightarrow>
           sign \<in> {43, 45} \<and> hour_digits h1 h2 \<and> colon = 58 \<and> minute_digits m1 m2
       | _ \<Rightarrow> False)"
    using assms unfolding is_offset_def
    by (auto simp: hour_digits_ascii minute_digits_ascii two_digits_def split: list.splits) blast+
  show ?thesis unfolding off timezone_match_def by (rule refl)
qed


subsection \<open>Only valid declarations are sent\<close>

definition declaration_spec :: "pydict \<Rightarrow> bool" where
  "declaration_spec p \<longleftrightarrow>
     (\<exists>name. get_field p ''task'' = PStr name)
     \<and> (\<exists>a. get_field p ''args'' = PDict a \<and> acceptable 32 10000 0 (PDict a))
     \<and> (\<exists>options. get_field p ''options'' = PDict options \<and> submission_spec options)
     \<and> get_field p ''catch_up'' \<in> {skey ''latest'', skey ''all''}
     \<and> optional p ''declaration_id'' (text_value 128)
     \<and> optional p ''overlap'' (\<lambda>v. v \<in> {skey ''allow'', skey ''skip'', skey ''queue''})
     \<and> optional p ''delay'' schedule_delay_ok
     \<and> optional p ''start_at'' (int_in_range 0 MAX_TIME)
     \<and> at_most_one p [''delay'', ''start_at'']"

lemma get_field_append:
  "get_field (d @ e) n = (if skey n \<in> set (dkeys d) then get_field d n else get_field e n)"
  by (auto simp: get_field_def map_add_def dkeys_iff_dget simp del: set_map split: option.splits)

lemma get_field_filter_None:
  "distinct (dkeys d) \<Longrightarrow> get_field (filter (\<lambda>p. snd p \<noteq> PNone) d) n = get_field d n"
proof (induction d)
  case (Cons p d)
  obtain k v where p: "p = (k, v)" by fastforce
  with Cons.prems have "k = skey n \<Longrightarrow> get_field d n = PNone"
    using dkeys_iff_dget [of k d] by (auto simp: get_field_def simp del: set_map split: option.splits)
  with Cons p show ?case by (auto simp: get_field_def)
qed simp

lemma schedule_payload_spec:
  assumes "schedule_payload h s task c = Inr payload"
    and "pyval_wf (sc_kwargs c)" and "pyval_wf (sc_args c)" and "pyval_wf (PDict (sc_options c))"
  shows "declaration_spec payload"
    and "n \<in> {''cron'', ''timezone'', ''every''} \<Longrightarrow> skey n \<notin> set (dkeys payload)"
    and "\<exists>tz. sc_timezone c = PStr tz \<and> timezone_match tz"
proof -
  let ?args = "if sc_kwargs c \<noteq> PNone then sc_kwargs c else sc_args c"
  let ?tail = "[(skey ''declaration_id'', sc_declaration_id c), (skey ''overlap'', sc_overlap c),
               (skey ''delay'', sc_delay c), (skey ''start_at'', sc_start_at c)]"
  from assms(1) obtain name arguments merged options where
    spec: "schedule_options_spec (sc_declaration_id c) (sc_timezone c) (sc_catch_up c) (sc_overlap c)
       (sc_delay c) (sc_start_at c)"
    and args: "job_arguments ?args = Inr arguments"
    and merged: "merge_enqueue_options (PDict (sc_options c)) [] PNone = Inr merged"
    and options: "normalize_json (PDict merged) = Inr options"
    and p: "payload = [(skey ''task'', PStr name), (skey ''args'', arguments), (skey ''catch_up'', sc_catch_up c),
           (skey ''options'', options)] @ filter (\<lambda>p. snd p \<noteq> PNone) ?tail"
    unfolding schedule_payload_def validate_schedule_options_exact by (auto simp only: rbind_eq_Inr ensure_eq_Inr sum.inject)
  have wf: "pyval_wf ?args" using assms(2,3) by simp
  have a: "\<exists>a. arguments = PDict a \<and> acceptable 32 10000 0 (PDict a)"
    using args unfolding job_arguments_exact [OF wf]
    by (auto simp del: acceptable.simps split: if_splits elim!: is_dictE) (simp_all)
  have m: "merged = sc_options c" "submission_spec merged"
    using merged by (auto simp: merge_enqueue_options_exact merged_options_def split: if_splits)
  have o: "options = PDict merged"
    using options assms(4) normalize_json_exact [of "PDict merged"] m(1) by (simp del: acceptable.simps split: if_splits)
  have tail: "get_field (filter (\<lambda>p. snd p \<noteq> PNone) ?tail) n = get_field ?tail n" for n
    by (rule get_field_filter_None) simp
  have f: "get_field payload ''task'' = PStr name" "get_field payload ''args'' = arguments"
    "get_field payload ''catch_up'' = sc_catch_up c" "get_field payload ''options'' = options"
    "get_field payload ''declaration_id'' = sc_declaration_id c" "get_field payload ''overlap'' = sc_overlap c"
    "get_field payload ''delay'' = sc_delay c" "get_field payload ''start_at'' = sc_start_at c"
    unfolding p get_field_append tail by (simp_all add: get_field_def)
  show "declaration_spec payload"
    using a m o spec unfolding declaration_spec_def f optional_def at_most_one_pair schedule_options_spec_def
    by blast
  show "n \<in> {''cron'', ''timezone'', ''every''} \<Longrightarrow> skey n \<notin> set (dkeys payload)"
    unfolding p by auto
  show "\<exists>tz. sc_timezone c = PStr tz \<and> timezone_match tz"
    using spec by (simp add: schedule_options_spec_def)
qed

lemma declaration_spec_dset:
  "n \<in> {''cron'', ''timezone'', ''every''} \<Longrightarrow> declaration_spec (dset p (skey n) v) \<longleftrightarrow> declaration_spec p"
  by (elim insertE emptyE; simp add: declaration_spec_def optional_def at_most_one_pair)

lemma validate_cron_exact:
  "validate_cron v = ensure (\<exists>s. v = PStr s \<and> \<not> strip_empty s \<and> text_within 128 s) ValidationError"
  by (cases v) (auto simp: validate_cron_def ensure_def text_within_size strip_empty_def split: sum.splits)

subsection \<open>Listing\<close>

text \<open>The cursor with which page \<open>i\<close> is requested, and the reply that carries it.\<close>

definition page_cursor :: "pystr list \<Rightarrow> nat \<Rightarrow> pystr option" where
  "page_cursor cursors i = (if i = 0 then None else Some (cursors ! (i - 1)))"

definition page_reply :: "pyval list list \<Rightarrow> pystr list \<Rightarrow> nat \<Rightarrow> pydict" where
  "page_reply pages cursors i =
     [(skey ''schedules'', PList (pages ! i)),
      (skey ''next_cursor'', if i < length cursors then PStr (cursors ! i) else PNone)]"

lemma read_page_reply:
  assumes "sorted_wrt (<) cursors" and "[] \<notin> set cursors" and "list_all is_dict (pages ! i)"
  shows "read_page (page_reply pages cursors i) (page_cursor cursors i)
    = Inr (pages ! i, if i < length cursors then Some (cursors ! i) else None)"
proof -
  have "0 < i \<Longrightarrow> i < length cursors \<Longrightarrow> \<not> cursors ! i \<le> cursors ! (i - 1)"
    using sorted_wrt_nth_less [OF assms(1), of "i - 1" i] by (simp add: not_le)
  moreover have "i < length cursors \<Longrightarrow> cursors ! i \<noteq> []" using assms(2) nth_mem by metis
  ultimately show ?thesis
    using assms(3) by (auto simp: read_page_def page_reply_def page_cursor_def get_field_def)
qed

lemma schedules_loop_pages:
  assumes "length pages = Suc (length cursors)" and "sorted_wrt (<) cursors" and "[] \<notin> set cursors"
    and "list_all (list_all is_dict) pages"
    and answers: "\<And>i. i \<le> length cursors \<Longrightarrow>
      schedule_request h ''schedules'' (cursor_payload (page_cursor cursors i)) s = (Inr (page_reply pages cursors i), s)"
    and "i \<le> length cursors"
  shows "schedules_loop h (concat (take i pages)) (page_cursor cursors i) s = Some (Inr (concat pages), s)"
  using assms(6)
proof (induction "length cursors - i" arbitrary: i)
  case 0
  then have i: "i = length cursors" by simp
  with assms(1) have "concat (take i pages) @ pages ! i = concat pages"
    by (metis concat_append concat.simps(1) concat.simps(2) append_Nil2 lessI take_Suc_conv_app_nth take_all le_refl)
  with i assms(1-4) answers [of i] show ?case
    by (subst schedules_loop.simps) (simp add: read_page_reply list_all_length)
next
  case (Suc n)
  then have i: "i < length cursors" by simp
  have "concat (take i pages) @ pages ! i = concat (take (Suc i) pages)"
    using i assms(1) by (simp add: take_Suc_conv_app_nth)
  moreover have "schedules_loop h (concat (take (Suc i) pages)) (page_cursor cursors (Suc i)) s
      = Some (Inr (concat pages), s)"
    using Suc.hyps(1) [of "Suc i"] Suc.hyps(2) i by simp
  moreover have "page_cursor cursors (Suc i) = Some (cursors ! i)" by (simp add: page_cursor_def)
  ultimately show ?case
    using i assms(1-4) answers [of i]
    by (subst schedules_loop.simps) (simp add: read_page_reply list_all_length)
qed

subsection \<open>The interface of a scheduling transport\<close>

text \<open>
  What the API relies on in an object that supplies the hooks: the withdrawn set is an
  attribute that the other hooks leave alone. The lemmas are what a transport gets in return.
  Both transports are interpreted in their own theories.
\<close>

locale scheduling_object =
  fixes h :: "'s hooks"
  assumes get_set_withdrawn: "get_withdrawn h (set_withdrawn h w s) = w"
    and retain_keeps: "get_withdrawn h (retain_schedule h sid payload s) = get_withdrawn h s"
    and forget_keeps: "get_withdrawn h (forget_schedule h sid s) = get_withdrawn h s"
    and request_keeps: "get_withdrawn h (snd (schedule_request h op payload s)) = get_withdrawn h s"
begin

lemma declared_not_withdrawn:
  assumes "declare_schedule h payload s = (Inr sid, s')"
  shows "set (get_withdrawn h s') = set (get_withdrawn h s) - {sid}"
proof -
  obtain r s1 where r: "schedule_request h ''schedule'' payload s = (r, s1)" by fastforce
  with request_keeps [of "''schedule''" payload s] have "get_withdrawn h s1 = get_withdrawn h s" by simp
  with assms r show ?thesis
    by (auto simp: declare_schedule_def Let_def retain_keeps get_set_withdrawn split: sum.splits)
qed

lemma failed_declare_keeps:
  assumes "declare_schedule h payload s = (Inl e, s')"
  shows "get_withdrawn h s' = get_withdrawn h s"
proof -
  obtain r s1 where r: "schedule_request h ''schedule'' payload s = (r, s1)" by fastforce
  with request_keeps [of "''schedule''" payload s] have "get_withdrawn h s1 = get_withdrawn h s" by simp
  with assms r show ?thesis by (auto simp: declare_schedule_def Let_def split: sum.splits)
qed

lemma cancelled_is_withdrawn:
  assumes "cancel_schedule h (PStr sid) s = (r, s')" and "text_value 128 (PStr sid)"
  shows "set (get_withdrawn h s') = insert sid (set (get_withdrawn h s))"
proof -
  let ?s = "set_withdrawn h (List.insert sid (get_withdrawn h (forget_schedule h sid s))) (forget_schedule h sid s)"
  have "snd (schedule_request h ''cancel_schedule'' [(skey ''schedule_id'', PStr sid)] ?s) = s'"
    using assms by (auto simp: cancel_schedule_def identifier_check_exact Let_def simp del: text_value.simps)
  with request_keeps [of "''cancel_schedule''" "[(skey ''schedule_id'', PStr sid)]" ?s]
  show ?thesis by (simp add: get_set_withdrawn forget_keeps)
qed

lemma handle_cancel_withdraws:
  assumes "handle_cancel h sid s = (r, s')" and "text_value 128 (PStr sid)"
  shows "set (get_withdrawn h s') = insert sid (set (get_withdrawn h s))"
proof -
  obtain x t where t: "cancel_schedule h (PStr sid) s = (x, t)" by fastforce
  then have "s' = t" using assms(1) by (cases x) (simp_all add: handle_cancel_def)
  with cancelled_is_withdrawn [OF t assms(2)] show ?thesis by simp
qed

end

section \<open>Properties\<close>


definition two_page_hooks :: "unit hooks" where
  "two_page_hooks =
     \<lparr>schedule_request = (\<lambda>op payload s.
        (Inr (page_reply [[PDict []], [PDict [(skey ''id'', PInt 1)]]] [str ''a'']
           (if payload = [] then 0 else 1)), s)),
      schedule_task_name = (\<lambda>_. default_schedule_task_name), retain_schedule = (\<lambda>_ _ s. s),
      forget_schedule = (\<lambda>_ s. s), hook_mode = (\<lambda>_. None), get_withdrawn = (\<lambda>_. []), set_withdrawn = (\<lambda>_ s. s)\<rparr>"




text \<open>Among ASCII texts the timezone pattern accepts exactly \<^verbatim>\<open>UTC\<close>,
  \<^verbatim>\<open>Z\<close> and the offsets with an hour below 24 and an optional minute below 60.\<close>

theorem timezone_match_exact:
  assumes "list_all (\<lambda>c. c < 128) s"
  shows "timezone_match s \<longleftrightarrow> s = str ''UTC'' \<or> s = str ''Z'' \<or> is_offset s"
  using assms by (rule timezone_match_ascii)

theorem timezone_match_exact_witness:
  "timezone_match (str ''-02:30'') \<longleftrightarrow> is_offset (str ''-02:30'')"
  using timezone_match_exact [of "str ''-02:30''"] by (simp add: str_def)

text \<open>Outside ASCII the pattern is wider than the documented offsets: the decimal digits
  of other scripts match, for example an Arabic-Indic three in \<^verbatim>\<open>+0\<close>; and the delay of a
  schedule may exceed the supported range of milliseconds, which the same option of a
  submission may not: 9223372036854776 seconds pass.\<close>

theorem schedule_options_gaps:
  "validate_schedule_options PNone (PStr [43, 48, 1635]) (skey ''latest'') PNone (PInt 9223372036854776) PNone = Inr ()
   \<and> \<not> is_offset [43, 48, 1635] \<and> 9223372036854776 * 1000 > MAX_TIME
   \<and> validate_submission_options [(skey ''delay'', PInt 9223372036854776)] = Inl ValidationError"
proof -
  have "timezone_match [43, 48, 1635]"
    by (simp add: timezone_match_def hour_digits_def is_decimal_def decimal_zeros_def)
  moreover have "\<not> is_offset [43, 48, 1635]"
  proof
    assume "is_offset [43, 48, 1635]"
    then obtain h :: nat where "h < 24" "[48, 1635] = two_digits h" by (auto simp: is_offset_def two_digits_def)
    then show False using mod_less_divisor [of 10 h] by (simp add: two_digits_def)
  qed
  ultimately show ?thesis
    by (simp add: validate_schedule_options_exact schedule_options_spec_def validate_submission_options_exact
        submission_spec_def optional_def get_field_def MAX_TIME_def)
qed

end
