(* ===== verification/TaskDecl.thy ===== *)
theory TaskDecl
  imports Schedules
begin

section \<open>Task declarations (\<^verbatim>\<open>tay/task.py\<close>)\<close>

text \<open>
  \<^verbatim>\<open>TaskConfig\<close>, \<^verbatim>\<open>Task\<close> and \<^verbatim>\<open>register_task\<close>. A Python callable is a
  record of what the SDK reads of it: its identity (\<^verbatim>\<open>is\<close>), whether it is callable,
  \<^verbatim>\<open>__module__\<close>, \<^verbatim>\<open>__name__\<close>, its signature if it can be inspected, and whether it
  is a coroutine function.

  \<open>bind\<close> is how Python binds the arguments of a call to a signature, defaults included; with
  \<open>strict\<close> it is \<^verbatim>\<open>inspect.Signature.bind\<close> followed by \<^verbatim>\<open>apply_defaults\<close>, which
  also refuses a keyword with the name of an unfilled positional-only parameter. Keyword
  arguments are dictionaries keyed by their names.

  \<^verbatim>\<open>hashlib.sha256(...).hexdigest()\<close> is a parameter \<open>sha256\<close> of the declarations that
  use it.
\<close>

subsection \<open>Configuration\<close>

record task_config =
  tc_retries :: pyval
  tc_backoff :: pyval
  tc_durability :: pyval
  tc_cron :: pyval
  tc_every :: pyval
  tc_overlap :: pyval
  tc_declaration_id :: pyval

definition execution_options :: "task_config \<Rightarrow> pydict" where
  "execution_options c =
     (let options = [];
          options = (if tc_retries c \<noteq> PNone then dset options (skey ''retries'') (tc_retries c) else options);
          options = (if tc_backoff c \<noteq> PNone then dset options (skey ''backoff'') (tc_backoff c) else options);
          options = (if tc_durability c \<noteq> PNone then dset options (skey ''durability'') (tc_durability c) else options)
      in options)"

definition has_schedule :: "task_config \<Rightarrow> bool" where
  "has_schedule c = (tc_cron c \<noteq> PNone \<or> tc_every c \<noteq> PNone)"

text \<open>\<^verbatim>\<open>TaskConfig(...)\<close> with its \<^verbatim>\<open>__post_init__\<close>.\<close>

definition post_init :: "task_config \<Rightarrow> task_config res" where
  "post_init c =
     rbind (validate_execution_options (execution_options c)) (\<lambda>_.
     rbind (ensure (tc_cron c = PNone \<or> tc_every c = PNone) ValidationError) (\<lambda>_.
     rbind (if tc_cron c \<noteq> PNone then validate_cron (tc_cron c) else Inr ()) (\<lambda>_.
     rbind (if tc_every c \<noteq> PNone then rbind (validate_every (tc_every c)) (\<lambda>_. Inr ()) else Inr ()) (\<lambda>_.
     rbind (validate_schedule_options (tc_declaration_id c) (skey ''+00'') (skey ''latest'') (tc_overlap c) PNone PNone) (\<lambda>_.
     Inr c)))))"

subsection \<open>Callables and signatures\<close>

datatype param_kind = POSITIONAL_ONLY | POSITIONAL_OR_KEYWORD | VAR_POSITIONAL | KEYWORD_ONLY | VAR_KEYWORD

record parameter =
  p_name :: pystr
  p_kind :: param_kind
  p_default :: "pyval option"

type_synonym signature = "parameter list"
type_synonym kwargs_dict = "(pystr, pyval) dict"

record callable =
  c_id :: nat
  c_callable :: bool
  c_module :: pyval
  c_name :: pyval
  c_signature :: "signature option"
  c_coroutine :: bool

record task =
  t_owner :: nat
  t_function :: callable
  t_name :: pystr
  t_config :: task_config
  t_signature :: "signature option"

definition pairs :: "kwargs_dict \<Rightarrow> pydict" where
  "pairs kw = map (\<lambda>(k, v). (PStr k, v)) kw"

definition or_default :: "parameter \<Rightarrow> pyval option \<Rightarrow> pyval res" where
  "or_default p v =
     (case v of Some x \<Rightarrow> Inr x | None \<Rightarrow> (case p_default p of Some d \<Rightarrow> Inr d | None \<Rightarrow> Inl TypeError))"

definition cons_bound :: "parameter \<Rightarrow> pyval \<Rightarrow> (pystr \<times> pyval) list res \<Rightarrow> (pystr \<times> pyval) list res" where
  "cons_bound p v rest = rbind rest (\<lambda>r. Inr ((p_name p, v) # r))"

fun bind :: "bool \<Rightarrow> signature \<Rightarrow> pyval list \<Rightarrow> kwargs_dict \<Rightarrow> (pystr \<times> pyval) list res" where
  "bind strict [] pos kw = (if pos = [] \<and> kw = [] then Inr [] else Inl TypeError)"
| "bind strict (p # ps) pos kw =
     (case p_kind p of
        POSITIONAL_ONLY \<Rightarrow>
          (case pos of
             v # pos' \<Rightarrow> cons_bound p v (bind strict ps pos' kw)
           | [] \<Rightarrow> if strict \<and> dget kw (p_name p) \<noteq> None then Inl TypeError
                   else rbind (or_default p None) (\<lambda>v. cons_bound p v (bind strict ps [] kw)))
      | POSITIONAL_OR_KEYWORD \<Rightarrow>
          (case pos of
             v # pos' \<Rightarrow> if dget kw (p_name p) \<noteq> None then Inl TypeError
                         else cons_bound p v (bind strict ps pos' kw)
           | [] \<Rightarrow> rbind (or_default p (dget kw (p_name p))) (\<lambda>v.
                   cons_bound p v (bind strict ps [] (dpop kw (p_name p)))))
      | VAR_POSITIONAL \<Rightarrow> cons_bound p (PTuple pos) (bind strict ps [] kw)
      | KEYWORD_ONLY \<Rightarrow>
          if pos \<noteq> [] then Inl TypeError
          else rbind (or_default p (dget kw (p_name p))) (\<lambda>v.
               cons_bound p v (bind strict ps [] (dpop kw (p_name p))))
      | VAR_KEYWORD \<Rightarrow>
          if pos \<noteq> [] then Inl TypeError else cons_bound p (PDict (pairs kw)) (bind strict ps [] []))"

text \<open>What \<^verbatim>\<open>inspect\<close> guarantees of a signature: distinct names, kinds in order, at most
  one parameter of each variadic kind.\<close>

fun kind_rank :: "param_kind \<Rightarrow> nat" where
  "kind_rank POSITIONAL_ONLY = 0"
| "kind_rank POSITIONAL_OR_KEYWORD = 1"
| "kind_rank VAR_POSITIONAL = 2"
| "kind_rank KEYWORD_ONLY = 3"
| "kind_rank VAR_KEYWORD = 4"

definition kinds_in_order :: "parameter \<Rightarrow> parameter \<Rightarrow> bool" where
  "kinds_in_order p q \<longleftrightarrow> kind_rank (p_kind p) \<le> kind_rank (p_kind q)
     \<and> (p_kind p = p_kind q \<longrightarrow> p_kind p \<noteq> VAR_POSITIONAL \<and> p_kind p \<noteq> VAR_KEYWORD)"

definition signature_ok :: "signature \<Rightarrow> bool" where
  "signature_ok sig \<longleftrightarrow> distinct (map p_name sig) \<and> sorted_wrt kinds_in_order sig"

subsection \<open>Serialising a call and calling back\<close>

definition serialize_value :: "param_kind \<Rightarrow> pyval \<Rightarrow> pyval" where
  "serialize_value kind v = (case v of PTuple xs \<Rightarrow> if kind = VAR_POSITIONAL then PList xs else v | _ \<Rightarrow> v)"

definition serialize_bound :: "signature \<Rightarrow> (pystr \<times> pyval) list \<Rightarrow> pydict" where
  "serialize_bound sig bound =
     map (\<lambda>(p, name, v). (PStr name, serialize_value (p_kind p) v)) (zip sig bound)"

definition arguments_from_call :: "task \<Rightarrow> pyval list \<Rightarrow> kwargs_dict \<Rightarrow> pyval res" where
  "arguments_from_call t args kwargs =
     (case t_signature t of
        None \<Rightarrow> if args \<noteq> [] then Inl ValidationError else normalize_json (PDict (pairs kwargs))
      | Some sig \<Rightarrow>
          (case bind True sig args kwargs of
             Inl _ \<Rightarrow> Inl ValidationError
           | Inr bound \<Rightarrow> normalize_json (PDict (serialize_bound sig bound))))"

text \<open>\<^verbatim>\<open>keyword.update(value)\<close>; the keys of a JSON object are strings, any other key makes
  the call fail with \<^verbatim>\<open>TypeError\<close>.\<close>

fun keyword_names :: "pydict \<Rightarrow> kwargs_dict res" where
  "keyword_names [] = Inr []"
| "keyword_names ((k, v) # d) =
     (case k of PStr s \<Rightarrow> rbind (keyword_names d) (\<lambda>r. Inr ((s, v) # r)) | _ \<Rightarrow> Inl TypeError)"

fun call_arguments :: "signature \<Rightarrow> pydict \<Rightarrow> pyval list \<Rightarrow> kwargs_dict \<Rightarrow> (pyval list \<times> kwargs_dict) res" where
  "call_arguments [] arguments positional keyword = Inr (positional, keyword)"
| "call_arguments (p # ps) arguments positional keyword =
     (case dget arguments (PStr (p_name p)) of
        None \<Rightarrow> call_arguments ps arguments positional keyword
      | Some v \<Rightarrow>
          (case p_kind p of
             POSITIONAL_ONLY \<Rightarrow> call_arguments ps arguments (positional @ [v]) keyword
           | VAR_POSITIONAL \<Rightarrow>
               (case v of
                  PList xs \<Rightarrow> call_arguments ps arguments (positional @ xs) keyword
                | _ \<Rightarrow> Inl ValidationError)
           | VAR_KEYWORD \<Rightarrow>
               (case v of
                  PDict d \<Rightarrow> rbind (keyword_names d) (\<lambda>e. call_arguments ps arguments positional (dupdate keyword e))
                | _ \<Rightarrow> Inl ValidationError)
           | _ \<Rightarrow> call_arguments ps arguments positional (dset keyword (p_name p) v)))"

text \<open>\<open>invoke f positional keyword\<close> is \<^verbatim>\<open>f(*positional, **keyword)\<close>.\<close>

definition call_from_arguments ::
  "(callable \<Rightarrow> pyval list \<Rightarrow> kwargs_dict \<Rightarrow> 'r res) \<Rightarrow> task \<Rightarrow> pyval \<Rightarrow> 'r res" where
  "call_from_arguments invoke t arguments =
     (case arguments of
        PDict d \<Rightarrow>
          (case t_signature t of
             None \<Rightarrow> rbind (keyword_names d) (\<lambda>kw. invoke (t_function t) [] kw)
           | Some sig \<Rightarrow>
               rbind (call_arguments sig d [] []) (\<lambda>(positional, keyword). invoke (t_function t) positional keyword))
      | _ \<Rightarrow> Inl ValidationError)"

subsection \<open>Submitting through a task\<close>

definition split_enqueue_kwargs :: "task \<Rightarrow> kwargs_dict \<Rightarrow> (kwargs_dict \<times> pydict) res" where
  "split_enqueue_kwargs t kwargs =
     (let raw_options = (case dget kwargs (str ''options'') of None \<Rightarrow> PNone | Some v \<Rightarrow> v);
          task_keywords = dpop kwargs (str ''options'');
          parameter_names = (case t_signature t of None \<Rightarrow> [] | Some sig \<Rightarrow> map p_name sig);
          is_option = (\<lambda>(k, v). PStr k \<in> set ENQUEUE_OPTION_NAMES \<and> k \<notin> set parameter_names)
      in rbind (merge_enqueue_options raw_options (pairs (filter is_option task_keywords)) PNone) (\<lambda>merged.
         Inr (filter (\<lambda>x. \<not> is_option x) task_keywords, merged)))"

text \<open>What \<^verbatim>\<open>Task.enqueue\<close> passes to the client's \<^verbatim>\<open>enqueue\<close>: name, arguments, options.\<close>

definition task_enqueue :: "task \<Rightarrow> pyval list \<Rightarrow> kwargs_dict \<Rightarrow> (pystr \<times> pyval \<times> pydict) res" where
  "task_enqueue t args kwargs =
     rbind (split_enqueue_kwargs t kwargs) (\<lambda>(task_kwargs, options).
     let options = dupdate (execution_options (t_config t)) options in
     rbind (arguments_from_call t args task_kwargs) (\<lambda>serialized_args.
     Inr (t_name t, serialized_args, options)))"

subsection \<open>Startup schedules\<close>

text \<open>\<^verbatim>\<open>json.dumps\<close> with its default \<^verbatim>\<open>ensure_ascii\<close>: the text that
  \<open>json_dumps\<close> gives, with everything outside the printable ASCII characters escaped.\<close>

definition u_escape :: "nat \<Rightarrow> pystr" where
  "u_escape n = [92, 117, hex_digit (n div 4096 mod 16), hex_digit (n div 256 mod 16), hex_digit (n div 16 mod 16),
     hex_digit (n mod 16)]"

definition ascii_escape :: "codepoint \<Rightarrow> pystr" where
  "ascii_escape c =
     (if c < 127 then [c]
      else if c < 65536 then u_escape c
      else u_escape (0xD800 + (c - 65536) div 1024) @ u_escape (0xDC00 + (c - 65536) mod 1024))"

definition json_dumps_ascii :: "pyval \<Rightarrow> pystr res" where
  "json_dumps_ascii v = rbind (json_dumps v) (\<lambda>s. Inr (concat (map ascii_escape s)))"

text \<open>\<^verbatim>\<open>Task.schedule\<close> and \<^verbatim>\<open>Task.every\<close>: the scheduling API of the task's owner; \<open>supported\<close> is
  \<^verbatim>\<open>hasattr(self.tay, ...)\<close>.\<close>

definition task_schedule :: "'s hooks \<Rightarrow> bool \<Rightarrow> task \<Rightarrow> pyval \<Rightarrow> schedule_call \<Rightarrow> 's \<Rightarrow> pystr res \<times> 's" where
  "task_schedule h supported t cron c s =
     (if supported then schedule h (Declared (t_owner t) (t_name t)) cron c s else (Inl ModeError, s))"

definition task_every :: "'s hooks \<Rightarrow> bool \<Rightarrow> task \<Rightarrow> pydict \<Rightarrow> schedule_call \<Rightarrow> 's \<Rightarrow> pystr res \<times> 's" where
  "task_every h supported t amounts c s =
     (if supported then every h (Declared (t_owner t) (t_name t)) amounts c s else (Inl ModeError, s))"

definition static_schedule :: "task \<Rightarrow> pydict" where
  "static_schedule t =
     (let c = t_config t;
          schedule = [(skey ''task'', PStr (t_name t)), (skey ''args'', PDict []),
                      (skey ''options'', PDict (execution_options c))];
          schedule = (if tc_cron c \<noteq> PNone then dset schedule (skey ''cron'') (tc_cron c) else schedule);
          schedule = (if tc_every c \<noteq> PNone then dset schedule (skey ''every'') (tc_every c) else schedule);
          schedule = (if tc_overlap c \<noteq> PNone then dset schedule (skey ''overlap'') (tc_overlap c) else schedule)
      in schedule)"

definition derived_declaration_id :: "(bytes \<Rightarrow> pystr) \<Rightarrow> task \<Rightarrow> pystr res" where
  "derived_declaration_id sha256 t =
     rbind (json_dumps_ascii (PDict (static_schedule t))) (\<lambda>fingerprint.
     rbind (utf8_encode fingerprint) (\<lambda>b.
     let digest = take 24 (sha256 b);
         declaration_id = str ''python:'' @ t_name t @ str '':'' @ digest in
     rbind (utf8_size declaration_id) (\<lambda>n.
     Inr (if 128 < n then str ''python:'' @ digest else declaration_id))))"

definition static_schedule_declaration :: "(bytes \<Rightarrow> pystr) \<Rightarrow> task \<Rightarrow> pydict option res" where
  "static_schedule_declaration sha256 t =
     (if \<not> has_schedule (t_config t) then Inr None
      else
        rbind (if tc_declaration_id (t_config t) = PNone
               then rbind (derived_declaration_id sha256 t) (\<lambda>i. Inr (PStr i))
               else Inr (tc_declaration_id (t_config t))) (\<lambda>declaration_id.
        rbind (normalize_json (PDict (dset (static_schedule t) (skey ''declaration_id'') declaration_id))) (\<lambda>v.
        Inr (case v of PDict d \<Rightarrow> Some d | _ \<Rightarrow> None))))"

subsection \<open>Registration\<close>

definition make_task :: "nat \<Rightarrow> callable \<Rightarrow> pystr \<Rightarrow> task_config \<Rightarrow> task res" where
  "make_task owner f name config =
     rbind (validate_task_name (PStr name)) (\<lambda>n.
     Inr \<lparr>t_owner = owner, t_function = f, t_name = n, t_config = config, t_signature = c_signature f\<rparr>)"

type_synonym registry = "(pystr, task) dict"

definition default_task_name :: "callable \<Rightarrow> pyval res" where
  "default_task_name f =
     (case (c_module f, c_name f) of
        (PStr m, PStr n) \<Rightarrow> Inr (PStr (m @ str ''.'' @ n))
      | _ \<Rightarrow> Inl TaskRegistrationError)"

definition register_task :: "nat \<Rightarrow> registry \<Rightarrow> callable \<Rightarrow> pyval \<Rightarrow> task_config \<Rightarrow> (task \<times> registry) res" where
  "register_task owner registry f name config =
     rbind (ensure (c_callable f) TaskRegistrationError) (\<lambda>_.
     rbind (if name = PNone then default_task_name f else Inr name) (\<lambda>name.
     rbind (validate_task_name name) (\<lambda>key.
     case dget registry key of
       Some existing \<Rightarrow>
         if c_id (t_function existing) = c_id f then Inr (existing, registry) else Inl TaskRegistrationError
     | None \<Rightarrow>
         rbind (make_task owner f key config) (\<lambda>t. Inr (t, dset registry key t)))))"

subsection \<open>Calling back what was serialised\<close>

text \<open>The positional and keyword arguments with which a bound call is made again.\<close>

fun recall :: "signature \<Rightarrow> (pystr \<times> pyval) list \<Rightarrow> pyval list \<times> kwargs_dict" where
  "recall (p # ps) ((n, v) # b) =
     (let (pos, kw) = recall ps b in
      case p_kind p of
        POSITIONAL_ONLY \<Rightarrow> (v # pos, kw)
      | VAR_POSITIONAL \<Rightarrow> ((case v of PTuple xs \<Rightarrow> xs | _ \<Rightarrow> []) @ pos, kw)
      | VAR_KEYWORD \<Rightarrow>
          (pos, (case v of PDict d \<Rightarrow> map (\<lambda>(k, x). (case k of PStr s \<Rightarrow> s | _ \<Rightarrow> [], x)) d | _ \<Rightarrow> []) @ kw)
      | _ \<Rightarrow> (pos, (n, v) # kw))"
| "recall _ _ = ([], [])"

definition star_conflict :: "signature \<Rightarrow> (pystr \<times> pyval) list \<Rightarrow> bool" where
  "star_conflict sig bound \<longleftrightarrow> (\<exists>p\<in>set sig. p_kind p = POSITIONAL_OR_KEYWORD)
     \<and> (\<exists>(p, b)\<in>set (zip sig bound). p_kind p = VAR_POSITIONAL \<and> snd b \<noteq> PTuple [])"

lemma unpairs [simp]: "map (\<lambda>(k, x). (case k of PStr s \<Rightarrow> s | _ \<Rightarrow> [], x)) (pairs kw) = kw"
  by (induction kw) (auto simp: pairs_def)

lemma keyword_names_pairs [simp]: "keyword_names (pairs kw) = Inr kw"
  by (induction kw) (auto simp: pairs_def)

lemma distinct_map_PStr: "distinct (map PStr xs) \<longleftrightarrow> distinct xs"
  by (simp add: distinct_map inj_on_def)

lemma dkeys_pairs [simp]: "dkeys (pairs kw) = map PStr (dkeys kw)"
  by (simp add: pairs_def case_prod_beta comp_def)

lemma cons_bound_eq_Inr:
  "cons_bound p v rest = Inr bound \<longleftrightarrow> (\<exists>r. rest = Inr r \<and> bound = (p_name p, v) # r)"
  by (auto simp: cons_bound_def rbind_eq_Inr)

lemma after_VAR_KEYWORD:
  "sorted_wrt kinds_in_order (p # ps) \<Longrightarrow> p_kind p = VAR_KEYWORD \<Longrightarrow> ps = []"
proof (cases ps)
  case (Cons q qs)
  assume "sorted_wrt kinds_in_order (p # ps)" and "p_kind p = VAR_KEYWORD"
  with Cons have "kinds_in_order p q" "p_kind p = VAR_KEYWORD" by simp_all
  then show ?thesis by (cases "p_kind q") (auto simp: kinds_in_order_def)
qed

lemma dpop_subset: "set (dkeys (dpop d k)) \<subseteq> set (dkeys d)"
  by (auto simp: dpop_def)

lemma or_default_eq_Inr: "or_default p x = Inr v \<Longrightarrow> x = Some v \<or> (x = None \<and> p_default p = Some v)"
  by (auto simp: or_default_def split: option.splits)

text \<open>A rule for case analysis on a successful binding step.\<close>

lemma bind_ConsE:
  assumes "bind st (p # ps) pos kw = Inr bound"
  obtains (po) v pos' b where "p_kind p = POSITIONAL_ONLY" "bound = (p_name p, v) # b" "bind st ps pos' kw = Inr b"
  | (pos) v pos' b where "p_kind p = POSITIONAL_OR_KEYWORD" "bound = (p_name p, v) # b"
      "p_name p \<notin> set (dkeys kw)" "bind st ps pos' kw = Inr b"
  | (named) v b where "p_kind p \<in> {POSITIONAL_OR_KEYWORD, KEYWORD_ONLY}" "bound = (p_name p, v) # b"
      "bind st ps [] (dpop kw (p_name p)) = Inr b"
  | (star) xs b where "p_kind p = VAR_POSITIONAL" "bound = (p_name p, PTuple xs) # b" "bind st ps [] kw = Inr b"
  | (starstar) b where "p_kind p = VAR_KEYWORD" "bound = (p_name p, PDict (pairs kw)) # b" "bind st ps [] [] = Inr b"
proof (cases "p_kind p")
  case POSITIONAL_ONLY
  then show thesis using assms po
    by (auto simp: cons_bound_eq_Inr rbind_eq_Inr split: list.splits if_splits)
next
  case POSITIONAL_OR_KEYWORD
  show thesis
  proof (cases pos)
    case Nil
    then show thesis using assms POSITIONAL_OR_KEYWORD named by (auto simp: cons_bound_eq_Inr rbind_eq_Inr)
  next
    case (Cons v pos')
    then show thesis using assms POSITIONAL_OR_KEYWORD that(2)
      by (auto simp: cons_bound_eq_Inr map_of_eq_None_iff split: if_splits)
  qed
qed (use assms that(3-5) in \<open>auto simp: cons_bound_eq_Inr rbind_eq_Inr split: if_splits\<close>)

lemma bind_names: "bind st ps pos kw = Inr bound \<Longrightarrow> map fst bound = map p_name ps"
proof (induction ps arbitrary: pos kw bound)
  case (Cons p ps)
  from Cons.prems show ?case by (cases rule: bind_ConsE) (use Cons.IH in auto)
qed (simp split: if_splits)

fun named_names :: "signature \<Rightarrow> pystr set" where
  "named_names [] = {}"
| "named_names (p # ps) =
     (if p_kind p \<in> {POSITIONAL_OR_KEYWORD, KEYWORD_ONLY} then insert (p_name p) (named_names ps) else named_names ps)"

lemma named_names_subset: "named_names ps \<subseteq> p_name ` set ps"
  by (induction ps) auto

lemma recall_keys:
  assumes "bind st ps pos kw = Inr bound" and "sorted_wrt kinds_in_order ps" and "distinct (map p_name ps)"
    and "dict_ok kw"
  shows "dict_ok (snd (recall ps bound))
    \<and> set (dkeys (snd (recall ps bound))) \<subseteq> named_names ps \<union> set (dkeys kw)"
  using assms
proof (induction ps arbitrary: pos kw bound)
  case Nil
  then show ?case by simp
next
  case (Cons p ps)
  have tail: "sorted_wrt kinds_in_order ps" "distinct (map p_name ps)" "p_name p \<notin> p_name ` set ps"
    using Cons.prems by auto
  then have new: "p_name p \<notin> named_names ps" using named_names_subset by blast
  have IH: "dict_ok (snd (recall ps b))
      \<and> set (dkeys (snd (recall ps b))) \<subseteq> named_names ps \<union> set (dkeys kw')"
    if "bind st ps pos' kw' = Inr b" "dict_ok kw'" for pos' kw' b
    using Cons.IH [OF that(1) tail(1,2) that(2)] .
  from Cons.prems(1) show ?case
  proof (cases rule: bind_ConsE)
    case (po v pos' b)
    with IH [OF po(3) Cons.prems(4)] show ?thesis by (auto simp: case_prod_beta)
  next
    case (pos v pos' b)
    note * = IH [OF pos(4) Cons.prems(4)]
    with new pos(3) have "p_name p \<notin> set (dkeys (snd (recall ps b)))" by blast
    with * pos(1,2) show ?thesis by (auto simp: case_prod_beta dict_ok_def)
  next
    case (named v b)
    have "dict_ok (dpop kw (p_name p))" using Cons.prems(4) by simp
    note * = IH [OF named(3) this]
    have "p_name p \<notin> set (dkeys (dpop kw (p_name p)))" by (simp add: dkeys_iff_dget del: set_map)
    with * new have "p_name p \<notin> set (dkeys (snd (recall ps b)))" by blast
    moreover have "set (dkeys (snd (recall ps b))) \<subseteq> named_names ps \<union> set (dkeys kw)"
      using * dpop_subset [of kw "p_name p"] by blast
    moreover have "recall (p # ps) bound = (fst (recall ps b), (p_name p, v) # snd (recall ps b))"
      "named_names (p # ps) = insert (p_name p) (named_names ps)"
      using named(1,2) by (auto simp: case_prod_beta)
    ultimately show ?thesis using * by (simp add: dict_ok_def) blast
  next
    case (star xs b)
    with IH [OF star(3) Cons.prems(4)] show ?thesis by (auto simp: case_prod_beta)
  next
    case (starstar b)
    then have "ps = []" using Cons.prems(2) after_VAR_KEYWORD by blast
    with starstar Cons.prems(4) show ?thesis by (auto split: if_splits)
  qed
qed

lemma call_arguments_recall:
  assumes "bind st ps pos kw = Inr bound" and "sorted_wrt kinds_in_order ps"
    and "\<And>p n v. (p, n, v) \<in> set (zip ps bound) \<Longrightarrow> dget d (PStr (p_name p)) = Some (serialize_value (p_kind p) v)"
    and "dict_ok (acck @ snd (recall ps bound))"
  shows "call_arguments ps d accp acck = Inr (accp @ fst (recall ps bound), acck @ snd (recall ps bound))"
  using assms
proof (induction ps arbitrary: pos kw bound accp acck)
  case Nil
  then show ?case by (cases bound) (auto split: if_splits)
next
  case (Cons p ps)
  have srt: "sorted_wrt kinds_in_order ps" using Cons.prems(2) by simp
  have step: "call_arguments ps d accp' acck' = Inr (accp' @ fst (recall ps b), acck' @ snd (recall ps b))"
    if "bind st ps pos' kw' = Inr b" "bound = (p_name p, v) # b" "dict_ok (acck' @ snd (recall ps b))"
    for pos' kw' b v accp' acck'
  proof (rule Cons.IH [OF that(1) srt _ that(3)])
    show "dget d (PStr (p_name q)) = Some (serialize_value (p_kind q) w)" if "(q, n, w) \<in> set (zip ps b)" for q n w
      using Cons.prems(3) [of q n w] that \<open>bound = (p_name p, v) # b\<close> by simp
  qed
  have look: "dget d (PStr (p_name p)) = Some (serialize_value (p_kind p) v)" if "bound = (p_name p, v) # b" for v b
    using Cons.prems(3) [of p "p_name p" v] that by simp
  from Cons.prems(1) show ?case
  proof (cases rule: bind_ConsE)
    case (po v pos' b)
    with step [OF po(3,2)] look [OF po(2)] Cons.prems(4) show ?thesis
      by (simp add: case_prod_beta serialize_value_def split: pyval.splits)
  next
    case (pos v pos' b)
    have ok: "dict_ok ((acck @ [(p_name p, v)]) @ snd (recall ps b))"
      using Cons.prems(4) pos(1,2) by (simp add: case_prod_beta)
    then have "dset acck (p_name p) v = acck @ [(p_name p, v)]"
      by (intro dkeys_dset_fresh) (auto simp: dict_ok_def)
    with step [OF pos(4,2) ok] look [OF pos(2)] pos(1,2) show ?thesis
      by (simp add: case_prod_beta serialize_value_def split: pyval.splits)
  next
    case (named v b)
    have ok: "dict_ok ((acck @ [(p_name p, v)]) @ snd (recall ps b))"
      using Cons.prems(4) named(1,2) by (auto simp: case_prod_beta)
    then have "dset acck (p_name p) v = acck @ [(p_name p, v)]"
      by (intro dkeys_dset_fresh) (auto simp: dict_ok_def)
    with step [OF named(3,2) ok] look [OF named(2)] named(1,2) show ?thesis
      by (auto simp: case_prod_beta serialize_value_def split: pyval.splits)
  next
    case (star xs b)
    with step [OF star(3,2)] look [OF star(2)] Cons.prems(4) show ?thesis
      by (simp add: case_prod_beta serialize_value_def)
  next
    case (starstar b)
    then have ps: "ps = []" using Cons.prems(2) after_VAR_KEYWORD by blast
    with starstar have b: "b = []" by (simp split: if_splits)
    have "dict_ok (acck @ kw)" using Cons.prems(4) starstar(1,2) ps b by simp
    then have "dupdate acck kw = acck @ kw" by (intro dupdate_fresh) (auto simp: dict_ok_def)
    with starstar ps b look [OF starstar(2)] show ?thesis by (simp add: serialize_value_def)
  qed
qed

lemma zip_kinds_after:
  assumes "sorted_wrt kinds_in_order (p # ps)" and "(q, n, v) \<in> set (zip ps b)"
  shows "kinds_in_order p q"
  using assms by (auto dest: set_zip_leftD)

lemma recall_no_positional:
  "\<forall>q\<in>set ps. p_kind q \<noteq> POSITIONAL_ONLY \<Longrightarrow>
   \<forall>(q, n, v)\<in>set (zip ps b). p_kind q = VAR_POSITIONAL \<longrightarrow> v = PTuple [] \<Longrightarrow> fst (recall ps b) = []"
  by (induction ps b rule: recall.induct) (auto simp: case_prod_beta split: param_kind.splits)

lemma recall_star:
  "(q, n, PTuple xs) \<in> set (zip ps b) \<Longrightarrow> p_kind q = VAR_POSITIONAL \<Longrightarrow> xs \<noteq> [] \<Longrightarrow> fst (recall ps b) \<noteq> []"
  by (induction ps b rule: recall.induct) (auto simp: case_prod_beta split: param_kind.splits)

lemma bind_star_tuple:
  "bind st ps pos kw = Inr b \<Longrightarrow> (q, n, v) \<in> set (zip ps b) \<Longrightarrow> p_kind q = VAR_POSITIONAL \<Longrightarrow> \<exists>xs. v = PTuple xs"
proof (induction ps arbitrary: pos kw b)
  case (Cons p ps)
  from Cons.prems(1) show ?case by (cases rule: bind_ConsE) (use Cons in auto)
qed simp

lemma after_kind:
  assumes "sorted_wrt kinds_in_order (p # ps)" and "p_kind p \<noteq> POSITIONAL_ONLY"
  shows "\<forall>q\<in>set ps. p_kind q \<noteq> POSITIONAL_ONLY"
    and "p_kind p \<noteq> POSITIONAL_OR_KEYWORD \<Longrightarrow>
      \<forall>q\<in>set ps. p_kind q \<noteq> POSITIONAL_OR_KEYWORD \<and> p_kind q \<noteq> VAR_POSITIONAL"
  using assms by (cases "p_kind p"; force simp: kinds_in_order_def)+

lemma dpop_head: "k \<notin> set (dkeys d) \<Longrightarrow> dpop ((k, v) # d) k = d"
  by (auto simp: dpop_def filter_id_conv)

lemma bind_recall:
  assumes "bind st ps pos kw = Inr bound" and "sorted_wrt kinds_in_order ps" and "distinct (map p_name ps)"
    and "dict_ok kw"
  shows "bind False ps (fst (recall ps bound)) (snd (recall ps bound))
    = (if star_conflict ps bound then Inl TypeError else Inr bound)"
  using assms
proof (induction ps arbitrary: pos kw bound)
  case Nil
  then show ?case by (auto simp: star_conflict_def split: if_splits)
next
  case (Cons p ps)
  have srt: "sorted_wrt kinds_in_order ps" "distinct (map p_name ps)" using Cons.prems by auto
  have IH: "bind False ps (fst (recall ps b)) (snd (recall ps b))
      = (if star_conflict ps b then Inl TypeError else Inr b)"
    if "bind st ps pos' kw' = Inr b" "dict_ok kw'" for pos' kw' b
    using Cons.IH [OF that(1) srt that(2)] .
  have keys: "dict_ok (snd (recall (p # ps) bound))" using recall_keys [OF Cons.prems] by simp
  have named_step: "bind False (p # ps) (fst (recall (p # ps) bound)) (snd (recall (p # ps) bound))
      = (if star_conflict (p # ps) bound then Inl TypeError else Inr bound)"
    if k: "p_kind p \<in> {POSITIONAL_OR_KEYWORD, KEYWORD_ONLY}" and bd: "bound = (p_name p, v) # b"
      and rest: "bind st ps pos' kw' = Inr b" "dict_ok kw'" for v b pos' kw'
  proof -
    have fresh: "p_name p \<notin> set (dkeys (snd (recall ps b)))"
      using keys k bd by (elim insertE emptyE) (simp_all add: case_prod_beta dict_ok_def)
    have rc: "recall (p # ps) bound = (fst (recall ps b), (p_name p, v) # snd (recall ps b))"
      using k bd by (auto simp: case_prod_beta)
    have no: "\<forall>q\<in>set ps. p_kind q \<noteq> POSITIONAL_ONLY" using after_kind(1) [OF Cons.prems(2)] k by auto
    show ?thesis
    proof (cases "\<forall>(q, n, w)\<in>set (zip ps b). p_kind q = VAR_POSITIONAL \<longrightarrow> w = PTuple []")
      case True
      have "fst (recall ps b) = []" by (rule recall_no_positional [OF no True])
      moreover have "\<not> star_conflict ps b" "\<not> star_conflict (p # ps) bound"
        using True k bd by (auto simp: star_conflict_def)
      ultimately show ?thesis
        using IH [OF rest] k bd fresh dpop_head [OF fresh, of v] unfolding rc
        by (auto simp: or_default_def cons_bound_def)
    next
      case False
      then obtain q n w where q: "(q, n, w) \<in> set (zip ps b)" "p_kind q = VAR_POSITIONAL" "w \<noteq> PTuple []" by blast
      then obtain xs where "w = PTuple xs" "xs \<noteq> []" using bind_star_tuple [OF rest(1) q(1,2)] by auto
      with q have ne: "fst (recall ps b) \<noteq> []" using recall_star by blast
      have "kinds_in_order p q" using zip_kinds_after [OF Cons.prems(2) q(1)] .
      with k q(2) have pk: "p_kind p = POSITIONAL_OR_KEYWORD" by (auto simp: kinds_in_order_def)
      have "star_conflict (p # ps) bound" using pk q bd by (force simp: star_conflict_def)
      with ne pk show ?thesis unfolding rc by (auto simp: neq_Nil_conv)
    qed
  qed
  from Cons.prems(1) show ?case
  proof (cases rule: bind_ConsE)
    case (po v pos' b)
    have "star_conflict (p # ps) bound \<longleftrightarrow> star_conflict ps b" using po by (auto simp: star_conflict_def)
    with IH [OF po(3) Cons.prems(4)] po(1,2) show ?thesis by (simp add: case_prod_beta cons_bound_def)
  next
    case (pos v pos' b)
    then show ?thesis using named_step [OF _ pos(2,4) Cons.prems(4)] by simp
  next
    case (named v b)
    then show ?thesis using named_step [OF named(1,2,3)] Cons.prems(4) by simp
  next
    case (star xs b)
    note after = after_kind [OF Cons.prems(2)]
    have "fst (recall ps b) = []"
      using after star(1) by (intro recall_no_positional) (auto dest: set_zip_leftD)
    moreover have "\<not> star_conflict ps b" "\<not> star_conflict (p # ps) bound"
      using after(2) star(1,2) by (auto simp: star_conflict_def)
    ultimately show ?thesis
      using IH [OF star(3) Cons.prems(4)] star(1,2) by (simp add: case_prod_beta cons_bound_def)
  next
    case (starstar b)
    then have ps: "ps = []" using Cons.prems(2) after_VAR_KEYWORD by blast
    with starstar have "b = []" by (simp split: if_splits)
    with ps starstar show ?thesis by (simp add: cons_bound_def star_conflict_def)
  qed
qed


lemma serialize_bound_lookup:
  assumes "map fst bound = map p_name ps" and "distinct (map p_name ps)" and "(p, n, v) \<in> set (zip ps bound)"
  shows "dget (serialize_bound ps bound) (PStr (p_name p)) = Some (serialize_value (p_kind p) v)"
  using assms
proof (induction ps arbitrary: bound)
  case (Cons q ps)
  then obtain w b where b: "bound = (p_name q, w) # b" "map fst b = map p_name ps" by (cases bound) auto
  show ?case
  proof (cases "(p, n, v) \<in> set (zip ps b)")
    case True
    then have "p \<in> set ps" by (rule set_zip_leftD)
    then have "p_name p \<noteq> p_name q" using Cons.prems(2) by (metis distinct.simps(2) image_eqI list.set_map list.simps(9))
    with Cons True b show ?thesis by (simp add: serialize_bound_def)
  qed (use Cons b in \<open>auto simp: serialize_bound_def\<close>)
qed simp

lemma bind_values:
  assumes "bind st ps pos kw = Inr b"
    and "\<forall>v\<in>set pos. pyval_wf v" and "\<forall>v\<in>set (map snd kw). pyval_wf v" and "dict_ok kw"
    and "\<forall>p\<in>set ps. \<forall>d. p_default p = Some d \<longrightarrow> pyval_wf d"
  shows "\<forall>v\<in>set (map snd b). pyval_wf v"
  using assms
proof (induction ps arbitrary: pos kw b)
  case Nil
  then show ?case by (simp split: if_splits)
next
  case (Cons p ps)
  have pop: "\<forall>v\<in>set (map snd (dpop kw k)). pyval_wf v" for k using Cons.prems(3) by (auto simp: dpop_def)
  have kwv: "dget kw k = Some v \<Longrightarrow> pyval_wf v" for k v using Cons.prems(3) by (force dest: map_of_SomeD)
  have "pyval_wf (PDict (pairs kw))"
  proof -
    have "distinct (map PStr (dkeys kw))" using Cons.prems(4) by (simp only: distinct_map_PStr dict_ok_def)
    with Cons.prems(3) show ?thesis by (simp only: pyval_wf.simps dkeys_pairs) (auto simp: pairs_def)
  qed
  then show ?case
    using Cons.prems Cons.IH pop kwv dict_ok_dpop [OF Cons.prems(4)]
    by (cases "p_kind p")
      (fastforce simp: cons_bound_eq_Inr rbind_eq_Inr split: list.splits if_splits dest!: or_default_eq_Inr)+
qed

lemma serialize_bound_wf:
  assumes "map fst b = map p_name ps" and "distinct (map p_name ps)" and "\<forall>v\<in>set (map snd b). pyval_wf v"
  shows "pyval_wf (PDict (serialize_bound ps b))"
proof -
  have keys: "map fst (serialize_bound ps b) = map PStr (map fst b)"
  proof -
    have "map fst (serialize_bound ps b) = map (\<lambda>x. PStr (fst x)) (map snd (zip ps b))"
      by (simp add: serialize_bound_def case_prod_beta comp_def)
    then show ?thesis using map_eq_imp_length_eq [OF assms(1)] by (simp add: map_snd_zip)
  qed
  have "pyval_wf (serialize_value k v)" if "pyval_wf v" for k v
    using that by (cases v) (auto simp: serialize_value_def)
  then have "\<forall>q\<in>set (serialize_bound ps b). pyval_wf (snd q)"
    using assms(3) by (auto simp: serialize_bound_def dest!: set_zip_rightD)
  moreover have "distinct (map fst (serialize_bound ps b))"
    using assms(2) by (simp only: keys assms(1) distinct_map_PStr)
  ultimately show ?thesis by (simp only: pyval_wf.simps)
qed

lemma arguments_call_back:
  assumes sig: "t_signature t = Some sig" "signature_ok sig" and kw: "dict_ok kwargs"
    and wf: "\<forall>v\<in>set args. pyval_wf v" "\<forall>v\<in>set (map snd kwargs). pyval_wf v"
      "\<forall>p\<in>set sig. \<forall>d. p_default p = Some d \<longrightarrow> pyval_wf d"
    and args: "arguments_from_call t args kwargs = Inr arguments"
  obtains bound pos' kw' d where "bind True sig args kwargs = Inr bound" and "arguments = PDict d"
    and "call_arguments sig d [] [] = Inr (pos', kw')"
    and "bind False sig pos' kw' = (if star_conflict sig bound then Inl TypeError else Inr bound)"
proof -
  from args sig obtain bound where b: "bind True sig args kwargs = Inr bound"
    and n: "normalize_json (PDict (serialize_bound sig bound)) = Inr arguments"
    by (auto simp: arguments_from_call_def split: sum.splits)
  have ok: "sorted_wrt kinds_in_order sig" "distinct (map p_name sig)" using sig(2) by (simp_all add: signature_ok_def)
  note names = bind_names [OF b]
  have "pyval_wf (PDict (serialize_bound sig bound))"
    by (rule serialize_bound_wf [OF names ok(2) bind_values [OF b wf(1,2) kw wf(3)]])
  with n have a: "arguments = PDict (serialize_bound sig bound)"
    using normalize_json_exact by (simp del: pyval_wf.simps acceptable.simps split: if_splits)
  have "call_arguments sig (serialize_bound sig bound) [] []
      = Inr ([] @ fst (recall sig bound), [] @ snd (recall sig bound))"
    by (rule call_arguments_recall [OF b ok(1) serialize_bound_lookup [OF names ok(2)]])
      (use recall_keys [OF b ok kw] in simp_all)
  with that [OF b a, of "fst (recall sig bound)" "snd (recall sig bound)"] bind_recall [OF b ok kw]
  show thesis by simp
qed

subsection \<open>Startup declarations\<close>

fun dumpable :: "pyval \<Rightarrow> bool" where
  "dumpable (PInt i) = (length (dec_digits (nat \<bar>i\<bar>)) \<le> max_str_digits)"
| "dumpable (PFloat x) = isfinite x"
| "dumpable (PList xs) = (\<forall>x\<in>set xs. dumpable x)"
| "dumpable (PTuple xs) = (\<forall>x\<in>set xs. dumpable x)"
| "dumpable (PDict d) = (\<forall>p\<in>set d. (\<exists>s. fst p = PStr s) \<and> dumpable (snd p))"
| "dumpable (POther _) = False"
| "dumpable _ = True"

lemma dumps_total:
  "dumpable v \<Longrightarrow> \<exists>t. dumps_raw v = Inr t"
  "\<forall>v\<in>set vs. dumpable v \<Longrightarrow> \<exists>t. dumps_elems vs = Inr t"
  "\<forall>p\<in>set d. (\<exists>s. fst p = PStr s) \<and> dumpable (snd p) \<Longrightarrow> \<exists>t. dumps_members d = Inr t"
proof (induction v and vs and d rule: dumps_raw_dumps_elems_dumps_members.induct)
  case (3 i)
  then show ?case by (auto simp: int_repr_def Let_def)
next
  case (11 v vs)
  then show ?case by (cases "vs = []") fastforce+
next
  case (13 k v d)
  then obtain s where k: "k = PStr s" by auto
  with 13 show ?case by (cases "d = []") fastforce+
qed fastforce+

lemma dumpable_sort_deep: "dumpable v \<Longrightarrow> dumpable (sort_deep v)"
  by (induction v rule: sort_deep.induct) (auto simp: comp_def split_def)

lemma u_escape_ascii: "c \<in> set (u_escape n) \<Longrightarrow> c < 128"
proof -
  have hex: "hex_digit (m mod 16) < 128" for m
    using mod_less_divisor [of 16 m] unfolding hex_digit_def by (auto split: if_splits)
  show "c \<in> set (u_escape n) \<Longrightarrow> c < 128" unfolding u_escape_def using hex by auto
qed

lemma ascii_escape_ascii: "c \<in> set (ascii_escape x) \<Longrightarrow> c < 128"
  by (auto simp: ascii_escape_def dest: u_escape_ascii split: if_splits)

lemma json_dumps_ascii_total:
  assumes "dumpable v"
  obtains s b where "json_dumps_ascii v = Inr s" and "utf8_encode s = Inr b"
proof -
  obtain t where "dumps_raw (sort_deep v) = Inr t" using dumps_total(1) dumpable_sort_deep assms by blast
  then have d: "json_dumps_ascii v = Inr (concat (map ascii_escape t))"
    by (simp add: json_dumps_ascii_def json_dumps_def)
  have "list_all (\<lambda>c. c < 0x80) (concat (map ascii_escape t))"
    using ascii_escape_ascii by (auto simp: list_all_iff)
  then show thesis using that [OF d] utf8_encode_ascii by blast
qed

text \<open>\<^verbatim>\<open>sha256(...).hexdigest()\<close>: 64 lowercase hexadecimal digits.\<close>

definition hex_digest :: "(bytes \<Rightarrow> pystr) \<Rightarrow> bool" where
  "hex_digest sha256 \<longleftrightarrow> (\<forall>b. length (sha256 b) = 64 \<and> list_all is_lower_hex (sha256 b))"

lemma text_within_append:
  "text_within n s \<Longrightarrow> list_all (\<lambda>c. c < 128) p \<Longrightarrow> list_all (\<lambda>c. c < 128) q \<Longrightarrow>
     \<exists>m. utf8_size (p @ s @ q) = Inr m"
  by (auto simp: text_within_def utf8_size_def utf8_encode_append utf8_encode_ascii)

lemma derived_declaration_id_ok:
  assumes "dumpable (PDict (static_schedule t))" and "validate_task_name (PStr (t_name t)) = Inr (t_name t)"
    and "hex_digest sha256"
  obtains i where "derived_declaration_id sha256 t = Inr i" and "text_value 128 (PStr i)"
proof -
  obtain s b where s: "json_dumps_ascii (PDict (static_schedule t)) = Inr s" "utf8_encode s = Inr b"
    using json_dumps_ascii_total [OF assms(1)] by blast
  define digest where "digest = take 24 (sha256 b)"
  have hex: "list_all is_lower_hex digest" "length digest = 24"
    using assms(3) by (auto simp: hex_digest_def digest_def list_all_iff dest: in_set_takeD)
  then have ascii: "list_all (\<lambda>c. c < 128) digest" "0 \<notin> set digest"
    by (auto simp: list_all_iff is_lower_hex_def)
  have name: "text_within 255 (t_name t)" "0 \<notin> set (t_name t)"
    using assms(2) by (auto simp: validate_task_name_def text_within_size rbind_eq_Inr list_all_iff
        DEFAULT_MAX_TASK_NAME_BYTES_def split: if_splits)
  let ?long = "str ''python:'' @ t_name t @ str '':'' @ digest"
  obtain n where n: "utf8_size ?long = Inr n"
    using text_within_append [OF name(1), of "str ''python:''" "str '':'' @ digest"] ascii by (auto simp: str_def)
  have short: "utf8_size (str ''python:'' @ digest) = Inr 31"
    using ascii hex(2) utf8_size_ascii [of "str ''python:'' @ digest"] by (simp add: str_def)
  have r: "derived_declaration_id sha256 t = Inr (if 128 < n then str ''python:'' @ digest else ?long)"
    by (simp add: derived_declaration_id_def s digest_def [symmetric] n Let_def)
  have "text_value 128 (PStr (if 128 < n then str ''python:'' @ digest else ?long))"
    using n short name ascii by (auto simp: text_within_size str_def)
  with r show thesis by (rule that)
qed

text \<open>What the checks of a configuration establish.\<close>

lemma post_init_facts:
  assumes "post_init c = Inr c'"
  shows "c' = c" and "validate_execution_options (execution_options c) = Inr ()"
    and "tc_cron c = PNone \<or> (\<exists>s. tc_cron c = PStr s)"
    and "tc_every c = PNone \<or> (\<exists>d. validate_every (tc_every c) = Inr d)"
    and "tc_declaration_id c = PNone \<or> text_value 128 (tc_declaration_id c)"
    and "tc_overlap c \<in> {PNone, skey ''allow'', skey ''skip'', skey ''queue''}"
proof -
  from assms show "c' = c" and "validate_execution_options (execution_options c) = Inr ()"
    and "tc_cron c = PNone \<or> (\<exists>s. tc_cron c = PStr s)"
    and "tc_every c = PNone \<or> (\<exists>d. validate_every (tc_every c) = Inr d)"
    by (auto simp: post_init_def rbind_eq_Inr validate_cron_exact split: if_splits)
  from assms have "schedule_options_spec (tc_declaration_id c) (skey ''+00'') (skey ''latest'') (tc_overlap c) PNone PNone"
    by (auto simp: post_init_def rbind_eq_Inr validate_schedule_options_exact)
  then show "tc_declaration_id c = PNone \<or> text_value 128 (tc_declaration_id c)"
    and "tc_overlap c \<in> {PNone, skey ''allow'', skey ''skip'', skey ''queue''}"
    by (simp_all add: schedule_options_spec_def)
qed

lemma execution_options_values:
  assumes "validate_execution_options (execution_options c) = Inr ()"
  shows "tc_retries c = PNone \<or> int_in_range 0 65534 (tc_retries c)"
    and "tc_backoff c \<in> {PNone, skey ''exponential''}"
    and "tc_durability c \<in> {PNone, skey ''persistent'', skey ''volatile''}"
  using assms
  by (auto simp: validate_execution_options_exact optional_def execution_options_def Let_def get_field_def
      split: if_splits)


lemma interval_amount:
  assumes "interval_ok unit amount" and "unit \<in> set (dkeys every_units)"
  shows "(\<exists>n. amount = PInt n \<and> 0 < n \<and> n \<le> MAX_TIME) \<or> (\<exists>x. amount = PFloat x \<and> isfinite x)"
proof (cases amount)
  case (PInt n)
  obtain u where u: "dget every_units unit = Some u" "0 < u"
    using assms(2) every_units_values by (fastforce simp: dkeys_iff_dget simp del: set_map)
  have "0 < n" and "(of_int n * of_int u :: rat) \<le> of_int MAX_TIME"
    using assms(1) u(1) PInt by (auto simp: interval_ok_def num_le_def scaled_amount_def)
  then have "n * u \<le> MAX_TIME" by (metis of_int_le_iff of_int_mult)
  moreover have "n * 1 \<le> n * u" using \<open>0 < n\<close> u(2) by (intro mult_left_mono) simp_all
  ultimately have "n \<le> MAX_TIME" by linarith
  then show ?thesis using PInt \<open>0 < n\<close> by simp
qed (use assms(1) in \<open>auto simp: interval_ok_def\<close>)

lemma small_int_dumpable: "0 \<le> n \<Longrightarrow> n \<le> MAX_TIME \<Longrightarrow> dumpable (PInt n)"
proof -
  assume n: "0 \<le> n" "n \<le> MAX_TIME"
  have "nat \<bar>n\<bar> < 10 ^ Suc 18" using n by (simp add: MAX_TIME_def nat_less_iff)
  then show ?thesis using length_dec_digits [of "nat \<bar>n\<bar>" 18] by (simp add: max_str_digits_def)
qed

lemma every_entries:
  assumes "validate_every (PDict m) = Inr d" and "p \<in> set m"
  shows "fst p \<in> set (dkeys every_units)" and "snd p = PNone \<or> interval_ok (fst p) (snd p)"
proof -
  from assms(1) obtain unit amount where f: "filter (\<lambda>p. snd p \<noteq> PNone) m = [(unit, amount)]"
    and k: "set (dkeys m) \<subseteq> set (dkeys every_units)" and i: "interval_ok unit amount"
    by (auto simp: validate_every_PDict split: if_splits list.splits)
  show "fst p \<in> set (dkeys every_units)" using k assms(2) by (auto simp: image_subset_iff)
  show "snd p = PNone \<or> interval_ok (fst p) (snd p)"
  proof (cases "snd p = PNone")
    case False
    with assms(2) have "p \<in> set (filter (\<lambda>p. snd p \<noteq> PNone) m)" by simp
    with f i show ?thesis by simp
  qed simp
qed

lemma every_units_keys: "k \<in> set (dkeys every_units) \<Longrightarrow> \<exists>s. k = PStr s"
  by (auto simp: every_units_def)

lemma every_scalar:
  assumes "validate_every (PDict m) = Inr d" and "p \<in> set m"
  shows "(\<exists>s. fst p = PStr s) \<and> dumpable (snd p) \<and> acceptable 32 10000 2 (snd p)"
proof -
  note e = every_entries [OF assms]
  have "dumpable (snd p) \<and> acceptable 32 10000 2 (snd p)"
    using e(2) interval_amount [OF _ e(1)] small_int_dumpable by (fastforce simp del: dumpable.simps(1))
  with every_units_keys [OF e(1)] show ?thesis by blast
qed

lemma every_size:
  assumes "validate_every (PDict m) = Inr d" and "distinct (dkeys m)"
  shows "length m \<le> 4"
proof -
  have "set (dkeys m) \<subseteq> set (dkeys every_units)" using every_entries(1) [OF assms(1)] by auto
  then have "card (set (dkeys m)) \<le> card (set (dkeys every_units))" by (intro card_mono) simp_all
  also have "\<dots> \<le> 4" using card_length [of "dkeys every_units"] by (simp add: every_units_def)
  finally show ?thesis using distinct_card [OF assms(2)] by simp
qed

text \<open>All values of a startup declaration are scalars or small objects of scalars.\<close>

lemma static_options:
  assumes "validate_execution_options (execution_options c) = Inr ()"
  shows "dumpable (PDict (execution_options c))" and "acceptable 32 10000 1 (PDict (execution_options c))"
    and "pyval_wf (PDict (execution_options c))"
  using execution_options_values [OF assms] small_int_dumpable
  by (auto simp: execution_options_def Let_def MAX_TIME_def simp del: dumpable.simps(1)
      elim!: int_in_range.elims split: if_splits)


lemma static_schedule_list:
  "static_schedule t =
     [(skey ''task'', PStr (t_name t)), (skey ''args'', PDict []),
      (skey ''options'', PDict (execution_options (t_config t)))]
     @ (if tc_cron (t_config t) \<noteq> PNone then [(skey ''cron'', tc_cron (t_config t))] else [])
     @ (if tc_every (t_config t) \<noteq> PNone then [(skey ''every'', tc_every (t_config t))] else [])
     @ (if tc_overlap (t_config t) \<noteq> PNone then [(skey ''overlap'', tc_overlap (t_config t))] else [])"
  by (simp add: static_schedule_def Let_def)

lemma static_schedule_values:
  assumes "post_init (t_config t) = Inr c" and "pyval_wf (tc_every (t_config t))"
  shows "\<forall>p\<in>set (static_schedule t). (\<exists>s. fst p = PStr s) \<and> dumpable (snd p)
    \<and> acceptable 32 10000 1 (snd p) \<and> pyval_wf (snd p)"
proof -
  note f = post_init_facts [OF assms(1)]
  have every: "dumpable (tc_every (t_config t)) \<and> acceptable 32 10000 1 (tc_every (t_config t))"
    if ne: "tc_every (t_config t) \<noteq> PNone"
  proof -
    from ne f(4) obtain m d where m: "tc_every (t_config t) = PDict m" "validate_every (PDict m) = Inr d"
      by (cases "tc_every (t_config t)") (auto simp: validate_every_def)
    have "length m \<le> 4" using every_size [OF m(2)] assms(2) m(1) by simp
    with every_scalar [OF m(2)] m(1) show ?thesis by (auto simp: numeral_2_eq_2)
  qed
  note o = static_options [OF f(2)]
  have scalar: "v \<in> {PNone, skey ''allow'', skey ''skip'', skey ''queue''} \<Longrightarrow>
      dumpable v \<and> acceptable 32 10000 1 v \<and> pyval_wf v" for v by auto
  have cron: "dumpable (tc_cron (t_config t)) \<and> acceptable 32 10000 1 (tc_cron (t_config t)) \<and> pyval_wf (tc_cron (t_config t))"
    using f(3) by auto
  show ?thesis
    unfolding static_schedule_list
    using every assms(2) o scalar [OF f(6)] cron
    by (simp del: dumpable.simps(5) pyval_wf.simps(4) acceptable.simps(3)) auto
qed

lemma static_schedule_keys:
  "distinct (dkeys (static_schedule t))" "skey ''declaration_id'' \<notin> set (dkeys (static_schedule t))"
  "length (static_schedule t) \<le> 6"
  by (auto simp: static_schedule_list)

lemma static_declaration_ok:
  assumes "has_schedule (t_config t)" and "post_init (t_config t) = Inr c" and "pyval_wf (tc_every (t_config t))"
    and "validate_task_name (PStr (t_name t)) = Inr (t_name t)" and "hex_digest sha256"
  obtains i where "text_value 128 (PStr i)"
    and "static_schedule_declaration sha256 t = Inr (Some (static_schedule t @ [(skey ''declaration_id'', PStr i)]))"
proof -
  note vals = static_schedule_values [OF assms(2,3)]
  have "dumpable (PDict (static_schedule t))" using vals by simp
  then obtain j where j: "derived_declaration_id sha256 t = Inr j" "text_value 128 (PStr j)"
    using derived_declaration_id_ok assms(4,5) by blast
  obtain i where i: "text_value 128 (PStr i)" and sel:
    "(if tc_declaration_id (t_config t) = PNone
      then rbind (derived_declaration_id sha256 t) (\<lambda>i. Inr (PStr i))
      else Inr (tc_declaration_id (t_config t))) = Inr (PStr i)"
    using j post_init_facts(5) [OF assms(2)] by (cases "tc_declaration_id (t_config t)") auto
  let ?d = "static_schedule t @ [(skey ''declaration_id'', PStr i)]"
  have ds: "dset (static_schedule t) (skey ''declaration_id'') (PStr i) = ?d"
    by (rule dkeys_dset_fresh [OF static_schedule_keys(2)])
  have "pyval_wf (PDict ?d)" using vals static_schedule_keys(1,2) by auto
  moreover have "acceptable 32 10000 0 (PDict ?d)"
    using vals static_schedule_keys(3) [of t] by auto
  ultimately have "normalize_json (PDict ?d) = Inr (PDict ?d)" by (simp only: normalize_json_exact if_True)
  then have "static_schedule_declaration sha256 t = Inr (Some ?d)"
    using assms(1) sel by (simp add: static_schedule_declaration_def ds)
  with i show thesis by (rule that)
qed

subsection \<open>Registration and submission\<close>

text \<open>The table of tasks of one worker: every task is filed under its own valid name.\<close>

definition registry_ok :: "nat \<Rightarrow> registry \<Rightarrow> bool" where
  "registry_ok owner registry \<longleftrightarrow> dict_ok registry \<and>
     (\<forall>(k, t)\<in>set registry. t_name t = k \<and> t_owner t = owner \<and> validate_task_name (PStr k) = Inr k)"

lemma registry_ok_Nil [simp]: "registry_ok owner []"
  by (simp add: registry_ok_def)

lemma validate_task_name_PStr:
  "validate_task_name v = Inr s \<Longrightarrow> v = PStr s"
  by (auto simp: validate_task_name_def rbind_eq_Inr split: pyval.splits if_splits)

lemma registry_ok_lookup:
  "registry_ok owner registry \<Longrightarrow> dget registry k = Some t \<Longrightarrow>
     t_name t = k \<and> t_owner t = owner \<and> validate_task_name (PStr k) = Inr k"
  by (auto simp: registry_ok_def dest: map_of_SomeD)

lemma registry_ok_dset:
  assumes "registry_ok owner registry" and "t_name t = k" and "t_owner t = owner" and "validate_task_name (PStr k) = Inr k"
  shows "registry_ok owner (dset registry k t)"
  using assms set_dset_subset [of registry k t] by (auto simp: registry_ok_def)

lemma register_task_Inr:
  assumes "registry_ok owner registry" and "register_task owner registry f name config = Inr (t, registry')"
  shows "registry_ok owner registry' \<and> dget registry' (t_name t) = Some t \<and> c_id (t_function t) = c_id f
    \<and> (\<forall>k. dget registry k \<noteq> None \<longrightarrow> dget registry' k = dget registry k)"
proof -
  from assms(2) obtain v key where key: "validate_task_name v = Inr key"
    and r: "(case dget registry key of
       Some existing \<Rightarrow> if c_id (t_function existing) = c_id f then Inr (existing, registry) else Inl TaskRegistrationError
     | None \<Rightarrow> rbind (make_task owner f key config) (\<lambda>t. Inr (t, dset registry key t))) = Inr (t, registry')"
    by (auto simp: register_task_def rbind_eq_Inr)
  have name: "validate_task_name (PStr key) = Inr key" using key validate_task_name_PStr by blast
  show ?thesis
  proof (cases "dget registry key")
    case None
    with r name have t: "t = \<lparr>t_owner = owner, t_function = f, t_name = key, t_config = config, t_signature = c_signature f\<rparr>"
      "registry' = dset registry key t" by (auto simp: make_task_def)
    with registry_ok_dset [OF assms(1), of t key] name None show ?thesis by auto
  next
    case (Some existing)
    with r registry_ok_lookup [OF assms(1) Some] assms(1) show ?thesis by (auto split: if_splits)
  qed
qed

lemma has_field_execution_options:
  "has_field (execution_options c) n \<longleftrightarrow>
     (n = ''retries'' \<and> tc_retries c \<noteq> PNone) \<or> (n = ''backoff'' \<and> tc_backoff c \<noteq> PNone)
     \<or> (n = ''durability'' \<and> tc_durability c \<noteq> PNone)"
  by (auto simp: execution_options_def Let_def has_field_def)

lemma get_field_dupdate:
  "dict_ok e \<Longrightarrow> get_field (dupdate d e) n = (if has_field e n then get_field e n else get_field d n)"
  by (auto simp: get_field_def has_field_def dget_dupdate split: option.splits)

lemma has_field_dupdate: "has_field (dupdate d e) n \<longleftrightarrow> has_field d n \<or> has_field e n"
  by (auto simp: has_field_keys simp del: set_map simp: set_dkeys_dupdate)

lemma execution_options_keys:
  "set (dkeys (execution_options c)) \<subseteq> {skey ''retries'', skey ''backoff'', skey ''durability''}"
  by (auto simp: execution_options_def Let_def split: if_splits)

lemma merged_with_config_spec:
  assumes "validate_execution_options (execution_options c) = Inr ()" and "submission_spec o1" and "dict_ok o1"
  shows "submission_spec (dupdate (execution_options c) o1)"
proof -
  let ?m = "dupdate (execution_options c) o1"
  have other: "get_field ?m n = get_field o1 n" "has_field ?m n \<longleftrightarrow> has_field o1 n"
    if "n \<notin> {''retries'', ''backoff'', ''durability''}" for n
    using that get_field_dupdate [OF assms(3), of "execution_options c" n] get_field_absent [of o1 n]
      get_field_absent [of "execution_options c" n]
    by (auto simp: has_field_dupdate has_field_execution_options)
  have keys: "\<forall>k\<in>set (dkeys ?m). k \<in> set ENQUEUE_OPTION_NAMES"
    using assms(2) execution_options_keys [of c] unfolding set_dkeys_dupdate submission_spec_def
    by (auto simp: ENQUEUE_OPTION_NAMES_def)
  note v = execution_options_values [OF assms(1)]
  have ex: "get_field (execution_options c) ''retries'' = tc_retries c"
    "get_field (execution_options c) ''backoff'' = tc_backoff c"
    "get_field (execution_options c) ''durability'' = tc_durability c"
    by (simp_all add: execution_options_def Let_def get_field_def)
  have own: "has_field ?m ''retries'' \<longrightarrow> int_in_range 0 65534 (get_field ?m ''retries'')"
    "optional ?m ''backoff'' (\<lambda>v. v = skey ''exponential'')"
    "optional ?m ''durability'' (\<lambda>v. v = skey ''persistent'' \<or> v = skey ''volatile'')"
    using assms(2) v unfolding submission_spec_def optional_def get_field_dupdate [OF assms(3)] ex has_field_dupdate
    by (auto simp: has_field_execution_options)
  show ?thesis
    using assms(2) keys own unfolding submission_spec_def optional_def at_most_one_pair at_most_one_triple
    by (simp add: other)
qed

lemma merge_enqueue_options_ok:
  assumes "merge_enqueue_options raw (pairs kw) PNone = Inr merged" and "pyval_wf raw" and "dict_ok kw"
  shows "submission_spec merged \<and> dict_ok merged"
proof -
  have kw: "dict_ok (pairs kw)" using assms(3) by (simp only: dict_ok_def dkeys_pairs distinct_map_PStr)
  obtain d where d: "merge_enqueue_options (PDict d) (pairs kw) PNone = Inr merged" "dict_ok d"
  proof (cases raw)
    case PNone
    then have "merge_enqueue_options (PDict []) (pairs kw) PNone = Inr merged"
      using assms(1) by (simp add: merge_enqueue_options_def)
    then show thesis by (rule that) simp
  next
    case (PDict d)
    then show thesis using assms(1,2) by (intro that [of d]) (simp_all add: dict_ok_def)
  qed (use assms(1) in \<open>simp_all add: merge_enqueue_options_def\<close>)
  then show ?thesis
    unfolding merge_enqueue_options_exact [OF kw]
    using dict_ok_merged [OF d(2) kw, of PNone] by (auto split: if_splits)
qed

section \<open>Properties\<close>

text \<open>C16: a job's arguments survive the trip to a worker. When \<^verbatim>\<open>Task.enqueue\<close> can
  serialise a call, the worker calls the function back with positional and keyword arguments
  that Python binds to exactly the same parameter values as the original call, defaults
  included, with one exception: if the signature has a positional-or-keyword parameter and the
  call fills a variadic \<^verbatim>\<open>*args\<close>, the call back fails with \<^verbatim>\<open>TypeError\<close>, because the
  named parameter is passed by keyword although the variadic values fill its position.\<close>

theorem arguments_roundtrip:
  assumes "t_signature t = Some sig" and "signature_ok sig" and "dict_ok kwargs"
    and "\<forall>v\<in>set args. pyval_wf v" and "\<forall>v\<in>set (map snd kwargs). pyval_wf v"
    and "\<forall>p\<in>set sig. \<forall>d. p_default p = Some d \<longrightarrow> pyval_wf d"
    and "arguments_from_call t args kwargs = Inr arguments"
  shows "\<exists>bound. bind True sig args kwargs = Inr bound \<and>
    call_from_arguments (\<lambda>_ positional keyword. bind False sig positional keyword) t arguments
      = (if star_conflict sig bound then Inl TypeError else Inr bound)"
proof -
  obtain bound pos' kw' d where "bind True sig args kwargs = Inr bound" "arguments = PDict d"
    "call_arguments sig d [] [] = Inr (pos', kw')"
    "bind False sig pos' kw' = (if star_conflict sig bound then Inl TypeError else Inr bound)"
    using assms by (rule arguments_call_back)
  with assms(1) show ?thesis by (simp add: call_from_arguments_def)
qed

definition example_config :: task_config where
  "example_config = \<lparr>tc_retries = PInt 3, tc_backoff = PNone, tc_durability = PNone, tc_cron = skey ''* * * * *'',
     tc_every = PNone, tc_overlap = PNone, tc_declaration_id = PNone\<rparr>"

definition star_signature :: signature where
  "star_signature = [\<lparr>p_name = str ''x'', p_kind = POSITIONAL_OR_KEYWORD, p_default = None\<rparr>,
     \<lparr>p_name = str ''rest'', p_kind = VAR_POSITIONAL, p_default = None\<rparr>]"

definition star_task :: task where
  "star_task =
     (let f = \<lparr>c_id = 1, c_callable = True, c_module = skey ''m'', c_name = skey ''f'',
               c_signature = Some star_signature, c_coroutine = False\<rparr> in
      \<lparr>t_owner = 0, t_function = f, t_name = str ''m.f'', t_config = example_config, t_signature = Some star_signature\<rparr>)"

lemma star_task_call:
  "arguments_from_call star_task (map PInt ns) [] =
     normalize_json (PDict [(skey ''x'', PInt (hd ns)), (skey ''rest'', PList (map PInt (tl ns)))])"
  if "ns \<noteq> []"
  using that by (cases ns) (simp_all add: arguments_from_call_def star_task_def star_signature_def cons_bound_def
      serialize_bound_def serialize_value_def Let_def)

lemma star_task_config: "post_init (t_config star_task) = Inr example_config"
  by (simp add: star_task_def Let_def post_init_def example_config_def validate_execution_options_exact
        execution_options_def optional_def get_field_def validate_cron_def strip_empty_def is_space_def text_eval
        validate_schedule_options_exact schedule_options_spec_def timezone_match_def hour_digits_def is_decimal_def
        decimal_zeros_def)

theorem arguments_roundtrip_witness:
  "\<exists>arguments. arguments_from_call star_task [PInt 1] [] = Inr arguments \<and>
     call_from_arguments (\<lambda>_ positional keyword. bind False star_signature positional keyword) star_task arguments
       = Inr [(str ''x'', PInt 1), (str ''rest'', PTuple [])]"
proof -
  let ?a = "PDict [(skey ''x'', PInt 1), (skey ''rest'', PList [])]"
  have a: "arguments_from_call star_task [PInt 1] [] = Inr ?a"
    using star_task_call [of "[1]"] by (simp add: normalize_json_exact)
  have "\<exists>bound. bind True star_signature [PInt 1] [] = Inr bound \<and>
    call_from_arguments (\<lambda>_ positional keyword. bind False star_signature positional keyword) star_task ?a
      = (if star_conflict star_signature bound then Inl TypeError else Inr bound)"
    by (rule arguments_roundtrip [OF _ _ _ _ _ _ a])
      (simp_all add: star_task_def star_signature_def signature_ok_def kinds_in_order_def Let_def)
  with a show ?thesis
    by (auto simp: star_signature_def cons_bound_def star_conflict_def)
qed

text \<open>The exception is real: for \<^verbatim>\<open>def f(x, *rest)\<close> the call
  \<^verbatim>\<open>f.enqueue(1, 2, 3)\<close> is serialised without complaint, and the worker's call back
  passes \<^verbatim>\<open>f(2, 3, x=1)\<close>, which Python refuses.\<close>

theorem star_arguments_fail:
  "arguments_from_call star_task [PInt 1, PInt 2, PInt 3] [] =
     Inr (PDict [(skey ''x'', PInt 1), (skey ''rest'', PList [PInt 2, PInt 3])])
   \<and> call_arguments star_signature [(skey ''x'', PInt 1), (skey ''rest'', PList [PInt 2, PInt 3])] [] []
     = Inr ([PInt 2, PInt 3], [(str ''x'', PInt 1)])
   \<and> bind False star_signature [PInt 2, PInt 3] [(str ''x'', PInt 1)] = Inl TypeError"
  using star_task_call [of "[1, 2, 3]"] by (simp add: normalize_json_exact star_signature_def)

text \<open>Registration keeps the table of tasks sound. It files a task under its own valid
  name, returns the task that is then found under this name and that wraps the given callable,
  and never replaces or removes a task that was registered before.\<close>

theorem register_task_invariant:
  assumes "registry_ok owner registry" and "register_task owner registry f name config = Inr (t, registry')"
  shows "registry_ok owner registry' \<and> dget registry' (t_name t) = Some t \<and> c_id (t_function t) = c_id f
    \<and> (\<forall>k. dget registry k \<noteq> None \<longrightarrow> dget registry' k = dget registry k)"
  using assms by (rule register_task_Inr)

theorem register_task_invariant_witness:
  "\<exists>t registry'. register_task 0 [] (t_function star_task) PNone example_config = Inr (t, registry')
     \<and> registry_ok 0 registry'"
proof -
  have "\<exists>t registry'. register_task 0 [] (t_function star_task) PNone example_config = Inr (t, registry')"
    by (simp add: register_task_def star_task_def default_task_name_def validate_task_name_def make_task_def
        text_eval DEFAULT_MAX_TASK_NAME_BYTES_def Let_def)
  then show ?thesis using register_task_invariant [OF registry_ok_Nil] by blast
qed

text \<open>Submitting through a task honours both sources of options. Whatever
  \<^verbatim>\<open>Task.enqueue\<close> passes on satisfies the submission specification, an option given in
  the call wins over the declared one, and an option not given in the call has the declared
  value.\<close>

theorem task_enqueue_options:
  assumes "task_enqueue t args kwargs = Inr (name, arguments, options)"
    and "post_init (t_config t) = Inr c" and "dict_ok kwargs" and "\<forall>v\<in>set (map snd kwargs). pyval_wf v"
  shows "submission_spec options \<and>
    (\<exists>rest explicit. split_enqueue_kwargs t kwargs = Inr (rest, explicit) \<and>
       (\<forall>n. get_field options n =
          (if has_field explicit n then get_field explicit n else get_field (execution_options (t_config t)) n)))"
proof -
  from assms(1) obtain rest explicit where s: "split_enqueue_kwargs t kwargs = Inr (rest, explicit)"
    and o: "options = dupdate (execution_options (t_config t)) explicit"
    by (auto simp: task_enqueue_def rbind_eq_Inr Let_def)
  define raw where "raw = (case dget kwargs (str ''options'') of None \<Rightarrow> PNone | Some v \<Rightarrow> v)"
  from s obtain kw where m: "merge_enqueue_options raw (pairs kw) PNone = Inr explicit" and kw: "dict_ok kw"
    using dict_ok_dpop [OF assms(3), of "str ''options''"]
    by (auto simp: split_enqueue_kwargs_def Let_def rbind_eq_Inr raw_def dict_ok_def distinct_map_filter)
  have "pyval_wf raw" using assms(4) by (auto simp: raw_def split: option.splits dest!: map_of_SomeD)
  then have e: "submission_spec explicit" "dict_ok explicit" using merge_enqueue_options_ok [OF m _ kw] by auto
  have "submission_spec options"
    unfolding o by (rule merged_with_config_spec [OF post_init_facts(2) [OF assms(2)] e])
  with s e(2) show ?thesis by (auto simp: o get_field_dupdate)
qed

theorem task_enqueue_options_witness:
  "\<exists>name arguments options. task_enqueue star_task [PInt 1] [(str ''retries'', PInt 5)] = Inr (name, arguments, options)
     \<and> submission_spec options"
proof -
  have m: "merge_enqueue_options PNone [(skey ''retries'', PInt 5)] PNone = Inr [(skey ''retries'', PInt 5)]"
    by (simp add: merge_enqueue_options_def has_field_def validate_submission_options_exact submission_spec_def
        optional_def at_most_one_def get_field_def ENQUEUE_OPTION_NAMES_def)
  have "\<exists>x. task_enqueue star_task [PInt 1] [(str ''retries'', PInt 5)] = Inr x"
    using star_task_call [of "[1]"] m
    by (simp add: task_enqueue_def split_enqueue_kwargs_def pairs_def dpop_def ENQUEUE_OPTION_NAMES_def
        normalize_json_exact) (simp add: star_task_def star_signature_def Let_def)
  then obtain name arguments options where
    e: "task_enqueue star_task [PInt 1] [(str ''retries'', PInt 5)] = Inr (name, arguments, options)" by auto
  then have "submission_spec options" using task_enqueue_options [OF e star_task_config] by (simp add: dict_ok_def)
  with e show ?thesis by blast
qed

text \<open>A task with a cron or interval schedule always has a startup declaration: building
  it raises nothing, and its declaration id, given or derived from the SHA-256 digest of the
  declaration, is NUL-free UTF-8 text of at most 128 bytes.\<close>

theorem static_declaration_total:
  assumes "has_schedule (t_config t)" and "post_init (t_config t) = Inr c" and "pyval_wf (tc_every (t_config t))"
    and "validate_task_name (PStr (t_name t)) = Inr (t_name t)" and "hex_digest sha256"
  shows "\<exists>i. static_schedule_declaration sha256 t
      = Inr (Some (static_schedule t @ [(skey ''declaration_id'', PStr i)])) \<and> text_value 128 (PStr i)"
proof -
  from assms obtain i where "text_value 128 (PStr i)"
    and "static_schedule_declaration sha256 t = Inr (Some (static_schedule t @ [(skey ''declaration_id'', PStr i)]))"
    by (rule static_declaration_ok)
  then show ?thesis by blast
qed

theorem static_declaration_total_witness:
  "\<exists>d. static_schedule_declaration (\<lambda>_. replicate 64 48) star_task = Inr (Some d)"
proof -
  have "\<exists>i. static_schedule_declaration (\<lambda>_. replicate 64 48) star_task
      = Inr (Some (static_schedule star_task @ [(skey ''declaration_id'', PStr i)])) \<and> text_value 128 (PStr i)"
    by (rule static_declaration_total [OF _ star_task_config])
      (simp_all add: star_task_def example_config_def has_schedule_def hex_digest_def list_all_iff is_lower_hex_def
        validate_task_name_def text_eval DEFAULT_MAX_TASK_NAME_BYTES_def Let_def)
  then show ?thesis by blast
qed

end
