(* ===== verification/Execution.thy ===== *)
theory Execution
  imports TaskDecl
begin

section \<open>Running tasks (\<^verbatim>\<open>tay/execution.py\<close>)\<close>

text \<open>
  Invocation of a task and the limits on what is reported of it, shared by the socket and the
  HTTP worker. Calling a function gives a value or an awaitable; an awaitable is represented by
  what awaiting it yields, which may be a cancellation. Whether the call runs in a thread or on
  the event loop (\<^verbatim>\<open>synchronous\<close>) does not change what it yields. The callback
  \<^verbatim>\<open>on_awaitable\<close> acts on the state of the worker and may raise.

  An exception to be reported is described by its class name, its message and its formatted
  traceback, the latter two \<open>None\<close> where formatting them raises.
\<close>

subsection \<open>Definitions\<close>

datatype returned = Plain pyval | Awaitable "pyval res"

type_synonym invocation = "callable \<Rightarrow> pyval list \<Rightarrow> kwargs_dict \<Rightarrow> returned res"

definition bounded_result :: "nat \<Rightarrow> exn \<Rightarrow> pyval \<Rightarrow> pyval res" where
  "bounded_result max_result_bytes size_error v =
     rbind (normalize_json v) (\<lambda>result.
     rbind (json_bytes result) (\<lambda>b.
     rbind (ensure (length b \<le> max_result_bytes) size_error) (\<lambda>_. Inr result)))"

definition run_task ::
  "invocation \<Rightarrow> task \<Rightarrow> pyval \<Rightarrow> nat \<Rightarrow> exn \<Rightarrow> ('s \<Rightarrow> unit res \<times> 's) \<Rightarrow> 's \<Rightarrow> pyval res \<times> 's" where
  "run_task invoke t arguments max_result_bytes size_error on_awaitable s =
     (case call_from_arguments invoke t arguments of
        Inl e \<Rightarrow> (Inl e, s)
      | Inr (Plain v) \<Rightarrow> (bounded_result max_result_bytes size_error v, s)
      | Inr (Awaitable outcome) \<Rightarrow>
          (case on_awaitable s of
             (Inl e, s) \<Rightarrow> (Inl e, s)
           | (Inr _, s) \<Rightarrow> (rbind outcome (bounded_result max_result_bytes size_error), s)))"

text \<open>Whether \<^verbatim>\<open>cancel_async_execution\<close> cancels the asyncio task of an execution.\<close>

definition cancel_async_execution :: "'x option \<Rightarrow> bool \<Rightarrow> bool" where
  "cancel_async_execution execution synchronous = (execution \<noteq> None \<and> \<not> synchronous)"

record failure =
  f_type :: pystr
  f_message :: "pystr option"
  f_traceback :: "pystr option"

text \<open>\<^verbatim>\<open>str.encode(value, "utf-8", errors="replace").decode("utf-8")\<close>.\<close>

definition encode_replace :: "pystr \<Rightarrow> bytes" where
  "encode_replace s = concat (map (\<lambda>c. case utf8_char c of Inr b \<Rightarrow> b | Inl _ \<Rightarrow> [byte_of 63]) s)"

definition safe_text :: "pystr \<Rightarrow> pystr res" where
  "safe_text value = utf8_decode (encode_replace value)"

definition slice :: "nat option \<Rightarrow> pystr \<Rightarrow> pystr" where
  "slice n s = (case n of None \<Rightarrow> s | Some k \<Rightarrow> take k s)"

definition error_details :: "failure \<Rightarrow> bool \<Rightarrow> nat option \<Rightarrow> nat option \<Rightarrow> pydict res" where
  "error_details exc fallback_message max_type_characters max_message_characters =
     rbind (safe_text (case f_message exc of Some m \<Rightarrow> m | None \<Rightarrow> str ''<exception message unavailable>'')) (\<lambda>message.
     rbind (if fallback_message \<and> message = [] then safe_text (f_type exc) else Inr message) (\<lambda>message.
     rbind (safe_text (f_type exc)) (\<lambda>type_name.
     Inr [(skey ''type'', PStr (slice max_type_characters type_name)),
          (skey ''message'', PStr (slice max_message_characters message))])))"

definition truncate_text :: "pystr \<Rightarrow> pystr" where
  "truncate_text value = (if length value \<le> 2 then [] else take (max 1 (length value div 2 - 1)) value @ [0x2026])"

text \<open>The first of traceback, message and type that is not empty.\<close>

definition first_text_field :: "pydict \<Rightarrow> (string \<times> pystr) option" where
  "first_text_field error =
     (case filter (\<lambda>n. truthy (get_field error n)) [''traceback'', ''message'', ''type''] of
        [] \<Rightarrow> None
      | n # _ \<Rightarrow> (case get_field error n of PStr s \<Rightarrow> Some (n, s) | _ \<Rightarrow> None))"

definition text_size :: "pydict \<Rightarrow> string \<Rightarrow> nat" where
  "text_size error n = (case get_field error n of PStr s \<Rightarrow> length s | _ \<Rightarrow> 0)"

lemma truncate_shorter: "s \<noteq> [] \<Longrightarrow> length (truncate_text s) < length s"
  by (auto simp: truncate_text_def)

lemma first_text_field_Some:
  "first_text_field error = Some (n, s) \<Longrightarrow>
     n \<in> {''traceback'', ''message'', ''type''} \<and> get_field error n = PStr s \<and> s \<noteq> []"
  by (auto simp: first_text_field_def split: list.splits pyval.splits if_splits)

function shrink_error :: "nat \<Rightarrow> pydict \<Rightarrow> pydict res" where
  "shrink_error max_bytes error =
     rbind (json_bytes (PDict error)) (\<lambda>b.
     if length b \<le> max_bytes then Inr error
     else (case first_text_field error of
             None \<Rightarrow> Inr []
           | Some (n, s) \<Rightarrow> shrink_error max_bytes (dset error (skey n) (PStr (truncate_text s)))))"
  by pat_completeness auto
termination
proof (relation "measure (\<lambda>(m, error). text_size error ''traceback'' + text_size error ''message'' + text_size error ''type'')")
  fix max_bytes error b x n s
  assume "first_text_field error = Some x" and "(n, s) = x"
  then have "n \<in> {''traceback'', ''message'', ''type''} \<and> get_field error n = PStr s \<and> s \<noteq> []"
    using first_text_field_Some [of error n s] by simp
  then show "((max_bytes, dset error (skey n) (PStr (truncate_text s))), max_bytes, error)
      \<in> measure (\<lambda>(m, error). text_size error ''traceback'' + text_size error ''message'' + text_size error ''type'')"
    using truncate_shorter [of s] by (auto simp: text_size_def)
qed simp

definition bounded_error :: "failure \<Rightarrow> int \<Rightarrow> bool \<Rightarrow> pydict res" where
  "bounded_error exc max_bytes include_traceback =
     rbind (ensure (2 \<le> max_bytes) ValidationError) (\<lambda>_.
     rbind (error_details exc True None None) (\<lambda>error.
     rbind (if include_traceback then
              (case f_traceback exc of
                 None \<Rightarrow> Inr (dset error (skey ''traceback'') (skey ''<traceback unavailable>''))
               | Some text \<Rightarrow> rbind (safe_text text) (\<lambda>t. Inr (dset error (skey ''traceback'') (PStr t))))
            else Inr error) (\<lambda>error.
     shrink_error (nat max_bytes) error)))"

declare shrink_error.simps [simp del]

subsection \<open>Safe text\<close>

definition replaced :: "pystr \<Rightarrow> pystr" where
  "replaced s = map (\<lambda>c. if encodable c then c else 63) s"

lemma replaced_encodable: "list_all encodable (replaced s)"
  by (auto simp: replaced_def list_all_iff encodable_def is_surrogate_def)

lemma encode_replace_replaced: "utf8_encode (replaced s) = Inr (encode_replace s)"
proof (induction s)
  case (Cons c s)
  show ?case
  proof (cases "utf8_char c")
    case (Inl e)
    then have "\<not> encodable c" using utf8_char_ok_iff [of c] by simp
    with Cons Inl show ?thesis by (simp add: replaced_def encode_replace_def utf8_char_def)
  next
    case (Inr b)
    then have "encodable c" using utf8_char_ok_iff [of c] by simp
    with Cons Inr show ?thesis by (simp add: replaced_def encode_replace_def)
  qed
qed (simp_all add: replaced_def encode_replace_def)

lemma safe_text_total: "safe_text s = Inr (replaced s)"
  unfolding safe_text_def by (rule utf8_decode_encode [OF encode_replace_replaced])

subsection \<open>Error reports fit their limit\<close>

definition flat_texts :: "pydict \<Rightarrow> bool" where
  "flat_texts d \<longleftrightarrow> (\<forall>p\<in>set d. \<exists>k s. p = (PStr k, PStr s) \<and> list_all encodable k \<and> list_all encodable s)"

lemma ascii_encodable: "c < 128 \<Longrightarrow> encodable c"
  by (simp add: encodable_def is_surrogate_def)

lemma escape_char_encodable: "encodable c \<Longrightarrow> x \<in> set (escape_char c) \<Longrightarrow> encodable x"
  by (auto simp: escape_char_def hex_digit_def intro!: ascii_encodable split: if_splits)

lemma json_string_encodable: "list_all encodable s \<Longrightarrow> list_all encodable (json_string s)"
  by (auto simp: json_string_def escape_def list_all_iff intro: ascii_encodable dest: escape_char_encodable)

lemma dumps_members_flat:
  "flat_texts d \<Longrightarrow> \<exists>t. dumps_members d = Inr t \<and> list_all encodable t"
proof (induction d)
  case (Cons p d)
  then obtain k s where p: "p = (PStr k, PStr s)" "list_all encodable k" "list_all encodable s"
    and d: "flat_texts d" by (auto simp: flat_texts_def)
  then obtain t where "dumps_members d = Inr t" "list_all encodable t" using Cons.IH by blast
  with p show ?case by (auto simp: json_string_encodable ascii_encodable)
qed simp

lemma json_bytes_flat:
  assumes "flat_texts d"
  shows "\<exists>b. json_bytes (PDict d) = Inr b"
proof -
  have "sort_deep (PDict d) = PDict (sort_items (map (\<lambda>(k, v). (k, sort_deep v)) d))" by simp
  moreover have "flat_texts (sort_items (map (\<lambda>(k, v). (k, sort_deep v)) d))"
    using assms by (fastforce simp: flat_texts_def)
  ultimately obtain t where t: "json_dumps (PDict d) = Inr t" "list_all encodable t"
    using dumps_members_flat by (fastforce simp: json_dumps_def ascii_encodable)
  obtain b where "utf8_encode t = Inr b" using t(2) utf8_encode_ok_iff [of t] by (auto simp: is_ok_iff)
  with t(1) show ?thesis by (simp add: json_bytes_def)
qed

lemma truncate_encodable: "list_all encodable s \<Longrightarrow> list_all encodable (truncate_text s)"
  by (auto simp: truncate_text_def list_all_iff encodable_def is_surrogate_def dest: in_set_takeD)

lemma flat_texts_dset:
  "flat_texts d \<Longrightarrow> list_all encodable k \<Longrightarrow> list_all encodable s \<Longrightarrow> flat_texts (dset d (PStr k) (PStr s))"
  using set_dset_subset [of d "PStr k" "PStr s"] by (auto simp: flat_texts_def)

lemma flat_texts_get: "flat_texts d \<Longrightarrow> get_field d n = PStr s \<Longrightarrow> list_all encodable s"
  by (auto simp: flat_texts_def get_field_def split: option.splits dest!: map_of_SomeD)

lemma str_encodable: "list_all (\<lambda>c. c < 128) (str s) \<Longrightarrow> list_all encodable (str s)"
  by (auto simp: list_all_iff intro: ascii_encodable)

lemma shrink_error_fits:
  "flat_texts error \<Longrightarrow> 2 \<le> m \<Longrightarrow>
     \<exists>d b. shrink_error m error = Inr d \<and> json_bytes (PDict d) = Inr b \<and> length b \<le> m"
proof (induction m error rule: shrink_error.induct)
  case (1 m error)
  obtain b where b: "json_bytes (PDict error) = Inr b" using json_bytes_flat [OF "1.prems"(1)] by blast
  show ?case
  proof (cases "length b \<le> m")
    case True
    with b show ?thesis by (subst shrink_error.simps) simp
  next
    case False
    show ?thesis
    proof (cases "first_text_field error")
      case None
      have "json_bytes (PDict []) = Inr [byte_of 123, byte_of 125]"
        by (simp add: json_bytes_def json_dumps_def sort_items_def utf8_char_def is_surrogate_def)
      with None False b "1.prems"(2) show ?thesis by (subst shrink_error.simps) simp
    next
      case (Some x)
      then obtain n s where x: "first_text_field error = Some (n, s)" by (cases x) simp
      have n: "n \<in> {''traceback'', ''message'', ''type''}" "get_field error n = PStr s"
        using first_text_field_Some [OF x] by simp_all
      have "list_all encodable (str n)" using n(1) by (elim insertE emptyE; simp add: str_def encodable_def is_surrogate_def)
      then have "flat_texts (dset error (skey n) (PStr (truncate_text s)))"
        using "1.prems"(1) flat_texts_get [OF "1.prems"(1) n(2)] by (intro flat_texts_dset truncate_encodable)
      with "1.IH" [OF b False x] "1.prems"(2) have
        "\<exists>d b. shrink_error m (dset error (skey n) (PStr (truncate_text s))) = Inr d \<and> json_bytes (PDict d) = Inr b \<and> length b \<le> m"
        by blast
      with x False b show ?thesis by (subst shrink_error.simps) simp
    qed
  qed
qed

lemma error_details_flat:
  obtains d where "error_details exc fb None None = Inr d" and "flat_texts d"
proof -
  have "\<exists>d. error_details exc fb None None = Inr d \<and> flat_texts d"
    using replaced_encodable
    by (auto simp: error_details_def safe_text_total slice_def flat_texts_def str_def encodable_def is_surrogate_def)
  with that show thesis by blast
qed

lemma bounded_error_ok:
  assumes "2 \<le> max_bytes"
  shows "\<exists>d b. bounded_error exc max_bytes tb = Inr d \<and> json_bytes (PDict d) = Inr b \<and> int (length b) \<le> max_bytes"
proof -
  obtain d where d: "error_details exc True None None = Inr d" "flat_texts d" by (rule error_details_flat)
  have key: "list_all encodable (str ''traceback'')" "list_all encodable (str ''<traceback unavailable>'')"
    by (simp_all add: str_def encodable_def is_surrogate_def)
  obtain e where e: "(if tb then
              (case f_traceback exc of
                 None \<Rightarrow> Inr (dset d (skey ''traceback'') (skey ''<traceback unavailable>''))
               | Some text \<Rightarrow> rbind (safe_text text) (\<lambda>t. Inr (dset d (skey ''traceback'') (PStr t))))
            else Inr d) = (Inr e :: pydict res)" "flat_texts e"
    using d(2) flat_texts_dset [OF d(2) key(1)] key(2) replaced_encodable
    by (cases tb; cases "f_traceback exc") (auto simp: safe_text_total)
  have "bounded_error exc max_bytes tb = shrink_error (nat max_bytes) e"
    using assms d(1) e(1) by (simp add: bounded_error_def)
  with shrink_error_fits [OF e(2), of "nat max_bytes"] assms show ?thesis by (force simp: le_nat_iff)
qed

lemma bounded_result_Inr:
  assumes "bounded_result m size_error v = Inr r" and "pyval_wf v"
  shows "r = v" and "acceptable 32 10000 0 v"
    and "\<exists>b. json_bytes v = Inr b \<and> length b \<le> m \<and>
      (\<forall>rl\<ge>33. rbind (utf8_decode b) (json_loads no_duplicate_keys json_constant rl) = Inr (sort_deep v))"
proof -
  from assms obtain b where r: "r = v" and acc: "acceptable 32 10000 0 v" and b: "json_bytes v = Inr b" "length b \<le> m"
    by (auto simp: bounded_result_def rbind_eq_Inr normalize_json_exact simp del: acceptable.simps split: if_splits)
  obtain t where t: "json_dumps v = Inr t" "utf8_encode t = Inr b" using b(1) by (rule json_bytes_Inr)
  have "json_loads no_duplicate_keys json_constant rl t = Inr (sort_deep v)" if "33 \<le> rl" for rl
    using acceptable_jdepth [OF acc] that
    by (intro json_loads_dumps keeps_pairs_no_duplicate_keys t(1) acceptable_json_ok [OF acc assms(2)]) linarith
  with r acc b utf8_decode_encode [OF t(2)]
  show "r = v" "acceptable 32 10000 0 v" "\<exists>b. json_bytes v = Inr b \<and> length b \<le> m \<and>
      (\<forall>rl\<ge>33. rbind (utf8_decode b) (json_loads no_duplicate_keys json_constant rl) = Inr (sort_deep v))"
    by auto
qed

section \<open>Properties\<close>

text \<open>An error report always exists and always fits. For any exception, however its class
  name, message and traceback look (lone surrogates, text of any length, formatting that
  raises), the shrinking loop ends and yields an object whose UTF-8 JSON has at most the
  configured number of bytes.\<close>

theorem bounded_error_fits:
  assumes "2 \<le> max_bytes"
  shows "\<exists>d b. bounded_error exc max_bytes tb = Inr d \<and> json_bytes (PDict d) = Inr b \<and> int (length b) \<le> max_bytes"
  using assms by (rule bounded_error_ok)

theorem bounded_error_fits_witness:
  "\<exists>d b. bounded_error \<lparr>f_type = str ''ValueError'', f_message = Some (replicate 100000 0xD800), f_traceback = None\<rparr> 128 True
     = Inr d \<and> json_bytes (PDict d) = Inr b \<and> int (length b) \<le> 128"
  by (rule bounded_error_fits) simp

text \<open>A result that is reported as a success is the value the task returned, within the
  JSON limits and the size limit, and the peer's decoder reads exactly this value back (with
  sorted keys).\<close>

theorem run_task_result_bounded:
  assumes "run_task invoke t arguments m size_error on_awaitable s = (Inr r, s')"
    and "\<And>f pos kw v. invoke f pos kw = Inr (Plain v) \<or> invoke f pos kw = Inr (Awaitable (Inr v)) \<Longrightarrow> pyval_wf v"
  shows "acceptable 32 10000 0 r
    \<and> (\<exists>f pos kw. invoke f pos kw = Inr (Plain r) \<or> invoke f pos kw = Inr (Awaitable (Inr r)))
    \<and> (\<exists>b. json_bytes r = Inr b \<and> length b \<le> m \<and>
        (\<forall>rl\<ge>33. rbind (utf8_decode b) (json_loads no_duplicate_keys json_constant rl) = Inr (sort_deep r)))"
proof -
  have inv: "\<exists>f pos kw. invoke f pos kw = Inr x" if "call_from_arguments invoke t arguments = Inr x" for x
    using that by (auto simp: call_from_arguments_def rbind_eq_Inr split: pyval.splits option.splits)
  obtain v where v: "bounded_result m size_error v = Inr r"
    and f: "\<exists>f pos kw. invoke f pos kw = Inr (Plain v) \<or> invoke f pos kw = Inr (Awaitable (Inr v))"
  proof (cases "call_from_arguments invoke t arguments")
    case (Inr x)
    with assms(1) inv [OF Inr] that show thesis
      by (cases x) (fastforce simp: run_task_def rbind_eq_Inr split: prod.splits sum.splits)+
  qed (use assms(1) in \<open>simp add: run_task_def\<close>)
  have "pyval_wf v" using f assms(2) by blast
  from bounded_result_Inr [OF v this] f show ?thesis by simp
qed

theorem run_task_result_bounded_witness:
  "\<exists>r s'. run_task (\<lambda>_ _ _. Inr (Plain (PInt 7))) star_task (PDict []) 65536 ResultTooLarge (\<lambda>s. (Inr (), s)) ()
     = (Inr r, s') \<and> acceptable 32 10000 0 r"
proof -
  have "run_task (\<lambda>_ _ _. Inr (Plain (PInt 7))) star_task (PDict []) 65536 ResultTooLarge (\<lambda>s. (Inr (), s)) ()
     = (Inr (PInt 7), ())"
    by (simp add: run_task_def call_from_arguments_def star_task_def star_signature_def Let_def bounded_result_def
        normalize_json_exact json_bytes_def json_eval)
  from run_task_result_bounded [OF this] this show ?thesis by auto
qed

end
