(* ===== verification/SocketPath.thy ===== *)
theory SocketPath
  imports Validation
begin

section \<open>Socket discovery (\<^verbatim>\<open>tay/socket_path.py\<close>)\<close>

text \<open>
  The choice of the local Unix socket and the POSIX path functions it uses
  (\<^verbatim>\<open>os.path.join\<close>, \<^verbatim>\<open>os.path.normpath\<close>, \<^verbatim>\<open>os.path.abspath\<close>). The process
  environment, the user id, the working directory and the file system (which directories exist
  and are usable) are arguments, as in the source, and so is the \<^verbatim>\<open>__fspath__\<close> of a
  path-like object.

  Shown here: a returned path is absolute, free of NUL, at most 100 UTF-8 bytes and already
  normalised, so resolving it again returns it; and the documented precedence.
\<close>

subsection \<open>POSIX paths\<close>

definition slash :: codepoint where
  "slash = 47"

definition isabs :: "pystr \<Rightarrow> bool" where
  "isabs path = (path \<noteq> [] \<and> hd path = slash)"

fun path_join :: "pystr \<Rightarrow> pystr list \<Rightarrow> pystr" where
  "path_join path [] = path"
| "path_join path (b # parts) =
     path_join (if isabs b then b
                else if path = [] \<or> last path = slash then path @ b
                else path @ [slash] @ b) parts"

definition initial_slashes :: "pystr \<Rightarrow> nat" where
  "initial_slashes path =
     (if \<not> isabs path then 0
      else if take 2 path = [slash, slash] \<and> take 3 path \<noteq> [slash, slash, slash] then 2 else 1)"

definition norm_step :: "nat \<Rightarrow> pystr list \<Rightarrow> pystr \<Rightarrow> pystr list" where
  "norm_step slashes new_comps part =
     (if part = [] \<or> part = str ''.'' then new_comps
      else if part \<noteq> str ''..'' \<or> (slashes = 0 \<and> new_comps = [])
              \<or> (new_comps \<noteq> [] \<and> last new_comps = str ''..'')
      then new_comps @ [part]
      else butlast new_comps)"

definition norm_comps :: "pystr \<Rightarrow> pystr list" where
  "norm_comps path = foldl (norm_step (initial_slashes path)) [] (split_on slash path)"

definition normpath :: "pystr \<Rightarrow> pystr" where
  "normpath path =
     (if path = [] then str ''.''
      else (let p = replicate (initial_slashes path) slash @ join_with slash (norm_comps path) in
            if p = [] then str ''.'' else p))"

definition abspath :: "pystr \<Rightarrow> pystr \<Rightarrow> pystr" where
  "abspath cwd path = normpath (if isabs path then path else path_join cwd [path])"

subsection \<open>Definitions\<close>

definition MAX_SOCKET_PATH_BYTES :: nat where
  "MAX_SOCKET_PATH_BYTES = 100"

definition candidate :: "pystr \<Rightarrow> pystr \<Rightarrow> pystr list \<Rightarrow> pystr" where
  "candidate cwd parent parts = abspath cwd (path_join parent parts)"

definition valid_path :: "pyval \<Rightarrow> bool" where
  "valid_path path =
     (case path of
        PStr p \<Rightarrow>
          p \<noteq> [] \<and> isabs p \<and> 0 \<notin> set p \<and>
          (case utf8_size p of Inl _ \<Rightarrow> False | Inr n \<Rightarrow> n \<le> MAX_SOCKET_PATH_BYTES)
      | _ \<Rightarrow> False)"

definition validated_path :: "pystr \<Rightarrow> pyval \<Rightarrow> pystr res" where
  "validated_path cwd path =
     rbind (ensure (valid_path path) ValidationError) (\<lambda>_.
     let normalized = abspath cwd (case path of PStr p \<Rightarrow> p | _ \<Rightarrow> []) in
     rbind (ensure (valid_path (PStr normalized)) ValidationError) (\<lambda>_. Inr normalized))"

definition usable_directory :: "(pystr \<Rightarrow> bool) \<Rightarrow> (pystr \<Rightarrow> bool) \<Rightarrow> pystr \<Rightarrow> bool" where
  "usable_directory isdir access path = (isdir path \<and> access path)"

text \<open>What the process supplies: \<^verbatim>\<open>environ\<close>, \<^verbatim>\<open>uid\<close>, the working directory,
  \<^verbatim>\<open>usable_directory\<close>, \<^verbatim>\<open>directory_exists\<close> and \<^verbatim>\<open>os.fspath\<close> of objects.\<close>

record surroundings =
  environ :: "(pystr, pystr) dict"
  uid :: pyval
  cwd :: pystr
  usable :: "pystr \<Rightarrow> bool"
  exists :: "pystr \<Rightarrow> bool"
  fspath_object :: "string \<Rightarrow> pyval res"

definition fspath :: "surroundings \<Rightarrow> pyval \<Rightarrow> pyval res" where
  "fspath s v = (case v of PStr p \<Rightarrow> Inr v | POther t \<Rightarrow> fspath_object s t | _ \<Rightarrow> Inl TypeError)"

text \<open>\<^verbatim>\<open>environment.get(name)\<close>; the tests on it are for truth, so absent and empty agree.\<close>

definition getenv :: "surroundings \<Rightarrow> string \<Rightarrow> pystr" where
  "getenv s name = (case dget (environ s) (str name) of None \<Rightarrow> [] | Some v \<Rightarrow> v)"

definition own_directory :: "int \<Rightarrow> pystr res" where
  "own_directory user_id = rbind (int_repr user_id) (\<lambda>digits. Inr (str ''tay-'' @ digits))"

definition tmpdir_path :: "surroundings \<Rightarrow> int \<Rightarrow> pystr option res" where
  "tmpdir_path s user_id =
     (let tmpdir = getenv s ''TMPDIR'' in
      if tmpdir \<noteq> [] \<and> usable s tmpdir then
        rbind (own_directory user_id) (\<lambda>dir.
        let path = candidate (cwd s) tmpdir [dir, str ''tay.sock''] in
        Inr (if valid_path (PStr path) then Some path else None))
      else Inr None)"

definition fallback_path :: "surroundings \<Rightarrow> int \<Rightarrow> pystr res" where
  "fallback_path s user_id =
     (if usable s (str ''/tmp'') then
        rbind (own_directory user_id) (\<lambda>dir.
        validated_path (cwd s) (PStr (candidate (cwd s) (str ''/tmp'') [dir, str ''tay.sock''])))
      else Inl ValidationError)"

definition automatic_path :: "surroundings \<Rightarrow> int \<Rightarrow> (pystr \<times> string) res" where
  "automatic_path s user_id =
     (let xdg = getenv s ''XDG_RUNTIME_DIR'';
          xdg_path = candidate (cwd s) xdg [str ''tay'', str ''tay.sock''] in
      if xdg \<noteq> [] \<and> usable s xdg \<and> valid_path (PStr xdg_path) then Inr (xdg_path, ''XDG_RUNTIME_DIR'')
      else
        rbind (tmpdir_path s user_id) (\<lambda>tmp.
        case tmp of
          Some path \<Rightarrow> Inr (path, ''TMPDIR'')
        | None \<Rightarrow> rbind (fallback_path s user_id) (\<lambda>path. Inr (path, ''fallback /tmp''))))"

definition discover_socket_path :: "surroundings \<Rightarrow> pyval \<Rightarrow> (pystr \<times> string) res" where
  "discover_socket_path s explicit =
     (if explicit \<noteq> PNone then
        rbind (fspath s explicit) (\<lambda>p. rbind (validated_path (cwd s) p) (\<lambda>path. Inr (path, ''argument'')))
      else if getenv s ''TAY_SOCKET_PATH'' \<noteq> [] then
        rbind (validated_path (cwd s) (PStr (getenv s ''TAY_SOCKET_PATH''))) (\<lambda>path. Inr (path, ''TAY_SOCKET_PATH''))
      else if exists s (str ''/run/tay'') then Inr (str ''/run/tay/tay.sock'', ''shared /run/tay'')
      else
        (case uid s of
           PInt user_id \<Rightarrow> if user_id < 0 then Inl ValidationError else automatic_path s user_id
         | _ \<Rightarrow> Inl ValidationError))"

definition resolve_socket_path :: "surroundings \<Rightarrow> pyval \<Rightarrow> pystr res" where
  "resolve_socket_path s explicit = rbind (discover_socket_path s explicit) (\<lambda>r. Inr (fst r))"


subsection \<open>Normalisation\<close>

text \<open>A proper component of an absolute path.\<close>

definition proper :: "pystr \<Rightarrow> bool" where
  "proper x \<longleftrightarrow> x \<noteq> [] \<and> x \<noteq> str ''.'' \<and> x \<noteq> str ''..'' \<and> slash \<notin> set x"

lemma norm_step_proper:
  "0 < slashes \<Longrightarrow> list_all proper acc \<Longrightarrow> slash \<notin> set x \<Longrightarrow> list_all proper (norm_step slashes acc x)"
  by (auto simp: norm_step_def proper_def list_all_iff dest: in_set_butlastD)

lemma foldl_norm_step_proper:
  "0 < slashes \<Longrightarrow> list_all proper acc \<Longrightarrow> \<forall>x\<in>set xs. slash \<notin> set x \<Longrightarrow>
     list_all proper (foldl (norm_step slashes) acc xs)"
  by (induction xs arbitrary: acc) (simp_all add: norm_step_proper)

lemma norm_comps_proper: "isabs p \<Longrightarrow> list_all proper (norm_comps p)"
  unfolding norm_comps_def
  by (rule foldl_norm_step_proper) (auto simp: initial_slashes_def dest: split_on_no_sep)

lemma norm_step_keeps: "proper x \<Longrightarrow> norm_step slashes acc x = acc @ [x]"
  by (auto simp: norm_step_def proper_def)

lemma foldl_norm_step_keeps: "list_all proper xs \<Longrightarrow> foldl (norm_step slashes) acc xs = acc @ xs"
  by (induction xs arbitrary: acc) (simp_all add: norm_step_keeps)

lemma hd_join_proper: "list_all proper xs \<Longrightarrow> xs \<noteq> [] \<Longrightarrow> \<exists>c r. join_with slash xs = c # r \<and> c \<noteq> slash"
  by (induction slash xs rule: join_with.induct) (auto simp: proper_def neq_Nil_conv)

lemma norm_step_empty [simp]: "norm_step slashes acc [] = acc"
  by (simp add: norm_step_def)

lemma norm_comps_canonical:
  assumes "list_all proper xs" and "n = 1 \<or> n = 2"
  shows "norm_comps (replicate n slash @ join_with slash xs) = xs"
    and "initial_slashes (replicate n slash @ join_with slash xs) = n"
proof -
  let ?p = "replicate n slash @ join_with slash xs"
  show i: "initial_slashes ?p = n"
    using assms hd_join_proper [OF assms(1)]
    by (cases "xs = []") (auto simp: initial_slashes_def isabs_def numeral_2_eq_2 numeral_3_eq_3)
  have tl: "foldl (norm_step n) [] (split_on slash (join_with slash xs)) = xs"
  proof (cases "xs = []")
    case False
    then show ?thesis using assms(1)
      by (subst split_on_join) (auto simp: foldl_norm_step_keeps list_all_iff proper_def)
  qed simp
  show "norm_comps ?p = xs"
    unfolding norm_comps_def i using assms(2) tl by (auto simp: numeral_2_eq_2)
qed

lemma initial_slashes_isabs: "isabs p \<Longrightarrow> initial_slashes p = 1 \<or> initial_slashes p = 2"
  by (simp add: initial_slashes_def)

lemma normpath_abs:
  "isabs p \<Longrightarrow> normpath p = replicate (initial_slashes p) slash @ join_with slash (norm_comps p)"
  using initial_slashes_isabs [of p] by (auto simp: normpath_def isabs_def numeral_2_eq_2)

lemma isabs_normpath: "isabs p \<Longrightarrow> isabs (normpath p)"
  using initial_slashes_isabs [of p] by (auto simp: normpath_abs isabs_def numeral_2_eq_2)

lemma normpath_idem: "isabs p \<Longrightarrow> normpath (normpath p) = normpath p"
  using norm_comps_canonical [OF norm_comps_proper initial_slashes_isabs, of p p]
  by (simp add: normpath_abs [OF isabs_normpath]) (simp add: normpath_abs)

lemma abspath_normal:
  assumes "isabs w"
  shows "isabs (abspath w p)" and "normpath (abspath w p) = abspath w p"
proof -
  have "isabs (if isabs p then p else path_join w [p])" using assms by (auto simp: isabs_def)
  then show "isabs (abspath w p)" and "normpath (abspath w p) = abspath w p"
    unfolding abspath_def by (rule isabs_normpath normpath_idem)+
qed

lemma abspath_id: "isabs p \<Longrightarrow> normpath p = p \<Longrightarrow> abspath w p = p"
  by (simp add: abspath_def)

subsection \<open>The paths returned\<close>

lemma valid_path_isabs: "valid_path (PStr p) \<Longrightarrow> isabs p"
  by (simp add: valid_path_def)

lemma validated_path_Inr:
  assumes "validated_path w v = Inr path"
  shows "valid_path (PStr path) \<and> normpath path = path"
proof -
  from assms obtain p where p: "v = PStr p" "valid_path (PStr p)" "path = abspath w p" "valid_path (PStr path)"
    by (cases v) (auto simp: validated_path_def rbind_eq_Inr Let_def valid_path_def)
  then have "path = normpath p" using valid_path_isabs [OF p(2)] by (simp add: abspath_def)
  with p(4) valid_path_isabs [OF p(2)] show ?thesis by (metis normpath_idem)
qed

lemma validated_path_error: "validated_path w v = Inl e \<Longrightarrow> e = ValidationError"
  by (auto simp: validated_path_def rbind_eq_Inl Let_def)

lemma validated_path_id:
  "valid_path (PStr p) \<Longrightarrow> normpath p = p \<Longrightarrow> validated_path w (PStr p) = Inr p"
  using valid_path_isabs [of p] by (simp add: validated_path_def abspath_id)

lemma candidate_normal: "isabs w \<Longrightarrow> normpath (candidate w parent parts) = candidate w parent parts"
  by (simp add: candidate_def abspath_normal)

lemma shared_path_valid:
  "valid_path (PStr (str ''/run/tay/tay.sock'')) \<and> normpath (str ''/run/tay/tay.sock'') = str ''/run/tay/tay.sock''"
  by (simp add: valid_path_def isabs_def slash_def text_eval MAX_SOCKET_PATH_BYTES_def normpath_def
      norm_comps_def norm_step_def initial_slashes_def)

lemma automatic_path_Inr:
  assumes "isabs (cwd s)" and "automatic_path s user_id = Inr (path, source)"
  shows "valid_path (PStr path) \<and> normpath path = path"
  using assms candidate_normal [OF assms(1)]
  by (auto simp: automatic_path_def tmpdir_path_def fallback_path_def rbind_eq_Inr Let_def
      dest!: validated_path_Inr split: if_splits option.splits)

lemma discover_socket_path_Inr:
  assumes "isabs (cwd s)" and "discover_socket_path s explicit = Inr (path, source)"
  shows "valid_path (PStr path) \<and> normpath path = path"
  using assms(2) automatic_path_Inr [OF assms(1)] shared_path_valid
  by (auto simp: discover_socket_path_def rbind_eq_Inr dest!: validated_path_Inr
      split: if_splits pyval.splits)

lemma digits_ascii: "list_all (\<lambda>c. 48 \<le> c \<and> c < 58) (digit_text (dec_digits n))"
  using dec_digits_lt [of _ n] by (auto simp: digit_text_def list_all_iff)

lemma own_directory_small:
  assumes "0 \<le> n" and "n < 2 ^ 32"
  obtains ds where "own_directory n = Inr (str ''tay-'' @ ds)" and "length ds \<le> 10"
    and "list_all (\<lambda>c. 48 \<le> c \<and> c < 58) ds"
proof -
  define ds where "ds = dec_digits (nat n)"
  have l: "length ds \<le> 10" unfolding ds_def using length_dec_digits [of "nat n" 9] assms by simp
  then have "int_repr n = Inr (digit_text ds)"
    using assms(1) by (simp add: int_repr_def Let_def ds_def max_str_digits_def)
  with l that [of "digit_text ds"] digits_ascii [of "nat n"] show thesis
    by (simp add: own_directory_def ds_def digit_text_def)
qed

lemma fallback_text:
  assumes "length ds \<le> 10" and "list_all (\<lambda>c. 48 \<le> c \<and> c < 58) ds"
  shows "validated_path w (PStr (candidate w (str ''/tmp'') [str ''tay-'' @ ds, str ''tay.sock'']))
    = Inr (str ''/tmp/tay-'' @ ds @ str ''/tay.sock'')"
proof -
  let ?own = "str ''tay-'' @ ds"
  let ?p = "str ''/tmp/tay-'' @ ds @ str ''/tay.sock''"
  let ?xs = "[str ''tmp'', ?own, str ''tay.sock'']"
  have "slash \<notin> set ds" using assms(2) by (auto simp: slash_def list_all_iff)
  then have sep: "ds \<noteq> [] \<Longrightarrow> last ds \<noteq> slash" using last_in_set [of ds] by metis
  have proper: "list_all proper ?xs" using \<open>slash \<notin> set ds\<close> by (auto simp: proper_def slash_def str_def)
  have p: "?p = replicate 1 slash @ join_with slash ?xs" by (simp add: str_def slash_def)
  have abs: "isabs ?p" by (simp add: isabs_def str_def slash_def)
  have "normpath ?p = ?p"
    unfolding normpath_abs [OF abs] using norm_comps_canonical [OF proper, of 1] unfolding p by simp
  moreover have "candidate w (str ''/tmp'') [?own, str ''tay.sock''] = abspath w ?p"
    using sep by (simp add: candidate_def isabs_def str_def slash_def)
  moreover have "valid_path (PStr ?p)"
  proof -
    have "list_all (\<lambda>c. c < 128) ?p" using assms(2) by (auto simp: str_def list_all_iff)
    then have "utf8_size ?p = Inr (length ?p)" by (simp add: utf8_size_def utf8_encode_ascii)
    moreover have "0 \<notin> set ?p" using assms(2) by (auto simp: str_def list_all_iff)
    moreover have "length ?p \<le> 100" using assms(1) by simp
    ultimately show ?thesis using abs by (simp add: valid_path_def MAX_SOCKET_PATH_BYTES_def isabs_def)
  qed
  ultimately show ?thesis using abs by (simp add: abspath_id validated_path_id)
qed

lemma automatic_path_succeeds:
  assumes "0 \<le> n" and "n < 2 ^ 32" and "usable s (str ''/tmp'')"
  shows "\<exists>path source. automatic_path s n = Inr (path, source)"
proof -
  obtain ds where ds: "own_directory n = Inr (str ''tay-'' @ ds)" "length ds \<le> 10"
    "list_all (\<lambda>c. 48 \<le> c \<and> c < 58) ds"
    using assms(1,2) by (rule own_directory_small)
  then show ?thesis
    using assms(3) fallback_text [OF ds(2,3), of "cwd s"]
    by (auto simp: automatic_path_def tmpdir_path_def fallback_path_def Let_def)
qed

section \<open>Properties\<close>

text \<open>C29: a discovered socket path, whatever selected it, is an absolute NUL-free path of at
  most 100 UTF-8 bytes in normal form, and passing it on explicitly, in any other process
  environment, selects exactly this path. (The working directory of a process is absolute.)\<close>

theorem discovered_path_stable:
  assumes "isabs (cwd s)" and "discover_socket_path s explicit = Inr (path, source)"
  shows "valid_path (PStr path) \<and> normpath path = path
    \<and> discover_socket_path s' (PStr path) = Inr (path, ''argument'')"
  using discover_socket_path_Inr [OF assms] by (simp add: discover_socket_path_def fspath_def validated_path_id)

theorem discovered_path_stable_witness:
  "valid_path (PStr (str ''/run/tay/tay.sock''))"
proof -
  let ?s = "\<lparr>environ = [], uid = PInt 0, cwd = str ''/'', usable = \<lambda>_. False, exists = \<lambda>_. True,
    fspath_object = \<lambda>_. Inl TypeError\<rparr>"
  have "discover_socket_path ?s PNone = Inr (str ''/run/tay/tay.sock'', ''shared /run/tay'')"
    by (simp add: discover_socket_path_def getenv_def)
  moreover have "isabs (cwd ?s)" by (simp add: isabs_def str_def slash_def)
  ultimately show ?thesis using discovered_path_stable [of ?s] by blast
qed

text \<open>A configured path is never silently replaced: when an explicit path or
  \<^verbatim>\<open>TAY_SOCKET_PATH\<close> is given, discovery uses it or raises \<^verbatim>\<open>ValidationError\<close>;
  and when neither is given it always finds a path for a Unix user id as long as
  \<^verbatim>\<open>/tmp\<close> is usable.\<close>

theorem discovery_precedence:
  assumes "0 \<le> n" and "n < 2 ^ 32" and "uid s = PInt n" and "usable s (str ''/tmp'')"
  shows "discover_socket_path s (PStr p) \<in> {Inl ValidationError, Inr (normpath p, ''argument'')}
    \<and> (if getenv s ''TAY_SOCKET_PATH'' \<noteq> [] then
         discover_socket_path s PNone
           \<in> {Inl ValidationError, Inr (normpath (getenv s ''TAY_SOCKET_PATH''), ''TAY_SOCKET_PATH'')}
       else \<exists>path source. discover_socket_path s PNone = Inr (path, source))"
proof -
  have v: "validated_path (cwd s) (PStr q) \<in> {Inl ValidationError, Inr (normpath q)}" for q
    using valid_path_isabs [of q] by (auto simp: validated_path_def ensure_def abspath_def Let_def)
  show ?thesis
    using v [of p] v [of "getenv s ''TAY_SOCKET_PATH''"] automatic_path_succeeds [of n s] assms
    by (auto simp: discover_socket_path_def fspath_def)
qed

theorem discovery_precedence_witness:
  "\<exists>path source. discover_socket_path
     \<lparr>environ = [], uid = PInt 1000, cwd = str ''/'', usable = \<lambda>_. True, exists = \<lambda>_. False,
       fspath_object = \<lambda>_. Inl TypeError\<rparr> PNone = Inr (path, source)"
  using discovery_precedence [of 1000 "\<lparr>environ = [], uid = PInt 1000, cwd = str ''/'', usable = \<lambda>_. True,
    exists = \<lambda>_. False, fspath_object = \<lambda>_. Inl TypeError\<rparr>" "[]"]
  by (simp add: getenv_def)

end
