(* ===== verification/Client.thy ===== *)
theory Client
  imports Execution SocketPath
begin

section \<open>The socket client and embedded executor (\<^verbatim>\<open>tay/client.py\<close>)\<close>

text \<open>
  The class \<^verbatim>\<open>Tay\<close> as a state machine. The code is cooperative: between two
  \<^verbatim>\<open>await\<close>s nothing else runs, so each operation below is one such atomic section of a
  method, a function on the record \<open>client\<close> of the object's attributes. What happens outside
  is an argument: the fresh \<^verbatim>\<open>uuid4\<close> of a message (\<open>rid\<close>), whether
  \<^verbatim>\<open>drain()\<close> raised (\<open>io\<close>), the message the peer sent, what a task returned.

  A \<^verbatim>\<open>StreamWriter\<close> is a number (\<open>conn\<close>), so that \<^verbatim>\<open>is\<close> is equality;
  futures and the asyncio tasks of executions (\<open>run\<close>) live in tables of their own, because
  the attributes refer to them and drop them at different times. \<open>sent\<close> is the ghost log of
  the envelopes written, with the connection each was written to.

  \<open>surface\<close> collects what the SDK takes from Python and its libraries: the text of an
  exception, \<^verbatim>\<open>repr\<close> and SHA-256.
\<close>

subsection \<open>Construction\<close>

definition DEFAULT_MAX_RESULT_BYTES :: int where "DEFAULT_MAX_RESULT_BYTES = 65536"
definition DEFAULT_MAX_ERROR_BYTES :: int where "DEFAULT_MAX_ERROR_BYTES = 8192"

definition MODES :: "pyval list" where
  "MODES = [skey ''client'', skey ''embedded'', skey ''worker'']"

record client_args =
  a_mode :: pyval
  a_socket_path :: pyval
  a_capacity :: pyval
  a_client_id :: pyval
  a_max_frame_bytes :: pyval
  a_max_result_bytes :: pyval
  a_max_error_bytes :: pyval
  a_request_timeout :: pyval
  a_connect_timeout :: pyval
  a_reconnect_initial_delay :: pyval
  a_reconnect_max_delay :: pyval
  a_include_traceback :: pyval

record config =
  mode :: pyval
  socket_path :: pystr
  capacity :: int
  client_id :: pystr
  max_frame_bytes :: int
  max_result_bytes :: int
  max_error_bytes :: int
  request_timeout :: pyfloat
  connect_timeout :: pyfloat
  reconnect_initial_delay :: pyfloat
  reconnect_max_delay :: pyfloat
  include_traceback :: bool

fun int_of :: "pyval \<Rightarrow> int" where
  "int_of (PInt n) = n"
| "int_of _ = 0"

definition int_at_least :: "int \<Rightarrow> pyval \<Rightarrow> bool" where
  "int_at_least lo v = (case v of PInt n \<Rightarrow> lo \<le> n | _ \<Rightarrow> False)"

text \<open>\<open>uuid\<close> is the fresh hexadecimal id of \<^verbatim>\<open>uuid.uuid4().hex\<close>.\<close>

definition client_init :: "surroundings \<Rightarrow> pystr \<Rightarrow> client_args \<Rightarrow> config res" where
  "client_init sur uuid a =
     rbind (ensure (a_mode a \<in> set MODES) ValidationError) (\<lambda>_.
     rbind (ensure (int_in_range 1 65535 (a_capacity a)) ValidationError) (\<lambda>_.
     rbind (ensure (int_at_least 256 (a_max_frame_bytes a)) ValidationError) (\<lambda>_.
     rbind (ensure (int_at_least 1 (a_max_result_bytes a)) ValidationError) (\<lambda>_.
     rbind (ensure (int_at_least 128 (a_max_error_bytes a)) ValidationError) (\<lambda>_.
     rbind (positive_finite (a_request_timeout a)) (\<lambda>request.
     rbind (positive_finite (a_connect_timeout a)) (\<lambda>connect.
     rbind (positive_finite (a_reconnect_initial_delay a)) (\<lambda>initial.
     rbind (positive_finite (a_reconnect_max_delay a)) (\<lambda>maximum.
     rbind (ensure (\<not> num_less (PFloat maximum) (PFloat initial)) ValidationError) (\<lambda>_.
     rbind (resolve_socket_path sur (a_socket_path a)) (\<lambda>path.
     rbind (identifier_check (if a_client_id a = PNone then PStr (str ''python-'' @ uuid) else a_client_id a)) (\<lambda>cid.
     Inr \<lparr>mode = a_mode a, socket_path = path, capacity = int_of (a_capacity a), client_id = cid,
          max_frame_bytes = int_of (a_max_frame_bytes a), max_result_bytes = int_of (a_max_result_bytes a),
          max_error_bytes = int_of (a_max_error_bytes a), request_timeout = request, connect_timeout = connect,
          reconnect_initial_delay = initial, reconnect_max_delay = maximum,
          include_traceback = truthy (a_include_traceback a)\<rparr>))))))))))))"

subsection \<open>State\<close>

type_synonym conn = nat

datatype fut = Waiting | Done pydict | Failed exn | Dropped

datatype phase = Created | Started | Over

record run =
  r_execution :: pystr
  r_reservation :: pystr
  r_job :: pystr
  r_task :: task
  r_arguments :: pydict
  r_conn :: "conn option"
  r_phase :: phase
  r_cancel :: bool

record client =
  cfg :: config
  self_id :: nat
  tasks :: registry
  registered_task_names :: "pystr list"
  schedule_declarations :: "(pystr, pydict) dict"
  withdrawn_schedules :: "pystr list"
  running :: bool
  closing :: bool
  connected :: bool
  connection_lost :: bool
  loop_id :: "nat option"
  writer :: "conn option"
  closed_writers :: "conn list"
  pending :: "(pystr, nat) dict"
  futures :: "(nat, fut) dict"
  event_request_ids :: "pystr list"
  executions :: "(pystr, nat) dict"
  execution_is_sync :: "(pystr, bool) dict"
  execution_connections :: "(pystr, conn option) dict"
  runs :: "(nat, run) dict"
  sent :: "(conn \<times> pydict) list"

definition initial_client :: "config \<Rightarrow> nat \<Rightarrow> client" where
  "initial_client c self =
     \<lparr>cfg = c, self_id = self, tasks = [], registered_task_names = [], schedule_declarations = [],
      withdrawn_schedules = [], running = False, closing = False, connected = False, connection_lost = True,
      loop_id = None, writer = None, closed_writers = [], pending = [], futures = [], event_request_ids = [],
      executions = [], execution_is_sync = [], execution_connections = [], runs = [], sent = []\<rparr>"

record surface =
  describe :: "exn \<Rightarrow> failure"
  repr_of :: "pyval \<Rightarrow> pystr"
  sha256_of :: "bytes \<Rightarrow> pystr"

definition in_mode :: "client \<Rightarrow> string \<Rightarrow> bool" where
  "in_mode s m = (mode (cfg s) = skey m)"

definition is_connected :: "client \<Rightarrow> bool" where
  "is_connected s = (connected s \<and> writer s \<noteq> None)"

subsection \<open>Declaring tasks\<close>

definition client_task_config :: "task_config \<Rightarrow> task_config res" where
  "client_task_config raw =
     rbind (if tc_every raw \<noteq> PNone then rbind (validate_every (tc_every raw)) (\<lambda>d. Inr (PDict d)) else Inr PNone) (\<lambda>every.
     post_init (raw\<lparr>tc_every := every\<rparr>))"

definition declare_task :: "callable \<Rightarrow> pyval \<Rightarrow> task_config \<Rightarrow> client \<Rightarrow> task res \<times> client" where
  "declare_task f name raw s =
     (case rbind (client_task_config raw) (\<lambda>c. register_task (self_id s) (tasks s) f name c) of
        Inl e \<Rightarrow> (Inl e, s)
      | Inr (t, registry) \<Rightarrow>
          (Inr t, s\<lparr>tasks := registry, registered_task_names := List.insert (t_name t) (registered_task_names s)\<rparr>))"

definition task_name :: "client \<Rightarrow> task_ref \<Rightarrow> pystr res" where
  "task_name s t =
     (case t of
        Declared owner name \<Rightarrow> if owner \<noteq> self_id s then Inl ValidationError else Inr name
      | Named v \<Rightarrow> validate_task_name v)"

definition registered_task_name :: "client \<Rightarrow> task_ref \<Rightarrow> pystr res" where
  "registered_task_name s t =
     rbind (task_name s t) (\<lambda>name.
     rbind (ensure (dget (tasks s) name \<noteq> None) TaskRegistrationError) (\<lambda>_. Inr name))"

subsection \<open>Sending\<close>

definition send_envelope :: "conn option \<Rightarrow> unit res \<Rightarrow> pydict \<Rightarrow> client \<Rightarrow> unit res \<times> client" where
  "send_envelope connection io envelope s =
     (let w = (if connection = None then writer s else connection) in
      case w of
        None \<Rightarrow> (Inl ConnectionLost, s)
      | Some c \<Rightarrow>
          if c \<in> set (closed_writers s) then (Inl ConnectionLost, s)
          else
            (case encode_frame (max_frame_bytes (cfg s)) (PDict envelope) of
               Inl e \<Rightarrow> (Inl e, s)
             | Inr frame \<Rightarrow>
                 if writer s \<noteq> w then (Inl ConnectionLost, s)
                 else
                   (let s = s\<lparr>sent := sent s @ [(c, envelope)]\<rparr> in
                    case io of
                      Inr _ \<Rightarrow> (Inr (), s)
                    | Inl e \<Rightarrow>
                        if is_OSError e then (Inl ConnectionLost, s\<lparr>connection_lost := True\<rparr>) else (Inl e, s))))"

definition make_envelope :: "string \<Rightarrow> pystr \<Rightarrow> pydict \<Rightarrow> pydict res" where
  "make_envelope message_type rid body =
     rbind (normalize_json (PDict body)) (\<lambda>v.
     Inr (dupdate [(skey ''version'', PInt PROTOCOL_VERSION), (skey ''type'', skey message_type),
                   (skey ''request_id'', PStr rid)] (case v of PDict d \<Rightarrow> d | _ \<Rightarrow> [])))"

definition send_event :: "string \<Rightarrow> pydict \<Rightarrow> conn option \<Rightarrow> pystr \<Rightarrow> unit res \<Rightarrow> client \<Rightarrow> unit res \<times> client" where
  "send_event message_type body connection rid io s =
     (case make_envelope message_type rid body of
        Inl e \<Rightarrow> (Inl e, s)
      | Inr envelope \<Rightarrow>
          (case send_envelope connection io envelope
                  (s\<lparr>event_request_ids := List.insert rid (event_request_ids s)\<rparr>) of
             (Inr _, s) \<Rightarrow> (Inr (), s)
           | (Inl e, s) \<Rightarrow>
               (Inl e, if is_Exception e then s\<lparr>event_request_ids := removeAll rid (event_request_ids s)\<rparr> else s)))"

subsection \<open>Requests\<close>

text \<open>\<^verbatim>\<open>_exchange\<close> up to the wait: the future is entered before the envelope is
  written; when writing fails the \<^verbatim>\<open>finally\<close> clause has removed and cancelled it.\<close>

definition fresh_future :: "client \<Rightarrow> nat" where
  "fresh_future s = length (futures s)"

definition drop_future :: "nat \<Rightarrow> client \<Rightarrow> client" where
  "drop_future f s =
     (if dget (futures s) f = Some Waiting then s\<lparr>futures := dset (futures s) f Dropped\<rparr> else s)"

definition exchange_finally :: "pystr \<Rightarrow> nat \<Rightarrow> client \<Rightarrow> client" where
  "exchange_finally rid f s = drop_future f (s\<lparr>pending := dpop (pending s) rid\<rparr>)"

definition exchange_begin :: "string \<Rightarrow> pydict \<Rightarrow> pystr \<Rightarrow> unit res \<Rightarrow> client \<Rightarrow> nat res \<times> client" where
  "exchange_begin message_type body rid io s =
     (case make_envelope message_type rid body of
        Inl e \<Rightarrow> (Inl e, s)
      | Inr envelope \<Rightarrow>
          if writer s = None then (Inl ConnectionLost, s)
          else
            (let f = fresh_future s;
                 s = s\<lparr>futures := dset (futures s) f Waiting, pending := dset (pending s) rid f\<rparr>
             in case send_envelope None io envelope s of
                  (Inr _, s) \<Rightarrow> (Inr f, s)
                | (Inl e, s) \<Rightarrow> (Inl e, exchange_finally rid f s)))"

text \<open>\<^verbatim>\<open>_exchange\<close> after the wait: the reply or error in the future, or, when it is still
  waiting, the timeout.\<close>

definition exchange_end :: "pystr \<Rightarrow> nat \<Rightarrow> client \<Rightarrow> pydict res \<times> client" where
  "exchange_end rid f s =
     ((case dget (futures s) f of
         Some (Done reply) \<Rightarrow> Inr reply
       | Some (Failed e) \<Rightarrow> Inl e
       | Some Dropped \<Rightarrow> Inl CancelledError
       | _ \<Rightarrow> Inl ConnectionLost),
      exchange_finally rid f s)"

definition fail_pending :: "exn \<Rightarrow> client \<Rightarrow> client" where
  "fail_pending e s =
     s\<lparr>pending := [],
       futures := map (\<lambda>(f, v). (f, if f \<in> set (map snd (pending s)) \<and> v = Waiting then Failed e else v)) (futures s)\<rparr>"

subsection \<open>Executions\<close>

text \<open>\<^verbatim>\<open>contextlib.suppress(ConnectionLost, OSError)\<close>.\<close>

definition suppress_lost :: "unit res \<times> client \<Rightarrow> unit res \<times> client" where
  "suppress_lost r = (case r of (Inl e, s) \<Rightarrow> (if is_OSError e then Inr () else Inl e, s) | _ \<Rightarrow> r)"

definition client_bounded_error :: "surface \<Rightarrow> client \<Rightarrow> exn \<Rightarrow> pydict res" where
  "client_bounded_error su s e = bounded_error (describe su e) (max_error_bytes (cfg s)) (include_traceback (cfg s))"

definition execution_failure ::
  "surface \<Rightarrow> pydict \<Rightarrow> exn \<Rightarrow> pystr \<Rightarrow> unit res \<Rightarrow> client \<Rightarrow> unit res \<times> client" where
  "execution_failure su message e rid io s =
     (if \<not> nonempty_str (get_field message ''execution_id'') \<or> \<not> nonempty_str (get_field message ''reservation_id'')
      then (Inl ProtocolError, s)
      else
        (case client_bounded_error su s e of
           Inl x \<Rightarrow> (Inl x, s)
         | Inr err \<Rightarrow>
             (let body = [(skey ''reservation_id'', get_field message ''reservation_id''),
                            (skey ''execution_id'', get_field message ''execution_id''), (skey ''error'', PDict err)];
                  body = (case get_field message ''job_id'' of
                              PStr j \<Rightarrow> body @ [(skey ''job_id'', PStr j)] | _ \<Rightarrow> body)
              in suppress_lost (send_event ''failed'' body None rid io s))))"

definition start_run :: "pystr \<Rightarrow> pystr \<Rightarrow> pystr \<Rightarrow> task \<Rightarrow> pydict \<Rightarrow> client \<Rightarrow> client" where
  "start_run reservation_id execution_id job_id t arguments s =
     (let k = length (runs s);
          r = \<lparr>r_execution = execution_id, r_reservation = reservation_id, r_job = job_id, r_task = t,
               r_arguments = arguments, r_conn = writer s, r_phase = Created, r_cancel = False\<rparr>
      in s\<lparr>runs := dset (runs s) k r, executions := dset (executions s) execution_id k,
           execution_is_sync := dset (execution_is_sync s) execution_id (\<not> c_coroutine (t_function t)),
           execution_connections := dset (execution_connections s) execution_id (writer s)\<rparr>)"

definition accept_execution :: "surface \<Rightarrow> pydict \<Rightarrow> pystr \<Rightarrow> unit res \<Rightarrow> client \<Rightarrow> unit res \<times> client" where
  "accept_execution su message rid io s =
     (if in_mode s ''client'' then execution_failure su message TaskNotRegistered rid io s
      else
        (case (get_field message ''execution_id'', get_field message ''reservation_id'', get_field message ''job_id'',
               get_default message ''task'' (get_field message ''task_name'')) of
           (PStr execution_id, PStr reservation_id, PStr job_id, PStr name) \<Rightarrow>
             if execution_id = [] \<or> reservation_id = [] \<or> job_id = [] then (Inl ProtocolError, s)
             else
               (case get_default message ''args'' (PDict []) of
                  PDict arguments \<Rightarrow>
                    (case dget (tasks s) name of
                       None \<Rightarrow> execution_failure su message TaskNotRegistered rid io s
                     | Some t \<Rightarrow>
                         if dget (executions s) execution_id \<noteq> None then
                           send_event ''started'' [(skey ''reservation_id'', PStr reservation_id),
                             (skey ''execution_id'', PStr execution_id)] None rid io s
                         else if capacity (cfg s) \<le> int (length (executions s)) then
                           execution_failure su message
                             (ServerExn ServerError (str ''executor capacity exceeded'') (Some (str ''over_capacity'')) PNone)
                             rid io s
                         else (Inr (), start_run reservation_id execution_id job_id t arguments s))
                | _ \<Rightarrow> execution_failure su message ValidationError rid io s)
         | _ \<Rightarrow> (Inl ProtocolError, s)))"

definition cancel_run :: "nat \<Rightarrow> client \<Rightarrow> client" where
  "cancel_run k s =
     (case dget (runs s) k of None \<Rightarrow> s | Some r \<Rightarrow> s\<lparr>runs := dset (runs s) k (r\<lparr>r_cancel := True\<rparr>)\<rparr>)"

text \<open>\<^verbatim>\<open>cancel_async_execution(self._executions.get(key), self._execution_is_sync.get(key, False))\<close>.\<close>

definition cancel_if_async :: "pystr \<Rightarrow> client \<Rightarrow> client" where
  "cancel_if_async key s =
     (let sync = (case dget (execution_is_sync s) key of Some b \<Rightarrow> b | None \<Rightarrow> False) in
      case dget (executions s) key of
        Some k \<Rightarrow> if cancel_async_execution (Some k) sync then cancel_run k s else s
      | None \<Rightarrow> s)"

definition cancel_execution :: "pydict \<Rightarrow> client \<Rightarrow> unit res \<times> client" where
  "cancel_execution message s =
     (case get_field message ''execution_id'' of
        PStr e \<Rightarrow> if e = [] then (Inl ProtocolError, s) else (Inr (), cancel_if_async e s)
      | _ \<Rightarrow> (Inl ProtocolError, s))"

text \<open>\<^verbatim>\<open>_execution_finished\<close>, called when the asyncio task of an execution is done.\<close>

definition execution_finished :: "nat \<Rightarrow> client \<Rightarrow> client" where
  "execution_finished k s =
     (case dget (runs s) k of
        None \<Rightarrow> s
      | Some r \<Rightarrow>
          s\<lparr>runs := dset (runs s) k (r\<lparr>r_phase := Over\<rparr>),
            executions := dpop (executions s) (r_execution r),
            execution_is_sync := dpop (execution_is_sync s) (r_execution r),
            execution_connections := dpop (execution_connections s) (r_execution r)\<rparr>)"

text \<open>Whether the connection that delivered an execution is no longer the client's.\<close>

definition stale :: "run \<Rightarrow> client \<Rightarrow> bool" where
  "stale r s = (r_conn r \<noteq> None \<and> writer s \<noteq> r_conn r)"

text \<open>The inner \<^verbatim>\<open>send_event\<close> of \<^verbatim>\<open>_run_execution\<close>.\<close>

definition send_run_event :: "run \<Rightarrow> string \<Rightarrow> pydict \<Rightarrow> pystr \<Rightarrow> unit res \<Rightarrow> client \<Rightarrow> unit res \<times> client" where
  "send_run_event r kind body rid io s =
     (if stale r s then (Inr (), s) else send_event kind body (r_conn r) rid io s)"

definition run_context :: "run \<Rightarrow> pydict" where
  "run_context r = [(skey ''reservation_id'', PStr (r_reservation r)), (skey ''execution_id'', PStr (r_execution r)),
     (skey ''job_id'', PStr (r_job r))]"

text \<open>\<^verbatim>\<open>_run_execution\<close> up to the call of the task. A task cancelled before its first step
  never runs.\<close>

definition run_begin :: "nat \<Rightarrow> pystr \<Rightarrow> unit res \<Rightarrow> client \<Rightarrow> client" where
  "run_begin k rid io s =
     (case dget (runs s) k of
        Some r \<Rightarrow>
          if r_phase r \<noteq> Created then s
          else if r_cancel r \<or> stale r s then execution_finished k s
          else (case send_run_event r ''started'' (run_context r) rid io s of
                  (Inl _, s) \<Rightarrow> execution_finished k s
                | (Inr _, s) \<Rightarrow> s\<lparr>runs := dset (runs s) k (r\<lparr>r_phase := Started\<rparr>)\<rparr>)
      | None \<Rightarrow> s)"

text \<open>The callback \<^verbatim>\<open>awaitable_started\<close>.\<close>

definition awaitable_started :: "run \<Rightarrow> client \<Rightarrow> unit res \<times> client" where
  "awaitable_started r s =
     (let s = s\<lparr>execution_is_sync := dset (execution_is_sync s) (r_execution r) False\<rparr> in
      (if stale r s then Inl CancelledError else Inr (), s))"

text \<open>\<^verbatim>\<open>_run_execution\<close> from the outcome of \<^verbatim>\<open>run_task\<close> on.\<close>

definition settle_fields :: "surface \<Rightarrow> client \<Rightarrow> run \<Rightarrow> pyval res \<Rightarrow> (string \<times> pydict) res" where
  "settle_fields su s r outcome =
     (case outcome of
        Inr result \<Rightarrow> Inr (''succeeded'', run_context r @ [(skey ''result'', result)])
      | Inl e \<Rightarrow>
          if e = CancelledError then
            Inr (''failed'', run_context r @ [(skey ''error'', PDict
              [(skey ''type'', skey ''CancelledError''),
               (skey ''message'', skey ''async execution cancelled cooperatively''),
               (skey ''cancelled'', PBool True)])])
          else rbind (client_bounded_error su s e) (\<lambda>err.
               Inr (''failed'', run_context r @ [(skey ''error'', PDict err)])))"

definition run_settle :: "surface \<Rightarrow> nat \<Rightarrow> pyval res \<Rightarrow> pystr \<Rightarrow> unit res \<Rightarrow> client \<Rightarrow> client" where
  "run_settle su k outcome rid io s =
     (case dget (runs s) k of
        Some r \<Rightarrow>
          if r_phase r \<noteq> Started then s
          else (case settle_fields su s r outcome of
                  Inl _ \<Rightarrow> execution_finished k s
                | Inr (kind, body) \<Rightarrow> execution_finished k (snd (send_run_event r kind body rid io s)))
      | None \<Rightarrow> s)"

text \<open>The section in between: the call may find its connection gone, or run the task, whose
  awaitable first passes the callback.\<close>

definition run_call :: "surface \<Rightarrow> invocation \<Rightarrow> nat \<Rightarrow> pystr \<Rightarrow> unit res \<Rightarrow> client \<Rightarrow> client" where
  "run_call su invoke k rid io s =
     (case dget (runs s) k of
        Some r \<Rightarrow>
          if r_phase r \<noteq> Started then s
          else if stale r s then execution_finished k s
          else (case run_task invoke (r_task r) (PDict (r_arguments r)) (nat (max_result_bytes (cfg s))) ResultTooLarge
                       (awaitable_started r) s of
                  (outcome, s) \<Rightarrow> run_settle su k outcome rid io s)
      | None \<Rightarrow> s)"

subsection \<open>Incoming messages\<close>

definition handle_message :: "surface \<Rightarrow> pydict \<Rightarrow> pystr \<Rightarrow> unit res \<Rightarrow> client \<Rightarrow> unit res \<times> client" where
  "handle_message su message rid io s =
     (let kind = get_field message ''type''; request_id = get_field message ''request_id'' in
      if kind = skey ''execute'' then accept_execution su message rid io s
      else if kind = skey ''cancel_execution'' then cancel_execution message s
      else if kind = skey ''ping'' then
        send_event ''pong'' [(skey ''ping_id'', get_field message ''ping_id'')] None rid io s
      else
        (case request_id of
           PStr q \<Rightarrow>
             if kind \<in> {skey ''accepted'', skey ''heartbeat_ok''} \<and> q \<in> set (event_request_ids s) then
               (Inr (), s\<lparr>event_request_ids := removeAll q (event_request_ids s)\<rparr>)
             else
               (case dget (pending s) q of
                  None \<Rightarrow> (Inl ProtocolError, s)
                | Some f \<Rightarrow>
                    (let s = s\<lparr>pending := dpop (pending s) q\<rparr> in
                     if dget (futures s) f = Some Waiting then
                       (Inr (), s\<lparr>futures := dset (futures s) f
                          (if kind \<in> {skey ''error'', skey ''protocol_error''}
                           then Failed (server_error_from_payload (repr_of su) (get_default message ''error'' (PDict message)))
                           else Done message)\<rparr>)
                     else (Inl ProtocolError, s)))
         | _ \<Rightarrow> (Inl ProtocolError, s)))"

text \<open>The \<^verbatim>\<open>finally\<close> clause of \<^verbatim>\<open>_read_loop\<close>.\<close>

definition read_loop_exit :: "conn \<Rightarrow> client \<Rightarrow> client" where
  "read_loop_exit w s =
     (if writer s = Some w then
        fail_pending ConnectionLost (s\<lparr>event_request_ids := [], connected := False, connection_lost := True\<rparr>)
      else s)"

text \<open>One turn of \<^verbatim>\<open>_read_loop\<close>: a frame is read and handled, or the loop ends. \<open>io\<close>
  and \<open>rid\<close> are for the event a message may cause; \<open>rl\<close> is the JSON decoder's depth.\<close>

definition read_loop_turn ::
  "surface \<Rightarrow> nat \<Rightarrow> conn \<Rightarrow> bytes \<Rightarrow> pystr \<Rightarrow> unit res \<Rightarrow> client \<Rightarrow> bytes option \<times> client" where
  "read_loop_turn su rl w stream rid io s =
     (if \<not> running s \<or> writer s \<noteq> Some w then (None, read_loop_exit w s)
      else
        (case read_frame rl (max_frame_bytes (cfg s)) stream of
           Inl _ \<Rightarrow> (None, read_loop_exit w s)
         | Inr (message, stream) \<Rightarrow>
             (case handle_message su message rid io s of
                (Inl _, s) \<Rightarrow> (None, read_loop_exit w s)
              | (Inr _, s) \<Rightarrow> (Some stream, s))))"

subsection \<open>Connections\<close>

text \<open>The supervisor has opened connection \<open>c\<close>; later its bootstrap is complete.\<close>

definition attach_connection :: "conn \<Rightarrow> client \<Rightarrow> client" where
  "attach_connection c s = s\<lparr>connection_lost := False, writer := Some c\<rparr>"

definition mark_connected :: "client \<Rightarrow> client" where
  "mark_connected s = s\<lparr>connected := True\<rparr>"

definition detach_connection :: "conn \<Rightarrow> client \<Rightarrow> client" where
  "detach_connection w s =
     (let keys = map fst (filter (\<lambda>p. snd p = Some w) (execution_connections s));
          s = fold cancel_if_async keys s;
          s = (if writer s = Some w then s\<lparr>writer := None\<rparr> else s)
      in s\<lparr>connected := False, closed_writers := List.insert w (closed_writers s)\<rparr>)"

text \<open>\<^verbatim>\<open>min(delay * 2, self.reconnect_max_delay)\<close>.\<close>

definition next_delay :: "pyfloat \<Rightarrow> pyfloat \<Rightarrow> pyfloat" where
  "next_delay maximum delay =
     (let doubled = float_mul delay (Flt 2) in if num_less (PFloat maximum) (PFloat doubled) then maximum else doubled)"

text \<open>\<^verbatim>\<open>start\<close>: \<open>loop\<close> is the running event loop and \<open>up\<close> the connection that
  the supervisor brings up within \<^verbatim>\<open>connect_timeout\<close>, if any.\<close>

definition ensure_event_loop :: "nat \<Rightarrow> client \<Rightarrow> unit res \<times> client" where
  "ensure_event_loop loop s =
     (case loop_id s of
        None \<Rightarrow> (Inr (), s\<lparr>loop_id := Some loop\<rparr>)
      | Some l \<Rightarrow> (if l \<noteq> loop then Inl RuntimeError else Inr (), s))"

definition shutdown :: "client \<Rightarrow> client" where
  "shutdown s =
     (let w = writer s;
          s = s\<lparr>running := False, closing := True, connected := False, connection_lost := True\<rparr>;
          s = fail_pending ConnectionLost s;
          s = fold cancel_run (map snd (executions s)) s
      in s\<lparr>executions := [], execution_is_sync := [], execution_connections := [], event_request_ids := [],
           closed_writers := (case w of None \<Rightarrow> closed_writers s | Some c \<Rightarrow> List.insert c (closed_writers s)),
           writer := None\<rparr>)"

definition close :: "nat \<Rightarrow> client \<Rightarrow> unit res \<times> client" where
  "close loop s =
     (case (if loop_id s = None then (Inr (), s) else ensure_event_loop loop s) of
        (Inl e, s) \<Rightarrow> (Inl e, s)
      | (Inr _, s) \<Rightarrow> (Inr (), shutdown s))"

definition wait_until_connected :: "conn option \<Rightarrow> client \<Rightarrow> unit res \<times> client" where
  "wait_until_connected up s =
     (if is_connected s then (Inr (), s)
      else (case up of
              None \<Rightarrow> (Inl ConnectionLost, s)
            | Some c \<Rightarrow> (Inr (), mark_connected (attach_connection c s))))"

definition start :: "nat \<Rightarrow> conn option \<Rightarrow> client \<Rightarrow> unit res \<times> client" where
  "start loop up s =
     (case ensure_event_loop loop s of
        (Inl e, s) \<Rightarrow> (Inl e, s)
      | (Inr _, s) \<Rightarrow>
          wait_until_connected up (if running s then s else s\<lparr>running := True, closing := False\<rparr>))"

subsection \<open>A request from start to reply\<close>

text \<open>What the world does during one request.\<close>

record exchange_world =
  w_rid :: pystr
  w_io :: "unit res"
  w_reply :: "pydict option"
  w_loop :: nat
  w_up :: "conn option"

text \<open>A message reaches the read loop of the current connection.\<close>

definition deliver :: "surface \<Rightarrow> pydict \<Rightarrow> pystr \<Rightarrow> unit res \<Rightarrow> client \<Rightarrow> client" where
  "deliver su message rid io s =
     (case handle_message su message rid io s of
        (Inr _, s) \<Rightarrow> s
      | (Inl _, s) \<Rightarrow> (case writer s of None \<Rightarrow> s | Some w \<Rightarrow> read_loop_exit w s))"

text \<open>\<^verbatim>\<open>_exchange\<close> when nothing else happens while it waits: the reply, if any, is
  handled by the read loop; without one the request times out.\<close>

definition exchange :: "surface \<Rightarrow> exchange_world \<Rightarrow> string \<Rightarrow> pydict \<Rightarrow> client \<Rightarrow> pydict res \<times> client" where
  "exchange su w message_type body s =
     (case exchange_begin message_type body (w_rid w) (w_io w) s of
        (Inl e, s) \<Rightarrow> (Inl e, s)
      | (Inr f, s) \<Rightarrow>
          exchange_end (w_rid w) f
            (case w_reply w of None \<Rightarrow> s | Some message \<Rightarrow> deliver su message (w_rid w) (w_io w) s))"

definition request :: "surface \<Rightarrow> exchange_world \<Rightarrow> string \<Rightarrow> pydict \<Rightarrow> client \<Rightarrow> pydict res \<times> client" where
  "request su w message_type body s =
     (case start (w_loop w) (w_up w) s of
        (Inl e, s) \<Rightarrow> (Inl e, s)
      | (Inr _, s) \<Rightarrow> exchange su w message_type body s)"

end
