(* ===== verification/Transitions.thy ===== *)
theory Transitions
  imports Prelude
begin

section \<open>Transition systems\<close>

text \<open>
  The socket client and the HTTP worker are transition systems: what may happen next is a step
  relation on their states. This theory holds what both use of such systems: the states that are
  reached from a state, the principle that what every step keeps holds of every state reached,
  and the same for orders along which steps only move forward.
\<close>

inductive reaches :: "('s \<Rightarrow> 's \<Rightarrow> bool) \<Rightarrow> 's \<Rightarrow> 's \<Rightarrow> bool" for step s where
  start: "reaches step s s"
| next_step: "reaches step s t \<Longrightarrow> step t u \<Longrightarrow> reaches step s u"

inductive_cases reachesE: "reaches step s t"

lemma reaches_single: "step s t \<Longrightarrow> reaches step s t"
  by (rule reaches.next_step [OF reaches.start])

lemma reaches_trans: "reaches step s t \<Longrightarrow> reaches step t u \<Longrightarrow> reaches step s u"
  by (rotate_tac, induction rule: reaches.induct) (auto intro: reaches.next_step)

text \<open>A predicate that every step keeps.\<close>

locale kept_by_steps =
  fixes step :: "'s \<Rightarrow> 's \<Rightarrow> bool"
    and ok :: "'s \<Rightarrow> bool"
  assumes keeps: "step s t \<Longrightarrow> ok s \<Longrightarrow> ok t"
begin

lemma reached_ok: "reaches step s t \<Longrightarrow> ok s \<Longrightarrow> ok t"
  by (induction rule: reaches.induct) (simp_all add: keeps)

end

text \<open>A preorder that every step from such a state ascends.\<close>

locale ascending_steps = kept_by_steps +
  fixes later :: "'s \<Rightarrow> 's \<Rightarrow> bool"
  assumes later_refl: "later s s"
    and later_trans: "later s t \<Longrightarrow> later t u \<Longrightarrow> later s u"
    and step_ascends: "step s t \<Longrightarrow> ok s \<Longrightarrow> later s t"
begin

lemma reached_later: "reaches step s t \<Longrightarrow> ok s \<Longrightarrow> later s t"
proof (induction rule: reaches.induct)
  case start
  show ?case by (rule later_refl)
next
  case (next_step t u)
  then show ?case using reached_ok step_ascends later_trans by blast
qed

end

subsection \<open>Tables whose entries only move forward\<close>

text \<open>Every entry of the first table is still in the second, at the same or a later stage.\<close>

definition table_later :: "('v \<Rightarrow> 'v \<Rightarrow> bool) \<Rightarrow> ('k, 'v) dict \<Rightarrow> ('k, 'v) dict \<Rightarrow> bool" where
  "table_later later rs rs' \<longleftrightarrow> (\<forall>k r. dget rs k = Some r \<longrightarrow> (\<exists>r'. dget rs' k = Some r' \<and> later r r'))"

lemma table_laterD:
  assumes "table_later later rs rs'" and "dget rs k = Some r"
  obtains r' where "dget rs' k = Some r'" and "later r r'"
  using assms by (auto simp: table_later_def)

locale stages =
  fixes later :: "'v \<Rightarrow> 'v \<Rightarrow> bool"
  assumes stage_refl: "later r r"
    and stage_trans: "later r t \<Longrightarrow> later t u \<Longrightarrow> later r u"
begin

lemma table_refl: "table_later later rs rs"
  by (auto simp: table_later_def stage_refl)

lemma table_trans: "table_later later rs ts \<Longrightarrow> table_later later ts us \<Longrightarrow> table_later later rs us"
  unfolding table_later_def by (meson stage_trans)

lemma table_set: "dget rs k = Some r \<Longrightarrow> later r r' \<Longrightarrow> table_later later rs (dset rs k r')"
  by (auto simp: table_later_def stage_refl)

lemma table_fresh: "dget rs k = None \<Longrightarrow> table_later later rs (dset rs k r')"
  by (auto simp: table_later_def stage_refl)

lemma table_fold: "(\<And>x s. table_later later (g s) (g (f x s))) \<Longrightarrow> table_later later (g s) (g (fold f xs s))"
  by (induction xs arbitrary: s) (auto intro: table_refl table_trans)

end

end
