(* ===== verification/ClientInv.thy ===== *)
theory ClientInv
  imports Client Transitions
begin

section \<open>Invariants of the socket client\<close>

text \<open>
  Every operation of the client keeps the consistency of its tables: the pending requests
  with their futures, the executions with their asyncio tasks and connections, the registry.
  The operations are then the steps of a transition system in which requests, deliveries,
  executions, reconnects and shutdowns interleave; what holds of every reachable state
  follows by rule induction.
\<close>

subsection \<open>What sending changes\<close>

text \<open>Sending touches the log, the ids of unacknowledged events and the flag that wakes the
  supervisor, nothing else.\<close>

definition same_core :: "client \<Rightarrow> client \<Rightarrow> bool" where
  "same_core s s' \<longleftrightarrow> (\<exists>out ids lost. s' = s\<lparr>sent := out, event_request_ids := ids, connection_lost := lost\<rparr>)"

lemma same_core_refl [simp]: "same_core s s"
  unfolding same_core_def
  by (rule exI [of _ "sent s"], rule exI [of _ "event_request_ids s"], rule exI [of _ "connection_lost s"]) simp

lemma same_core_trans: "same_core s t \<Longrightarrow> same_core t u \<Longrightarrow> same_core s u"
  unfolding same_core_def by fastforce

lemma same_coreI: "same_core s (s\<lparr>sent := out\<rparr>)" "same_core s (s\<lparr>event_request_ids := ids\<rparr>)"
  "same_core s (s\<lparr>connection_lost := lost\<rparr>)"
  unfolding same_core_def
    apply (rule exI [of _ out], rule exI [of _ "event_request_ids s"], rule exI [of _ "connection_lost s"], simp)
   apply (rule exI [of _ "sent s"], rule exI [of _ ids], rule exI [of _ "connection_lost s"], simp)
  apply (rule exI [of _ "sent s"], rule exI [of _ "event_request_ids s"], rule exI [of _ lost], simp)
  done

lemma same_core_fields:
  assumes "same_core s s'"
  shows "cfg s' = cfg s" "tasks s' = tasks s" "writer s' = writer s" "pending s' = pending s" "futures s' = futures s"
    "executions s' = executions s" "execution_is_sync s' = execution_is_sync s"
    "execution_connections s' = execution_connections s" "runs s' = runs s" "self_id s' = self_id s"
    "withdrawn_schedules s' = withdrawn_schedules s" "schedule_declarations s' = schedule_declarations s"
    "registered_task_names s' = registered_task_names s" "closed_writers s' = closed_writers s"
    "running s' = running s" "connected s' = connected s"
  using assms by (auto simp: same_core_def)

lemma send_envelope_core: "same_core s (snd (send_envelope c io e s))"
  by (auto simp: send_envelope_def Let_def same_coreI split: option.splits sum.splits
      intro: same_core_trans [OF same_coreI(1) same_coreI(3)])

lemma send_event_core: "same_core s (snd (send_event kind body c rid io s))"
proof (cases "make_envelope kind rid body")
  case (Inr e)
  let ?s1 = "s\<lparr>event_request_ids := List.insert rid (event_request_ids s)\<rparr>"
  obtain r t where r: "send_envelope c io e ?s1 = (r, t)" by fastforce
  have "same_core s t" using send_envelope_core [of ?s1 c io e] r by (auto intro: same_core_trans [OF same_coreI(2)])
  then show ?thesis
    using Inr r by (auto simp: send_event_def split: sum.splits intro: same_core_trans [OF _ same_coreI(2)])
qed (simp add: send_event_def)

lemma suppress_lost_state [simp]: "snd (suppress_lost r) = snd r"
  by (cases r) (auto simp: suppress_lost_def split: sum.splits)

lemma execution_failure_core: "same_core s (snd (execution_failure su m e rid io s))"
  by (auto simp: execution_failure_def Let_def send_event_core split: sum.splits pyval.splits)

lemma send_run_event_core: "same_core s (snd (send_run_event r kind body rid io s))"
  by (simp add: send_run_event_def send_event_core)

subsection \<open>The invariant of the tables\<close>

text \<open>Requests: futures are numbered in the order of their creation, and every pending request
  has a future of its own that nobody has completed.\<close>

definition replies_ok :: "(pystr, nat) dict \<Rightarrow> (nat, fut) dict \<Rightarrow> bool" where
  "replies_ok p f \<longleftrightarrow> dkeys f = [0..<length f] \<and> distinct (map fst p) \<and> distinct (map snd p)
     \<and> (\<forall>k\<in>set (map snd p). dget f k = Some Waiting)"

text \<open>Executions: asyncio tasks are numbered likewise; the table of executions and the table of
  their connections have the same keys; every entry names a task that is not over and that
  executes this id; there are never more entries than the capacity, and none in client mode.\<close>

definition executions_ok :: "config \<Rightarrow> (pystr, nat) dict \<Rightarrow> (pystr, conn option) dict \<Rightarrow> (nat, run) dict \<Rightarrow> bool" where
  "executions_ok c ex cs rs \<longleftrightarrow> dkeys rs = [0..<length rs] \<and> distinct (dkeys ex) \<and> dkeys cs = dkeys ex
     \<and> (\<forall>(e, k)\<in>set ex. \<exists>r. dget rs k = Some r \<and> r_execution r = e \<and> r_phase r \<noteq> Over)
     \<and> int (length ex) \<le> capacity c \<and> (mode c = skey ''client'' \<longrightarrow> ex = [])"

definition client_ok :: "client \<Rightarrow> bool" where
  "client_ok s \<longleftrightarrow> replies_ok (pending s) (futures s)
     \<and> executions_ok (cfg s) (executions s) (execution_connections s) (runs s) \<and> registry_ok (self_id s) (tasks s)"

lemma client_ok_core: "same_core s s' \<Longrightarrow> client_ok s \<Longrightarrow> client_ok s'"
  by (simp add: client_ok_def same_core_fields)

lemma replies_ok_begin:
  assumes "replies_ok p f" and "q \<notin> set (map fst p)"
  shows "replies_ok (dset p q (length f)) (dset f (length f) Waiting)"
proof -
  have f: "dkeys f = [0..<length f]" and w: "\<forall>k\<in>set (map snd p). dget f k = Some Waiting"
    and d: "distinct (map fst p)" "distinct (map snd p)" using assms(1) unfolding replies_ok_def by blast+
  have fresh: "length f \<notin> set (map snd p)" using w numbered_None [OF f, of "length f"] by force
  have p: "dset p q (length f) = p @ [(q, length f)]" using assms(2) by (rule dkeys_dset_fresh)
  have "\<forall>k\<in>set (map snd (p @ [(q, length f)])). dget (f @ [(length f, Waiting)]) k = Some Waiting"
    unfolding numbered_append [OF f] using w by simp
  moreover have "distinct (map fst (p @ [(q, length f)]))" "distinct (map snd (p @ [(q, length f)]))"
    using d assms(2) fresh by simp_all
  ultimately show ?thesis unfolding p numbered_fresh [OF f] replies_ok_def by (simp add: f)
qed

lemma replies_ok_pop:
  assumes "replies_ok p f"
  shows "replies_ok (dpop p q) f"
  using assms by (auto simp: replies_ok_def dpop_def distinct_map_filter)

lemma replies_ok_set:
  assumes "replies_ok p f" and "k \<notin> set (map snd p)" and "dget f k = Some u"
  shows "replies_ok p (dset f k v)"
  using assms numbered_dset [of f k u v] by (auto simp: replies_ok_def)

lemma replies_ok_map:
  assumes "replies_ok p f"
  shows "replies_ok [] (map (\<lambda>(k, v). (k, g k v)) f)"
proof -
  have "map fst (map (\<lambda>(k, v). (k, g k v)) f) = map fst f" by (induction f) auto
  with assms show ?thesis by (simp add: replies_ok_def)
qed

lemma pop_removes_future:
  assumes "replies_ok p f" and "dget p q = Some k"
  shows "k \<notin> set (map snd (dpop p q))"
proof
  assume "k \<in> set (map snd (dpop p q))"
  then obtain q' where q': "(q', k) \<in> set p" "q' \<noteq> q" by (auto simp: dpop_def)
  have "inj_on snd (set p)" using assms(1) by (simp add: replies_ok_def distinct_map)
  from inj_onD [OF this, of "(q', k)" "(q, k)"] q' map_of_SomeD [OF assms(2)] show False by simp
qed

text \<open>The shape of the invariant that the proofs below take apart and rebuild.\<close>

definition entry_ok :: "(nat, run) dict \<Rightarrow> pystr \<times> nat \<Rightarrow> bool" where
  "entry_ok rs x \<longleftrightarrow> (\<exists>r. dget rs (snd x) = Some r \<and> r_execution r = fst x \<and> r_phase r \<noteq> Over)"

lemma executions_ok_parts:
  "executions_ok c ex cs rs \<longleftrightarrow> dkeys rs = [0..<length rs] \<and> distinct (dkeys ex) \<and> dkeys cs = dkeys ex
     \<and> list_all (entry_ok rs) ex \<and> int (length ex) \<le> capacity c \<and> (mode c = skey ''client'' \<longrightarrow> ex = [])"
  unfolding executions_ok_def list_all_iff entry_ok_def by (simp add: case_prod_beta)

lemma executions_ok_start:
  assumes "executions_ok c ex cs rs" and "dget ex e = None" and "int (length ex) < capacity c"
    and "mode c \<noteq> skey ''client''" and "r_execution r = e" and "r_phase r \<noteq> Over"
  shows "executions_ok c (dset ex e (length rs)) (dset cs e w) (dset rs (length rs) r)"
proof -
  note parts = assms(1) [unfolded executions_ok_parts]
  then have n: "dkeys rs = [0..<length rs]" and keys: "dkeys cs = dkeys ex" by simp_all
  have fresh: "e \<notin> set (dkeys ex)" "e \<notin> set (dkeys cs)" using assms(2) unfolding keys by (simp_all add: map_of_eq_None_iff)
  have "entry_ok (rs @ [(length rs, r)]) x" if "entry_ok rs x" for x
    using that numbered_None [OF n, of "length rs"] unfolding entry_ok_def numbered_append [OF n] by auto
  then have "list_all (entry_ok (rs @ [(length rs, r)])) ex" using parts by (auto simp: list_all_iff)
  moreover have "entry_ok (rs @ [(length rs, r)]) (e, length rs)"
    using assms(5,6) unfolding entry_ok_def numbered_append [OF n] by simp
  ultimately show ?thesis
    using parts fresh assms(3,4)
    unfolding dkeys_dset_fresh [OF fresh(1)] dkeys_dset_fresh [OF fresh(2)] numbered_fresh [OF n] executions_ok_parts
    by simp
qed

lemma executions_ok_run:
  assumes "executions_ok c ex cs rs" and "dget rs k = Some r" and "r_execution r' = r_execution r"
    and "(r_phase r \<noteq> Over \<longrightarrow> r_phase r' \<noteq> Over) \<or> k \<notin> set (map snd ex)"
  shows "executions_ok c ex cs (dset rs k r')"
proof -
  note parts = assms(1) [unfolded executions_ok_parts]
  have "entry_ok (dset rs k r') x" if x: "x \<in> set ex" for x
  proof -
    have "entry_ok rs x" using parts x by (simp add: list_all_iff)
    moreover have "snd x = k \<Longrightarrow> k \<in> set (map snd ex)" using x by auto
    ultimately show ?thesis using assms(2-4) by (auto simp: entry_ok_def)
  qed
  then show ?thesis
    using parts numbered_dset [of rs k r r'] assms(2) unfolding executions_ok_parts by (simp add: list_all_iff)
qed

lemma executions_ok_pop:
  assumes "executions_ok c ex cs rs"
  shows "executions_ok c (dpop ex e) (dpop cs e) rs"
proof -
  note parts = assms [unfolded executions_ok_parts]
  have "list_all (entry_ok rs) (dpop ex e)" using parts by (auto simp: list_all_iff dpop_def)
  moreover have "ex = [] \<Longrightarrow> dpop ex e = []" by (simp add: dpop_def)
  ultimately show ?thesis
    using parts length_dpop_le [of ex e] unfolding executions_ok_parts dkeys_dpop by auto
qed

lemma executions_ok_entry:
  "executions_ok c ex cs rs \<Longrightarrow> dget ex e = Some k \<Longrightarrow> \<exists>r. dget rs k = Some r \<and> r_execution r = e \<and> r_phase r \<noteq> Over"
  by (auto simp: executions_ok_def dest: map_of_SomeD)

text \<open>A task that is over is no longer in the table of executions.\<close>

lemma popped_run_gone:
  assumes "executions_ok c ex cs rs" and "dget rs k = Some r"
  shows "k \<notin> set (map snd (dpop ex (r_execution r)))"
proof
  assume "k \<in> set (map snd (dpop ex (r_execution r)))"
  then obtain e where "(e, k) \<in> set ex" "e \<noteq> r_execution r" by (auto simp: dpop_def)
  with assms show False by (auto simp: executions_ok_parts list_all_iff entry_ok_def)
qed

subsection \<open>Every operation keeps the invariant\<close>

lemma client_okI:
  "replies_ok (pending s) (futures s) \<Longrightarrow> executions_ok (cfg s) (executions s) (execution_connections s) (runs s) \<Longrightarrow>
   registry_ok (self_id s) (tasks s) \<Longrightarrow> client_ok s"
  by (simp add: client_ok_def)

lemma client_okD:
  assumes "client_ok s"
  shows "replies_ok (pending s) (futures s)"
    and "executions_ok (cfg s) (executions s) (execution_connections s) (runs s)"
    and "registry_ok (self_id s) (tasks s)"
  using assms by (simp_all add: client_ok_def)

lemma initial_client_ok: "0 \<le> capacity c \<Longrightarrow> client_ok (initial_client c self)"
  by (simp add: client_ok_def initial_client_def replies_ok_def executions_ok_def)

lemma declare_task_ok: "client_ok s \<Longrightarrow> client_ok (snd (declare_task f name raw s))"
  by (auto simp: client_ok_def declare_task_def rbind_eq_Inr dest: register_task_Inr split: sum.splits)

lemma exchange_begin_ok:
  assumes "client_ok s" and "rid \<notin> set (dkeys (pending s))"
  shows "client_ok (snd (exchange_begin mt body rid io s))"
proof (cases "make_envelope mt rid body")
  case (Inr envelope)
  let ?f = "fresh_future s"
  let ?s = "s\<lparr>futures := dset (futures s) ?f Waiting, pending := dset (pending s) rid ?f\<rparr>"
  obtain r t where t: "send_envelope None io envelope ?s = (r, t)" by fastforce
  note ok = client_okD [OF assms(1)]
  have new: "client_ok ?s"
    using ok replies_ok_begin [OF ok(1) assms(2)] by (intro client_okI) (simp_all add: fresh_future_def)
  have core: "same_core ?s t" using send_envelope_core [of ?s None io envelope] t by simp
  note tok = client_ok_core [OF core new]
  have "client_ok (exchange_finally rid ?f t)"
  proof -
    have p: "dget (pending t) rid = Some ?f" and f: "dget (futures t) ?f = Some Waiting"
      using same_core_fields [OF core] by simp_all
    note r = client_okD [OF tok]
    have "replies_ok (dpop (pending t) rid) (dset (futures t) ?f Dropped)"
      by (rule replies_ok_set [OF replies_ok_pop [OF r(1)] pop_removes_future [OF r(1) p] f])
    with r f show ?thesis by (intro client_okI) (simp_all add: exchange_finally_def drop_future_def)
  qed
  with Inr t tok assms(1) show ?thesis by (auto simp: exchange_begin_def Let_def split: sum.splits)
qed (use assms in \<open>simp add: exchange_begin_def\<close>)

text \<open>\<^verbatim>\<open>_exchange\<close> cleans up a request of its own: if an id or a future is still
  pending, it is under the other.\<close>

definition owns :: "pystr \<Rightarrow> nat \<Rightarrow> client \<Rightarrow> bool" where
  "owns rid f s \<longleftrightarrow> (\<forall>q g. dget (pending s) q = Some g \<longrightarrow> (q = rid) = (g = f))"

lemma exchange_end_ok:
  assumes "client_ok s" and "owns rid f s"
  shows "client_ok (snd (exchange_end rid f s))"
proof -
  note ok = client_okD [OF assms(1)]
  have gone: "f \<notin> set (map snd (dpop (pending s) rid))"
  proof
    assume "f \<in> set (map snd (dpop (pending s) rid))"
    then obtain q where q: "(q, f) \<in> set (pending s)" "q \<noteq> rid" by (auto simp: dpop_def)
    have "dget (pending s) q = Some f" using ok(1) q(1) by (simp add: replies_ok_def)
    with assms(2) q(2) show False by (auto simp: owns_def)
  qed
  have "replies_ok (dpop (pending s) rid) (dset (futures s) f Dropped)" if "dget (futures s) f = Some Waiting"
    by (rule replies_ok_set [OF replies_ok_pop [OF ok(1)] gone that])
  with ok replies_ok_pop [OF ok(1), of rid] show ?thesis
    by (intro client_okI) (auto simp: exchange_end_def exchange_finally_def drop_future_def)
qed

lemma start_run_ok:
  assumes "client_ok s" and "dget (executions s) e = None" and "int (length (executions s)) < capacity (cfg s)"
    and "\<not> in_mode s ''client''"
  shows "client_ok (start_run res e job t args s)"
  using client_okD [OF assms(1)] executions_ok_start [OF client_okD(2) [OF assms(1)] assms(2,3)] assms(4)
  by (intro client_okI) (simp_all add: start_run_def Let_def in_mode_def)

lemma accept_execution_ok:
  assumes "client_ok s"
  shows "client_ok (snd (accept_execution su m rid io s))"
  using assms client_ok_core [OF execution_failure_core assms] client_ok_core [OF send_event_core assms]
    start_run_ok [OF assms]
  by (auto simp: accept_execution_def not_le split: pyval.splits option.splits)

lemma cancel_run_ok:
  assumes "client_ok s"
  shows "client_ok (cancel_run k s)"
proof (cases "dget (runs s) k")
  case (Some r)
  then have "executions_ok (cfg s) (executions s) (execution_connections s) (dset (runs s) k (r\<lparr>r_cancel := True\<rparr>))"
    using executions_ok_run [OF client_okD(2) [OF assms] Some] by simp
  with Some client_okD [OF assms] show ?thesis by (intro client_okI) (simp_all add: cancel_run_def)
qed (use assms in \<open>simp add: cancel_run_def\<close>)

lemma cancel_if_async_ok: "client_ok s \<Longrightarrow> client_ok (cancel_if_async e s)"
  by (auto simp: cancel_if_async_def Let_def cancel_run_ok split: option.splits)

lemma fold_ok: "(\<And>x s. client_ok s \<Longrightarrow> client_ok (f x s)) \<Longrightarrow> client_ok s \<Longrightarrow> client_ok (fold f xs s)"
  by (induction xs arbitrary: s) simp_all

lemma cancel_execution_ok: "client_ok s \<Longrightarrow> client_ok (snd (cancel_execution m s))"
  by (auto simp: cancel_execution_def cancel_if_async_ok split: pyval.splits)

lemma handle_message_ok:
  assumes "client_ok s"
  shows "client_ok (snd (handle_message su m rid io s))"
proof -
  note ok = client_okD [OF assms]
  have pop: "client_ok (s\<lparr>pending := dpop (pending s) q\<rparr>)" for q
    using ok replies_ok_pop [OF ok(1)] by (intro client_okI) simp_all
  have set: "client_ok (s\<lparr>pending := dpop (pending s) q, futures := dset (futures s) f v\<rparr>)"
    if "dget (pending s) q = Some f" "dget (futures s) f = Some Waiting" for q f v
    using ok replies_ok_set [OF replies_ok_pop [OF ok(1)] pop_removes_future [OF ok(1) that(1)] that(2), of v]
    by (intro client_okI) simp_all
  have ids: "client_ok (s\<lparr>event_request_ids := ids\<rparr>)" for ids
    using assms by (rule client_ok_core [OF same_coreI(2)])
  show ?thesis
    using assms pop set ids accept_execution_ok [OF assms] cancel_execution_ok [OF assms]
      client_ok_core [OF send_event_core assms]
    unfolding handle_message_def Let_def
    by (auto split: pyval.splits option.splits)
qed

lemma fail_pending_ok: "client_ok s \<Longrightarrow> client_ok (fail_pending e s)"
  using replies_ok_map [of "pending s" "futures s"] by (simp add: client_ok_def fail_pending_def)

lemma read_loop_exit_ok: "client_ok s \<Longrightarrow> client_ok (read_loop_exit w s)"
  unfolding read_loop_exit_def by (auto intro!: fail_pending_ok) (simp_all add: client_ok_def)

lemma attach_ok: "client_ok s \<Longrightarrow> client_ok (attach_connection c s)"
  and mark_connected_ok: "client_ok s \<Longrightarrow> client_ok (mark_connected s)"
  by (simp_all add: client_ok_def attach_connection_def mark_connected_def)

lemma detach_ok: "client_ok s \<Longrightarrow> client_ok (detach_connection w s)"
proof -
  assume s: "client_ok s"
  let ?t = "fold cancel_if_async (map fst (filter (\<lambda>p. snd p = Some w) (execution_connections s))) s"
  have "client_ok ?t" using s by (intro fold_ok cancel_if_async_ok)
  then show ?thesis by (simp add: client_ok_def detach_connection_def Let_def)
qed

lemma executions_ok_clear: "executions_ok c ex cs rs \<Longrightarrow> executions_ok c [] [] rs"
  by (auto simp: executions_ok_def)

lemma shutdown_ok:
  assumes "client_ok s"
  shows "client_ok (shutdown s)"
proof -
  let ?s1 = "fail_pending ConnectionLost (s\<lparr>running := False, closing := True, connected := False, connection_lost := True\<rparr>)"
  have "client_ok ?s1" using assms by (intro fail_pending_ok) (simp add: client_ok_def)
  then have "client_ok (fold cancel_run (map snd (executions ?s1)) ?s1)" by (intro fold_ok cancel_run_ok)
  from client_okD [OF this] show ?thesis
    by (intro client_okI) (simp_all add: shutdown_def Let_def executions_ok_clear)
qed

lemma execution_finished_ok:
  assumes "client_ok s"
  shows "client_ok (execution_finished k s)"
proof (cases "dget (runs s) k")
  case (Some r)
  note ok = client_okD [OF assms]
  have "executions_ok (cfg s) (dpop (executions s) (r_execution r)) (dpop (execution_connections s) (r_execution r))
      (dset (runs s) k (r\<lparr>r_phase := Over\<rparr>))"
    by (rule executions_ok_run [OF executions_ok_pop [OF ok(2)] Some])
      (use popped_run_gone [OF ok(2) Some] in simp_all)
  with ok Some show ?thesis by (intro client_okI) (simp_all add: execution_finished_def)
qed (use assms in \<open>simp add: execution_finished_def\<close>)

lemma run_begin_ok:
  assumes "client_ok s"
  shows "client_ok (run_begin k rid io s)"
proof (cases "dget (runs s) k")
  case (Some r)
  obtain x t where t: "send_run_event r ''started'' (run_context r) rid io s = (x, t)" by fastforce
  then have core: "same_core s t" using send_run_event_core [of s r "''started''" "run_context r" rid io] by simp
  note tok = client_ok_core [OF core assms]
  have rt: "dget (runs t) k = Some r" using Some same_core_fields [OF core] by simp
  have "client_ok (t\<lparr>runs := dset (runs t) k (r\<lparr>r_phase := Started\<rparr>)\<rparr>)"
    using client_okD [OF tok] executions_ok_run [OF client_okD(2) [OF tok] rt, of "r\<lparr>r_phase := Started\<rparr>"]
    by (intro client_okI) simp_all
  with Some t tok assms execution_finished_ok show ?thesis by (auto simp: run_begin_def split: sum.splits)
qed (use assms in \<open>simp add: run_begin_def\<close>)

lemma awaitable_started_ok: "client_ok s \<Longrightarrow> client_ok (snd (awaitable_started r s))"
  by (simp add: client_ok_def awaitable_started_def Let_def)

lemma run_settle_ok:
  assumes "client_ok s"
  shows "client_ok (run_settle su k outcome rid io s)"
  using assms client_ok_core [OF send_run_event_core assms]
  by (auto simp: run_settle_def execution_finished_ok split: option.splits sum.splits)

lemma start_ok: "client_ok s \<Longrightarrow> client_ok (snd (start loop up s))"
  by (auto simp: client_ok_def start_def ensure_event_loop_def wait_until_connected_def mark_connected_def
      attach_connection_def split: option.splits)


subsection \<open>The transition system\<close>

text \<open>
  A state of the system is the client together with the requests in flight: the id and the
  future of every \<^verbatim>\<open>_exchange\<close> that is waiting. A new request has an id that no request in
  flight has (\<^verbatim>\<open>uuid4\<close>); the application may change the desired task names and schedule
  declarations at any time.
\<close>

type_synonym calls = "(pystr \<times> nat) list"

inductive client_step :: "surface \<Rightarrow> client \<times> calls \<Rightarrow> client \<times> calls \<Rightarrow> bool" for su where
  new_task: "client_step su (s, cs) (snd (declare_task f name raw s), cs)"
| desire: "client_step su (s, cs)
     (s\<lparr>registered_task_names := names, schedule_declarations := declarations, withdrawn_schedules := withdrawn\<rparr>, cs)"
| begin_request: "exchange_begin kind body rid io s = (Inr f, s') \<Longrightarrow> rid \<notin> fst ` set cs \<Longrightarrow>
     client_step su (s, cs) (s', (rid, f) # cs)"
| reject_request: "exchange_begin kind body rid io s = (Inl e, s') \<Longrightarrow> rid \<notin> fst ` set cs \<Longrightarrow>
     client_step su (s, cs) (s', cs)"
| end_request: "(rid, f) \<in> set cs \<Longrightarrow> client_step su (s, cs) (snd (exchange_end rid f s), dpop cs rid)"
| message: "client_step su (s, cs) (deliver su m rid io s, cs)"
| lost: "client_step su (s, cs) (read_loop_exit w s, cs)"
| attach: "client_step su (s, cs) (attach_connection c s, cs)"
| ready: "client_step su (s, cs) (mark_connected s, cs)"
| detach: "client_step su (s, cs) (detach_connection w s, cs)"
| begin_run: "client_step su (s, cs) (run_begin k rid io s, cs)"
| awaitable: "dget (runs s) k = Some r \<Longrightarrow> client_step su (s, cs) (snd (awaitable_started r s), cs)"
| settle: "client_step su (s, cs) (run_settle su k outcome rid io s, cs)"
| starting: "client_step su (s, cs) (snd (start loop up s), cs)"
| closing: "client_step su (s, cs) (snd (close loop s), cs)"

abbreviation client_reachable :: "surface \<Rightarrow> config \<Rightarrow> nat \<Rightarrow> client \<times> calls \<Rightarrow> bool" where
  "client_reachable su c self \<equiv> reaches (client_step su) (initial_client c self, [])"

inductive_cases client_stepE: "client_step su (s, cs) y"

text \<open>Requests in flight have pairwise different ids and futures, and all pending requests are
  among them.\<close>

definition calls_ok :: "(pystr, nat) dict \<Rightarrow> nat \<Rightarrow> calls \<Rightarrow> bool" where
  "calls_ok p n cs \<longleftrightarrow> distinct (map fst cs) \<and> distinct (map snd cs) \<and> set p \<subseteq> set cs \<and> (\<forall>f\<in>snd ` set cs. f < n)"

definition system_ok :: "client \<times> calls \<Rightarrow> bool" where
  "system_ok x \<longleftrightarrow> client_ok (fst x) \<and> calls_ok (pending (fst x)) (length (futures (fst x))) (snd x)"

text \<open>Operations other than a new request only ever complete pending requests.\<close>

definition completes :: "client \<Rightarrow> client \<Rightarrow> bool" where
  "completes s s' \<longleftrightarrow> set (pending s') \<subseteq> set (pending s) \<and> length (futures s') = length (futures s)
     \<and> cfg s' = cfg s \<and> self_id s' = self_id s"

lemma calls_ok_completes:
  "calls_ok (pending s) (length (futures s)) cs \<Longrightarrow> completes s s' \<Longrightarrow> calls_ok (pending s') (length (futures s')) cs"
  by (auto simp: calls_ok_def completes_def)

lemma completes_refl [simp]: "completes s s"
  by (simp add: completes_def)

lemma completes_trans: "completes s t \<Longrightarrow> completes t u \<Longrightarrow> completes s u"
  by (auto simp: completes_def)

lemma completes_core: "same_core s s' \<Longrightarrow> completes s s'"
  by (simp add: completes_def same_core_fields)

lemma completes_fold: "(\<And>x s. completes s (f x s)) \<Longrightarrow> completes s (fold f xs s)"
  by (induction xs arbitrary: s) (auto intro: completes_trans)

lemma completes_update:
  "completes s s' \<Longrightarrow> pending t = pending s' \<Longrightarrow> futures t = futures s' \<Longrightarrow> cfg t = cfg s' \<Longrightarrow> self_id t = self_id s' \<Longrightarrow>
   completes s t"
  by (simp add: completes_def)

lemma length_dset_present: "dget d k = Some u \<Longrightarrow> length (dset d k v) = length d"
  by (auto simp: length_dset dest: map_of_SomeD intro: image_eqI [where x = "(k, u)"])

lemma set_dpop_subset: "set (dpop d k) \<subseteq> set d"
  by (auto simp: dpop_def)

lemma completes_declare: "completes s (snd (declare_task f name raw s))"
  by (auto simp: completes_def declare_task_def split: sum.splits)

lemma completes_exchange_end: "completes s (snd (exchange_end rid f s))"
  using set_dpop_subset [of "pending s" rid]
  by (auto simp: completes_def exchange_end_def exchange_finally_def drop_future_def length_dset_present)

lemma completes_cancel_run: "completes s (cancel_run k s)"
  by (auto simp: completes_def cancel_run_def split: option.splits)

lemma completes_cancel_if_async: "completes s (cancel_if_async k s)"
  by (auto simp: cancel_if_async_def Let_def completes_cancel_run split: option.splits)

lemma completes_start_run: "completes s (start_run res e job t args s)"
  by (simp add: start_run_def Let_def completes_def)

lemma completes_accept: "completes s (snd (accept_execution su m rid io s))"
  using completes_core [OF execution_failure_core] completes_core [OF send_event_core]
  by (auto simp: accept_execution_def completes_start_run split: pyval.splits option.splits)

lemma completes_fail_pending: "completes s (fail_pending e s)"
  by (simp add: completes_def fail_pending_def)

lemma completes_read_loop_exit: "completes s (read_loop_exit w s)"
  by (simp add: read_loop_exit_def completes_def fail_pending_def)

lemma completes_handle: "completes s (snd (handle_message su m rid io s))"
proof -
  have reply: "completes s (s\<lparr>pending := dpop (pending s) q\<rparr>)" for q
    using set_dpop_subset [of "pending s" q] by (simp add: completes_def)
  moreover have "completes s (s\<lparr>pending := dpop (pending s) q, futures := dset (futures s) f v\<rparr>)"
    if "dget (futures s) f = Some Waiting" for q f v
    using set_dpop_subset [of "pending s" q] that by (simp add: completes_def length_dset_present)
  moreover have "completes s (snd (cancel_execution m s))"
    by (auto simp: cancel_execution_def completes_cancel_if_async split: pyval.splits)
  moreover have "completes s (s\<lparr>event_request_ids := ids\<rparr>)" for ids
    by (rule completes_core [OF same_coreI(2)])
  ultimately show ?thesis
    using completes_accept [of s su m rid io] completes_core [OF send_event_core [of s]]
    unfolding handle_message_def Let_def by (auto split: pyval.splits option.splits)
qed

lemma completes_deliver: "completes s (deliver su m rid io s)"
  using completes_handle [of s su m rid io] completes_read_loop_exit
  by (auto simp: deliver_def split: prod.splits sum.splits option.splits intro: completes_trans)

lemma completes_finished: "completes s (execution_finished k s)"
  by (auto simp: execution_finished_def completes_def split: option.splits)

lemma completes_send_run: "send_run_event r kind body rid io s = (x, t) \<Longrightarrow> completes s t"
  using completes_core [OF send_run_event_core [of s r kind body rid io]] by simp

lemma completes_run_begin: "completes s (run_begin k rid io s)"
proof (cases "dget (runs s) k")
  case (Some r)
  obtain x t where t: "send_run_event r ''started'' (run_context r) rid io s = (x, t)" by fastforce
  note c = completes_send_run [OF t]
  have "completes s (t\<lparr>runs := rs\<rparr>)" for rs by (rule completes_update [OF c]) simp_all
  with c Some t show ?thesis
    by (auto simp: run_begin_def completes_finished intro: completes_trans [OF _ completes_finished] split: sum.splits)
qed (simp add: run_begin_def)

lemma completes_settle: "completes s (run_settle su k outcome rid io s)"
  using completes_core [OF send_run_event_core]
  by (auto simp: run_settle_def completes_finished intro: completes_trans [OF _ completes_finished]
      split: option.splits sum.splits)

lemma completes_start: "completes s (snd (start loop up s))"
  by (auto simp: completes_def start_def ensure_event_loop_def wait_until_connected_def mark_connected_def
      attach_connection_def split: option.splits)

lemma completes_detach: "completes s (detach_connection w s)"
proof -
  let ?t = "fold cancel_if_async (map fst (filter (\<lambda>p. snd p = Some w) (execution_connections s))) s"
  have "completes s ?t" by (intro completes_fold completes_cancel_if_async)
  then show ?thesis by (rule completes_update) (simp_all add: detach_connection_def Let_def)
qed

lemma completes_shutdown: "completes s (shutdown s)"
proof -
  let ?t = "fail_pending ConnectionLost (s\<lparr>running := False, closing := True, connected := False, connection_lost := True\<rparr>)"
  have "completes s ?t" by (simp add: completes_def fail_pending_def)
  then have "completes s (fold cancel_run (map snd (executions ?t)) ?t)"
    by (intro completes_trans [OF _ completes_fold] completes_cancel_run)
  then show ?thesis by (rule completes_update) (simp_all add: shutdown_def Let_def)
qed

lemma close_cases: "snd (close loop s) = s \<or> snd (close loop s) = shutdown s"
  by (auto simp: close_def ensure_event_loop_def split: option.splits)

lemma completes_close: "completes s (snd (close loop s))"
  using close_cases [of loop s] completes_shutdown [of s] by auto

lemma close_ok: "client_ok s \<Longrightarrow> client_ok (snd (close loop s))"
  using close_cases [of loop s] shutdown_ok [of s] by auto

lemma deliver_ok: "client_ok s \<Longrightarrow> client_ok (deliver su m rid io s)"
  using handle_message_ok [of s su m rid io] read_loop_exit_ok
  by (auto simp: deliver_def split: prod.splits sum.splits option.splits)

lemmas completing = completes_declare completes_exchange_end completes_deliver completes_read_loop_exit completes_detach
  completes_run_begin completes_settle completes_start completes_close

lemmas keeping = declare_task_ok deliver_ok read_loop_exit_ok attach_ok mark_connected_ok detach_ok run_begin_ok
  awaitable_started_ok run_settle_ok start_ok close_ok

text \<open>What a new request adds.\<close>

lemma exchange_begin_cases:
  assumes "exchange_begin kind body rid io s = (r, s')" and "client_ok s" and "rid \<notin> set (dkeys (pending s))"
  shows "cfg s' = cfg s \<and> self_id s' = self_id s \<and>
     (case r of Inr f \<Rightarrow> f = length (futures s) \<and> set (pending s') = insert (rid, f) (set (pending s))
                 \<and> length (futures s') = Suc (length (futures s))
      | Inl e \<Rightarrow> set (pending s') \<subseteq> set (pending s) \<and> length (futures s) \<le> length (futures s'))"
proof (cases "make_envelope kind rid body")
  case (Inr envelope)
  let ?f = "fresh_future s"
  let ?s = "s\<lparr>futures := dset (futures s) ?f Waiting, pending := dset (pending s) rid ?f\<rparr>"
  obtain x t where t: "send_envelope None io envelope ?s = (x, t)" by fastforce
  have core: "same_core ?s t" using send_envelope_core [of ?s None io envelope] t by simp
  have n: "dkeys (futures s) = [0..<length (futures s)]" using assms(2) by (simp add: client_ok_def replies_ok_def)
  have f: "futures t = futures s @ [(length (futures s), Waiting)]"
    using same_core_fields [OF core] numbered_fresh [OF n] by (simp add: fresh_future_def)
  have p: "pending t = pending s @ [(rid, ?f)]" using same_core_fields [OF core] dkeys_dset_fresh [OF assms(3)] by simp
  have keep: "cfg t = cfg s" "self_id t = self_id s" using same_core_fields [OF core] by simp_all
  have pop: "set (dpop (pending s @ [(rid, ?f)]) rid) \<subseteq> set (pending s)" by (auto simp: dpop_def)
  show ?thesis
    using assms(1) Inr t p f keep pop
    by (auto simp: exchange_begin_def Let_def fresh_future_def exchange_finally_def drop_future_def length_dset
        split: sum.splits if_splits)
qed (use assms in \<open>auto simp: exchange_begin_def\<close>)

lemma pending_of_call:
  assumes "calls_ok p n cs" and "rid \<notin> fst ` set cs"
  shows "rid \<notin> set (dkeys p)"
  using assms by (auto simp: calls_ok_def)

lemma calls_ok_begin:
  assumes "calls_ok p n cs" and "rid \<notin> fst ` set cs" and "set p' = insert (rid, n) (set p)"
  shows "calls_ok p' (Suc n) ((rid, n) # cs)"
  using assms by (auto simp: calls_ok_def less_Suc_eq)

lemma owns_call:
  assumes "calls_ok (pending s) n cs" and "(rid, f) \<in> set cs"
  shows "owns rid f s"
  unfolding owns_def
proof (intro allI impI)
  fix q g
  assume "dget (pending s) q = Some g"
  then have "(q, g) \<in> set cs" using assms(1) map_of_SomeD by (fastforce simp: calls_ok_def)
  moreover have "inj_on fst (set cs)" "inj_on snd (set cs)" using assms(1) by (simp_all add: calls_ok_def distinct_map)
  ultimately show "(q = rid) = (g = f)"
    using assms(2) inj_onD [of fst "set cs" "(q, g)" "(rid, f)"] inj_onD [of snd "set cs" "(q, g)" "(rid, f)"] by auto
qed

lemma calls_ok_end:
  assumes "calls_ok (pending s) n cs" and "(rid, f) \<in> set cs"
  shows "calls_ok (dpop (pending s) rid) n (dpop cs rid)"
proof -
  have "set (dpop (pending s) rid) \<subseteq> set (dpop cs rid)" using assms(1) by (auto simp: calls_ok_def dpop_def)
  then show ?thesis using assms(1) by (auto simp: calls_ok_def dpop_def distinct_map_filter)
qed

lemma exchange_end_state:
  "pending (snd (exchange_end rid f s)) = dpop (pending s) rid"
  "length (futures (snd (exchange_end rid f s))) = length (futures s)"
  by (auto simp: exchange_end_def exchange_finally_def drop_future_def length_dset_present)

lemma quiet_step:
  assumes "system_ok (s, cs)" and "client_ok s \<Longrightarrow> client_ok s'" and "completes s s'"
  shows "system_ok (s', cs) \<and> cfg (fst (s', cs)) = cfg (fst (s, cs)) \<and> self_id (fst (s', cs)) = self_id (fst (s, cs))"
  using assms calls_ok_completes [of s cs s'] by (simp add: system_ok_def completes_def)

lemma completes_flags:
  "completes s (s\<lparr>registered_task_names := names, schedule_declarations := declarations, withdrawn_schedules := withdrawn\<rparr>)"
  "completes s (attach_connection c s)" "completes s (mark_connected s)" "completes s (snd (awaitable_started r s))"
  by (simp_all add: completes_def attach_connection_def mark_connected_def awaitable_started_def Let_def)

lemma client_ok_desire: "client_ok s \<Longrightarrow>
  client_ok (s\<lparr>registered_task_names := names, schedule_declarations := declarations, withdrawn_schedules := withdrawn\<rparr>)"
  by (simp add: client_ok_def)

lemma step_keeps:
  assumes "client_step su x y" and "system_ok x"
  shows "system_ok y \<and> cfg (fst y) = cfg (fst x) \<and> self_id (fst y) = self_id (fst x)"
  using assms
proof (induction rule: client_step.induct)
  case (begin_request kind body rid io s f s' cs)
  then have ok: "client_ok s" and c: "calls_ok (pending s) (length (futures s)) cs" by (simp_all add: system_ok_def)
  note fresh = pending_of_call [OF c begin_request(2)]
  note new = exchange_begin_cases [OF begin_request(1) ok fresh]
  have "client_ok s'" using exchange_begin_ok [OF ok fresh, of kind body io] begin_request(1) by simp
  moreover have "calls_ok (pending s') (Suc (length (futures s))) ((rid, length (futures s)) # cs)"
    using new by (intro calls_ok_begin [OF c begin_request(2)]) simp
  ultimately show ?case using new by (simp add: system_ok_def)
next
  case (reject_request kind body rid io s e s' cs)
  then have ok: "client_ok s" and c: "calls_ok (pending s) (length (futures s)) cs" by (simp_all add: system_ok_def)
  note fresh = pending_of_call [OF c reject_request(2)]
  note new = exchange_begin_cases [OF reject_request(1) ok fresh]
  have "client_ok s'" using exchange_begin_ok [OF ok fresh, of kind body io] reject_request(1) by simp
  moreover have "calls_ok (pending s') (length (futures s')) cs" using c new by (auto simp: calls_ok_def)
  ultimately show ?case using new by (simp add: system_ok_def)
next
  case (end_request rid f cs s)
  then have ok: "client_ok s" and c: "calls_ok (pending s) (length (futures s)) cs" by (simp_all add: system_ok_def)
  then show ?case
    using exchange_end_ok [OF ok owns_call [OF c end_request(1)]] calls_ok_end [OF c end_request(1)]
      completes_exchange_end [of s rid f]
    by (simp add: system_ok_def exchange_end_state completes_def)
qed ((erule quiet_step; ((erule keeping | erule client_ok_desire) | rule completing | rule completes_flags))+)


interpretation client_system: kept_by_steps "client_step su"
  "\<lambda>x. system_ok x \<and> cfg (fst x) = c \<and> self_id (fst x) = self" for su c self
  by unfold_locales (use step_keeps in blast)

lemma reachable_ok:
  assumes "client_reachable su c self x" and "0 \<le> capacity c"
  shows "system_ok x \<and> cfg (fst x) = c \<and> self_id (fst x) = self"
proof (rule client_system.reached_ok [OF assms(1)])
  have "system_ok (initial_client c self, [])"
    using initial_client_ok [OF assms(2), of self] by (simp add: system_ok_def) (simp add: initial_client_def calls_ok_def)
  then show "system_ok (initial_client c self, []) \<and> cfg (fst (initial_client c self, [])) = c
      \<and> self_id (fst (initial_client c self, [])) = self" by (simp add: initial_client_def)
qed

lemma reachable_client_ok: "client_reachable su c self (s, cs) \<Longrightarrow> 0 \<le> capacity c \<Longrightarrow> client_ok s"
  by (auto dest: reachable_ok simp: system_ok_def)

subsection \<open>Runs only move forward\<close>

fun phase_rank :: "phase \<Rightarrow> nat" where
  "phase_rank Created = 0"
| "phase_rank Started = 1"
| "phase_rank Over = 2"

lemma phase_rank_inject: "phase_rank p = phase_rank q \<longleftrightarrow> p = q"
  by (cases p; cases q) simp_all

instantiation phase :: linorder
begin

definition less_eq_phase :: "phase \<Rightarrow> phase \<Rightarrow> bool" where
  "less_eq_phase p q \<longleftrightarrow> phase_rank p \<le> phase_rank q"

definition less_phase :: "phase \<Rightarrow> phase \<Rightarrow> bool" where
  "less_phase p q \<longleftrightarrow> phase_rank p < phase_rank q"

instance
  by standard (auto simp: less_eq_phase_def less_phase_def phase_rank_inject)

end

lemma phase_le [simp]: "p \<le> Over" "Created \<le> p"
  by (cases p; simp add: less_eq_phase_def)+

text \<open>The same asyncio task, at the same or a later phase, cancelled if it was.\<close>

definition run_later :: "run \<Rightarrow> run \<Rightarrow> bool" where
  "run_later r r' \<longleftrightarrow> r_execution r' = r_execution r \<and> r_reservation r' = r_reservation r \<and> r_job r' = r_job r
     \<and> r_task r' = r_task r \<and> r_arguments r' = r_arguments r \<and> r_conn r' = r_conn r
     \<and> r_phase r \<le> r_phase r' \<and> (r_cancel r \<longrightarrow> r_cancel r')"

abbreviation runs_later :: "(nat, run) dict \<Rightarrow> (nat, run) dict \<Rightarrow> bool" where
  "runs_later \<equiv> table_later run_later"

interpretation run_stages: stages run_later
  by unfold_locales (auto simp: run_later_def)

lemmas runs_later_set = run_stages.table_set
lemmas runs_later_fresh = run_stages.table_fresh
lemmas runs_later_trans = run_stages.table_trans

declare run_stages.stage_refl [simp] run_stages.table_refl [simp]

lemma runs_later_core: "same_core s s' \<Longrightarrow> runs_later (runs s) (runs s')"
  by (simp add: same_core_fields)

lemma cancel_run_later: "runs_later (runs s) (runs (cancel_run k s))"
  by (auto simp: cancel_run_def run_later_def intro: runs_later_set split: option.splits)

lemma cancel_if_async_later: "runs_later (runs s) (runs (cancel_if_async k s))"
  by (auto simp: cancel_if_async_def Let_def cancel_run_later split: option.splits)

lemmas fold_later = run_stages.table_fold [where g = runs]

lemma finished_later: "runs_later (runs s) (runs (execution_finished k s))"
  by (auto simp: execution_finished_def run_later_def intro: runs_later_set split: option.splits)

lemma start_run_later:
  assumes "client_ok s"
  shows "runs_later (runs s) (runs (start_run res e job t args s))"
proof -
  have "dget (runs s) (length (runs s)) = None"
    using assms by (simp add: client_ok_def executions_ok_def numbered_None)
  then show ?thesis by (simp add: start_run_def Let_def runs_later_fresh)
qed

lemma accept_later: "client_ok s \<Longrightarrow> runs_later (runs s) (runs (snd (accept_execution su m rid io s)))"
  using runs_later_core [OF execution_failure_core] runs_later_core [OF send_event_core] start_run_later
  by (auto simp: accept_execution_def split: pyval.splits option.splits)

lemma handle_later:
  assumes "client_ok s"
  shows "runs_later (runs s) (runs (snd (handle_message su m rid io s)))"
  using accept_later [OF assms, of su m rid io] runs_later_core [OF send_event_core [of s]]
  unfolding handle_message_def Let_def
  by (auto simp: cancel_execution_def cancel_if_async_later split: pyval.splits option.splits)

lemma read_loop_exit_runs [simp]: "runs (read_loop_exit w s) = runs s"
  by (simp add: read_loop_exit_def fail_pending_def)

lemma deliver_later: "client_ok s \<Longrightarrow> runs_later (runs s) (runs (deliver su m rid io s))"
  using handle_later [of s su m rid io]
  by (auto simp: deliver_def split: prod.splits sum.splits option.splits)

lemma run_begin_later: "runs_later (runs s) (runs (run_begin k rid io s))"
proof (cases "dget (runs s) k")
  case (Some r)
  obtain x t where t: "send_run_event r ''started'' (run_context r) rid io s = (x, t)" by fastforce
  then have core: "same_core s t" using send_run_event_core [of s r "''started''" "run_context r" rid io] by simp
  have "runs_later (runs s) (dset (runs s) k (r\<lparr>r_phase := Started\<rparr>))" if "r_phase r = Created"
    using that by (intro runs_later_set [OF Some]) (simp add: run_later_def)
  with Some t same_core_fields [OF core] finished_later [of s k] finished_later [of t k] show ?thesis
    by (auto simp: run_begin_def split: sum.splits)
qed (simp add: run_begin_def)

lemma settle_later: "runs_later (runs s) (runs (run_settle su k outcome rid io s))"
  using runs_later_core [OF send_run_event_core]
  by (auto simp: run_settle_def finished_later intro: runs_later_trans [OF _ finished_later] split: option.splits sum.splits)

lemma detach_later: "runs_later (runs s) (runs (detach_connection w s))"
  using fold_later [of cancel_if_async s, OF cancel_if_async_later] by (simp add: detach_connection_def Let_def)

lemma shutdown_later: "runs_later (runs s) (runs (shutdown s))"
  using fold_later [of cancel_run "fail_pending ConnectionLost
      (s\<lparr>running := False, closing := True, connected := False, connection_lost := True\<rparr>)", OF cancel_run_later]
  by (simp add: shutdown_def Let_def fail_pending_def)

lemma close_later: "runs_later (runs s) (runs (snd (close loop s)))"
  using close_cases [of loop s] shutdown_later [of s] by auto

lemma exchange_begin_runs:
  assumes "exchange_begin kind body rid io s = (r, s')"
  shows "runs s' = runs s"
proof (cases "make_envelope kind rid body")
  case (Inr envelope)
  let ?s = "s\<lparr>futures := dset (futures s) (fresh_future s) Waiting, pending := dset (pending s) rid (fresh_future s)\<rparr>"
  show ?thesis
    using assms Inr same_core_fields(9) [OF send_envelope_core [of ?s None io envelope]]
    by (auto simp: exchange_begin_def Let_def exchange_finally_def drop_future_def split: prod.splits sum.splits if_splits)
qed (use assms in \<open>simp add: exchange_begin_def\<close>)

lemma start_runs [simp]: "runs (snd (start loop up s)) = runs s"
  by (auto simp: start_def ensure_event_loop_def wait_until_connected_def mark_connected_def attach_connection_def
      split: option.splits)

lemma step_later:
  assumes "client_step su x y" and "system_ok x"
  shows "runs_later (runs (fst x)) (runs (fst y))"
  using assms
proof (induction rule: client_step.induct)
  case (new_task s cs f name raw)
  then show ?case by (auto simp: declare_task_def split: sum.splits)
next
  case (end_request rid f cs s)
  then show ?case by (simp add: exchange_end_def exchange_finally_def drop_future_def)
next
  case (message s cs m rid io)
  then show ?case by (simp add: deliver_later system_ok_def)
qed (simp_all add: exchange_begin_runs attach_connection_def mark_connected_def awaitable_started_def Let_def detach_later
      run_begin_later settle_later close_later)

interpretation client_runs: ascending_steps "client_step su" system_ok
  "\<lambda>x y. runs_later (runs (fst x)) (runs (fst y))" for su
  by unfold_locales (use step_keeps step_later runs_later_trans in \<open>blast | simp\<close>)+

end
