(* ===== verification/ClientProps.thy ===== *)
theory ClientProps
  imports ClientInv
begin

section \<open>What the socket client guarantees\<close>

text \<open>
  Properties of the client's transition system: the invariant of every reachable state, the
  correlation of replies, when an execution starts, what \<^verbatim>\<open>close()\<close> releases, the fencing of
  executions by their connection, and two behaviours at the edges of the design.
\<close>

subsection \<open>Facts about deliveries and shutdown\<close>

text \<open>The kinds of message that are handled before the request id is looked at.\<close>

definition is_reply_kind :: "pydict \<Rightarrow> bool" where
  "is_reply_kind m \<longleftrightarrow> get_field m ''type'' \<notin> {skey ''execute'', skey ''cancel_execution'', skey ''ping''}"

definition acknowledges :: "pydict \<Rightarrow> pystr \<Rightarrow> client \<Rightarrow> bool" where
  "acknowledges m q s \<longleftrightarrow> get_field m ''type'' \<in> {skey ''accepted'', skey ''heartbeat_ok''} \<and> q \<in> set (event_request_ids s)"

definition reply_value :: "surface \<Rightarrow> pydict \<Rightarrow> pydict res" where
  "reply_value su m = (if get_field m ''type'' \<in> {skey ''error'', skey ''protocol_error''}
     then Inl (server_error_from_payload (repr_of su) (get_default m ''error'' (PDict m))) else Inr m)"

lemma handle_reply:
  assumes "is_reply_kind m" and "get_field m ''request_id'' = PStr q" and "\<not> acknowledges m q s"
    and "dget (pending s) q = Some f" and "dget (futures s) f = Some Waiting"
  shows "handle_message su m rid io s =
     (Inr (), s\<lparr>pending := dpop (pending s) q,
        futures := dset (futures s) f (case reply_value su m of Inl e \<Rightarrow> Failed e | Inr v \<Rightarrow> Done v)\<rparr>)"
  using assms by (auto simp: handle_message_def Let_def is_reply_kind_def acknowledges_def reply_value_def)

lemma handle_unsolicited:
  assumes "is_reply_kind m" and "get_field m ''request_id'' = PStr q" and "\<not> acknowledges m q s"
    and "dget (pending s) q = None"
  shows "handle_message su m rid io s = (Inl ProtocolError, s)"
  using assms by (simp add: handle_message_def Let_def is_reply_kind_def acknowledges_def)

lemma dget_map_values: "dget (map (\<lambda>(k, v). (k, g k v)) d) k = map_option (g k) (dget d k)"
  by (induction d) auto

lemma fail_pending_futures:
  assumes "replies_ok (pending s) (futures s)" and "dget (pending s) q = Some f"
  shows "dget (futures (fail_pending e s)) f = Some (Failed e)"
proof -
  have "f \<in> set (map snd (pending s))" using assms(2) by (force dest: map_of_SomeD)
  moreover have "dget (futures s) f = Some Waiting" using assms(1) calculation unfolding replies_ok_def by blast
  ultimately show ?thesis by (simp add: fail_pending_def dget_map_values)
qed

text \<open>Cancelling runs keeps everything else.\<close>

lemma cancel_run_fields:
  "pending (cancel_run k s) = pending s" "futures (cancel_run k s) = futures s" "sent (cancel_run k s) = sent s"
  "executions (cancel_run k s) = executions s"
  by (simp_all add: cancel_run_def split: option.split)

lemma fold_cancel_fields:
  "pending (fold cancel_run ks s) = pending s" "futures (fold cancel_run ks s) = futures s"
  "sent (fold cancel_run ks s) = sent s"
  by (induction ks arbitrary: s) (simp_all add: cancel_run_fields)

lemma cancel_run_cancels: "dget (runs s) k = Some r \<Longrightarrow> dget (runs (cancel_run k s)) k = Some (r\<lparr>r_cancel := True\<rparr>)"
  by (simp add: cancel_run_def)

lemma fold_cancel_cancels:
  assumes "k \<in> set ks" and "dget (runs s) k = Some r"
  shows "\<exists>r'. dget (runs (fold cancel_run ks s)) k = Some r' \<and> r_cancel r'"
  using assms
proof (induction ks arbitrary: s r)
  case (Cons j ks)
  show ?case
  proof (cases "j = k")
    case True
    then have "dget (runs (cancel_run j s)) k = Some (r\<lparr>r_cancel := True\<rparr>)" using Cons.prems(2) cancel_run_cancels by simp
    moreover have "runs_later (runs (cancel_run j s)) (runs (fold cancel_run ks (cancel_run j s)))"
      by (intro fold_later cancel_run_later)
    ultimately show ?thesis unfolding table_later_def run_later_def by fastforce
  next
    case False
    obtain r' where "dget (runs (cancel_run j s)) k = Some r'"
      using cancel_run_later [of s j] Cons.prems(2) by (auto simp: table_later_def)
    with Cons.IH [of "cancel_run j s" r'] Cons.prems(1) False show ?thesis by simp
  qed
qed simp

text \<open>What sending writes: nothing, or the envelope to the client's own open connection.\<close>

definition sends_to :: "conn \<Rightarrow> client \<Rightarrow> client \<Rightarrow> bool" where
  "sends_to c s s' \<longleftrightarrow> sent s' = sent s \<or>
     (writer s = Some c \<and> c \<notin> set (closed_writers s) \<and> (\<exists>envelope. sent s' = sent s @ [(c, envelope)]))"

lemma send_envelope_sends: "sends_to c s (snd (send_envelope (Some c) io e s))"
  by (auto simp: sends_to_def send_envelope_def Let_def split: sum.splits)

lemma send_event_sends: "sends_to c s (snd (send_event kind body (Some c) rid io s))"
proof (cases "make_envelope kind rid body")
  case (Inr e)
  let ?s = "s\<lparr>event_request_ids := List.insert rid (event_request_ids s)\<rparr>"
  obtain x t where t: "send_envelope (Some c) io e ?s = (x, t)" by fastforce
  then have "sends_to c ?s t" using send_envelope_sends [of c ?s io e] by simp
  with Inr t show ?thesis by (auto simp: sends_to_def send_event_def split: sum.splits)
qed (simp add: sends_to_def send_event_def)

lemma send_run_event_sends: "r_conn r = Some c \<Longrightarrow> sends_to c s (snd (send_run_event r kind body rid io s))"
  using send_event_sends [of c s kind body rid io] by (auto simp: send_run_event_def sends_to_def)

lemma finished_sent [simp]: "sent (execution_finished k s) = sent s"
  by (simp add: execution_finished_def split: option.split)

lemma run_settle_sends:
  assumes "dget (runs s) k = Some r" and "r_conn r = Some c"
  shows "sends_to c s (run_settle su k outcome rid io s)"
  using assms send_run_event_sends [OF assms(2), of s]
  by (auto simp: run_settle_def sends_to_def split: sum.splits)

lemma run_begin_sends:
  assumes "dget (runs s) k = Some r" and "r_conn r = Some c"
  shows "sends_to c s (run_begin k rid io s)"
proof -
  obtain x t where t: "send_run_event r ''started'' (run_context r) rid io s = (x, t)" by fastforce
  then have "sends_to c s t" using send_run_event_sends [OF assms(2), of s "''started''" "run_context r" rid io] by simp
  with assms t show ?thesis by (auto simp: run_begin_def sends_to_def split: sum.splits)
qed

lemma run_settle_over:
  assumes "dget (runs s) k = Some r" and "r_phase r = Started"
  shows "\<exists>r'. dget (runs (run_settle su k outcome rid io s)) k = Some r' \<and> r_phase r' = Over"
proof -
  have "\<exists>r'. dget (runs (execution_finished k t)) k = Some r' \<and> r_phase r' = Over" if "runs t = runs s" for t
    using that assms by (simp add: execution_finished_def)
  then show ?thesis
    using assms same_core_fields(9) [OF send_run_event_core] by (auto simp: run_settle_def split: sum.splits)
qed

subsection \<open>A worked example\<close>

text \<open>A configuration, a client with one declared task, and an execution request, on which the
  properties below are instantiated.\<close>

definition sample_config :: config where
  "sample_config = \<lparr>mode = skey ''embedded'', socket_path = str ''/run/tay'', capacity = 1, client_id = str ''c'',
     max_frame_bytes = 1024, max_result_bytes = 64, max_error_bytes = 128, request_timeout = Flt 30,
     connect_timeout = Flt 5, reconnect_initial_delay = Flt 1, reconnect_max_delay = Flt 2, include_traceback = False\<rparr>"

definition sample_surface :: surface where
  "sample_surface = \<lparr>describe = (\<lambda>_. \<lparr>f_type = str ''E'', f_message = Some [], f_traceback = None\<rparr>),
     repr_of = (\<lambda>_. []), sha256_of = (\<lambda>_. [])\<rparr>"

definition sample_execute :: pydict where
  "sample_execute = [(skey ''type'', skey ''execute''), (skey ''request_id'', skey ''q''), (skey ''execution_id'', skey ''e''),
     (skey ''reservation_id'', skey ''v''), (skey ''job_id'', skey ''j''), (skey ''task'', skey ''m.f''),
     (skey ''args'', PDict [])]"

definition sample_client :: client where
  "sample_client = attach_connection 1
     (snd (declare_task (t_function star_task) PNone example_config (initial_client sample_config 0)))"

definition sample_running :: client where
  "sample_running = deliver sample_surface sample_execute (str ''r1'') (Inr ()) sample_client"

text \<open>A client with a request in flight on connection 1.\<close>

definition sample_waiting :: client where
  "sample_waiting = (initial_client sample_config 0)\<lparr>writer := Some 1, connected := True, connection_lost := False,
     pending := [(str ''q'', 0), (str ''p'', 1)], futures := [(0, Waiting), (1, Waiting)]\<rparr>"

lemma sample_waiting_ok: "system_ok (sample_waiting, [(str ''q'', 0), (str ''p'', 1)])"
  by (simp add: system_ok_def client_ok_def sample_waiting_def initial_client_def replies_ok_def executions_ok_def
      calls_ok_def sample_config_def)

lemma sample_declare:
  "declare_task (t_function star_task) PNone example_config (initial_client sample_config 0)
     = (Inr star_task, (initial_client sample_config 0)\<lparr>tasks := [(str ''m.f'', star_task)], registered_task_names := [str ''m.f'']\<rparr>)"
proof -
  have "client_task_config example_config = Inr example_config"
    using star_task_config by (simp add: client_task_config_def star_task_def example_config_def Let_def)
  then show ?thesis
    by (simp add: declare_task_def register_task_def star_task_def default_task_name_def validate_task_name_def make_task_def
        initial_client_def text_eval DEFAULT_MAX_TASK_NAME_BYTES_def Let_def)
qed

lemma sample_client_reachable: "client_reachable su sample_config 0 (sample_client, [])"
  unfolding sample_client_def
  by (rule reaches.next_step [OF reaches.next_step [OF reaches.start [of "client_step su"] client_step.new_task] client_step.attach])

definition sample_run :: "conn \<Rightarrow> run" where
  "sample_run c = \<lparr>r_execution = str ''e'', r_reservation = str ''v'', r_job = str ''j'', r_task = star_task, r_arguments = [],
     r_conn = Some c, r_phase = Created, r_cancel = False\<rparr>"

lemma sample_fields:
  "get_field sample_execute ''type'' = skey ''execute''" "get_field sample_execute ''execution_id'' = skey ''e''"
  "get_field sample_execute ''reservation_id'' = skey ''v''" "get_field sample_execute ''job_id'' = skey ''j''"
  "get_default sample_execute ''task'' x = skey ''m.f''" "get_default sample_execute ''args'' y = PDict []"
  by (simp_all add: sample_execute_def get_field_def get_default_def)

text \<open>A client with the task registered and room starts the execution.\<close>

lemma sample_accept:
  assumes "cfg s = sample_config" and "tasks s = [(str ''m.f'', star_task)]" and "writer s = Some c" and "executions s = []"
  shows "deliver su sample_execute rid io s = s\<lparr>runs := dset (runs s) (length (runs s)) (sample_run c),
     executions := [(str ''e'', length (runs s))], execution_is_sync := dset (execution_is_sync s) (str ''e'') True,
     execution_connections := dset (execution_connections s) (str ''e'') (Some c)\<rparr>"
  using assms
  by (simp add: deliver_def handle_message_def accept_execution_def sample_fields start_run_def sample_run_def in_mode_def
      sample_config_def star_task_def Let_def)

lemma sample_client_fields:
  "cfg sample_client = sample_config" "tasks sample_client = [(str ''m.f'', star_task)]" "writer sample_client = Some 1"
  "executions sample_client = []" "runs sample_client = []" "pending sample_client = []" "futures sample_client = []"
  "execution_is_sync sample_client = []" "execution_connections sample_client = []" "sent sample_client = []"
  "closed_writers sample_client = []" "event_request_ids sample_client = []"
  unfolding sample_client_def sample_declare by (simp_all add: attach_connection_def initial_client_def)

lemma sample_running_eq:
  "sample_running = sample_client\<lparr>runs := [(0, sample_run 1)], executions := [(str ''e'', 0)],
     execution_is_sync := [(str ''e'', True)], execution_connections := [(str ''e'', Some 1)]\<rparr>"
  unfolding sample_running_def by (simp add: sample_accept [where c = 1] sample_client_fields)

lemma sample_running_reachable: "client_reachable sample_surface sample_config 0 (sample_running, [])"
  unfolding sample_running_def by (rule reaches.next_step [OF sample_client_reachable client_step.message])

definition sample_started :: pydict where
  "sample_started = [(skey ''version'', PInt 1), (skey ''type'', skey ''started''), (skey ''request_id'', skey ''r1''),
     (skey ''reservation_id'', skey ''v''), (skey ''execution_id'', skey ''e''), (skey ''job_id'', skey ''j'')]"

lemma sample_started_encodes: "\<exists>f. encode_frame 1024 (PDict sample_started) = Inr f"
proof -
  have v: "validate_envelope False (PDict sample_started) = Inr sample_started"
    by (simp add: envelope_eval sample_started_def)
  show ?thesis
    unfolding is_ok_iff [symmetric]
    by (simp add: encode_frame_def v, simp add: sample_started_def json_bytes_def json_eval pack_u32_def)
qed

lemma sample_started_event:
  assumes "writer s = Some c" and "c \<notin> set (closed_writers s)" and "cfg s = sample_config" and "r_execution r = str ''e''"
    and "r_reservation r = str ''v''" and "r_job r = str ''j''" and "r_conn r = Some c"
  shows "send_run_event r ''started'' (run_context r) (str ''r1'') (Inr ()) s =
     (Inr (), s\<lparr>event_request_ids := List.insert (str ''r1'') (event_request_ids s), sent := sent s @ [(c, sample_started)]\<rparr>)"
proof -
  have n: "make_envelope ''started'' (str ''r1'') (run_context r) = Inr sample_started"
    using assms by (simp add: make_envelope_def run_context_def normalize_json_exact PROTOCOL_VERSION_def sample_started_def)
  obtain f where "encode_frame 1024 (PDict sample_started) = Inr f" using sample_started_encodes by blast
  with assms n show ?thesis
    by (simp add: send_run_event_def stale_def send_event_def send_envelope_def sample_config_def)
qed

section \<open>Properties\<close>

text \<open>C2: the client's tables are consistent in every reachable state, whatever the interleaving
  of requests, deliveries, executions, reconnects and shutdowns: there are never more
  executions than the configured capacity and none in client mode, every entry of the table of
  executions is an unfinished run of that execution id, every pending request is one in flight
  whose future is still waiting, no two share a future, and the registry is well formed.\<close>

theorem client_invariant:
  assumes "client_reachable su c self (s, cs)" and "1 \<le> capacity c"
  shows "int (length (executions s)) \<le> capacity c \<and> (mode c = skey ''client'' \<longrightarrow> executions s = [])
    \<and> (\<forall>e k. dget (executions s) e = Some k \<longrightarrow> (\<exists>r. dget (runs s) k = Some r \<and> r_execution r = e \<and> r_phase r \<noteq> Over))
    \<and> (\<forall>q f. dget (pending s) q = Some f \<longrightarrow> (q, f) \<in> set cs \<and> dget (futures s) f = Some Waiting)
    \<and> (\<forall>p q f. dget (pending s) p = Some f \<and> dget (pending s) q = Some f \<longrightarrow> p = q)
    \<and> registry_ok self (tasks s)"
proof -
  have ok: "client_ok s" and calls: "calls_ok (pending s) (length (futures s)) cs" and c: "cfg s = c" "self_id s = self"
    using reachable_ok [OF assms(1)] assms(2) by (auto simp: system_ok_def)
  note parts = client_okD [OF ok]
  have call: "(q, f) \<in> set cs \<and> dget (futures s) f = Some Waiting" if "dget (pending s) q = Some f" for q f
  proof -
    have "(q, f) \<in> set (pending s)" using that by (rule map_of_SomeD)
    then show ?thesis using calls parts(1) by (force simp: calls_ok_def replies_ok_def)
  qed
  have "inj_on snd (set cs)" using calls by (simp add: calls_ok_def distinct_map)
  then have "p = q" if "dget (pending s) p = Some f" "dget (pending s) q = Some f" for p q f
    using call [OF that(1)] call [OF that(2)] inj_onD [of snd "set cs" "(p, f)" "(q, f)"] by simp
  moreover have "\<exists>r. dget (runs s) k = Some r \<and> r_execution r = e \<and> r_phase r \<noteq> Over" if "dget (executions s) e = Some k" for e k
    by (rule executions_ok_entry [OF parts(2) that])
  moreover have "int (length (executions s)) \<le> capacity c" "mode c = skey ''client'' \<longrightarrow> executions s = []"
    using parts(2) c unfolding executions_ok_def by simp_all
  ultimately show ?thesis using call parts(3) c by blast
qed

theorem client_invariant_witness:
  "executions sample_running = [(str ''e'', 0)] \<and> int (length (executions sample_running)) \<le> capacity sample_config"
  using client_invariant [OF sample_running_reachable]
  by (simp add: sample_running_eq) (simp add: sample_config_def)

text \<open>C33: a reply completes the request with its id and no other. The caller of that request gets
  the message, or the exception of an error reply; every other request and future is untouched.\<close>

theorem reply_correlation:
  assumes "client_ok s" and "dget (pending s) q = Some f" and "get_field m ''request_id'' = PStr q"
    and "is_reply_kind m" and "\<not> acknowledges m q s"
  shows "\<exists>s'. handle_message su m rid io s = (Inr (), s') \<and> fst (exchange_end q f s') = reply_value su m
     \<and> dget (pending s') q = None \<and> (\<forall>p. p \<noteq> q \<longrightarrow> dget (pending s') p = dget (pending s) p)
     \<and> (\<forall>g. g \<noteq> f \<longrightarrow> dget (futures s') g = dget (futures s) g)"
proof -
  have "f \<in> set (map snd (pending s))" using assms(2) by (force dest: map_of_SomeD)
  then have "dget (futures s) f = Some Waiting" using client_okD(1) [OF assms(1)] unfolding replies_ok_def by blast
  from handle_reply [OF assms(4,3,5,2) this] show ?thesis
    by (simp add: exchange_end_def split: sum.split)
qed

theorem reply_correlation_witness:
  "let m = [(skey ''type'', skey ''job''), (skey ''request_id'', skey ''q'')] in
     \<exists>s'. handle_message sample_surface m [] (Inr ()) sample_waiting = (Inr (), s')
       \<and> fst (exchange_end (str ''q'') 0 s') = Inr m \<and> dget (futures s') 1 = Some Waiting"
proof -
  let ?m = "[(skey ''type'', skey ''job''), (skey ''request_id'', skey ''q'')]"
  have "client_ok sample_waiting" using sample_waiting_ok by (simp add: system_ok_def)
  moreover have "dget (pending sample_waiting) (str ''q'') = Some 0" by (simp add: sample_waiting_def)
  moreover have "is_reply_kind ?m" "\<not> acknowledges ?m (str ''q'') sample_waiting" "get_field ?m ''request_id'' = PStr (str ''q'')"
    by (simp_all add: is_reply_kind_def acknowledges_def get_field_def)
  ultimately obtain s' where "handle_message sample_surface ?m [] (Inr ()) sample_waiting = (Inr (), s')"
    "fst (exchange_end (str ''q'') 0 s') = reply_value sample_surface ?m" "\<forall>g. g \<noteq> 0 \<longrightarrow> dget (futures s') g = dget (futures sample_waiting) g"
    using reply_correlation [of sample_waiting "str ''q''" 0 ?m sample_surface "[]" "Inr ()"] by blast
  then show ?thesis by (simp add: Let_def reply_value_def get_field_def sample_waiting_def)
qed

text \<open>C36: a reply that arrives after its request has timed out takes the connection down: the
  message is treated as unsolicited, the client is no longer connected, and every other request
  in flight fails with \<^verbatim>\<open>ConnectionLost\<close>.\<close>

theorem late_reply_drops_connection:
  assumes "system_ok (s, cs)" and "(rid, f) \<in> set cs" and "writer s = Some w" and "get_field m ''request_id'' = PStr rid"
    and "is_reply_kind m" and "rid \<notin> set (event_request_ids s)"
  shows "let s' = deliver su m x io (snd (exchange_end rid f s)) in
     \<not> is_connected s' \<and> connection_lost s' \<and> pending s' = []
     \<and> (\<forall>q g. q \<noteq> rid \<and> dget (pending s) q = Some g \<longrightarrow> dget (futures s') g = Some (Failed ConnectionLost))"
proof -
  let ?t = "snd (exchange_end rid f s)"
  have ok: "client_ok ?t"
    using assms(1,2) by (auto simp: system_ok_def intro: exchange_end_ok owns_call)
  have t: "pending ?t = dpop (pending s) rid" "writer ?t = Some w" "event_request_ids ?t = event_request_ids s"
    using assms(3) by (simp_all add: exchange_end_def exchange_finally_def drop_future_def)
  have "handle_message su m x io ?t = (Inl ProtocolError, ?t)"
    using assms(4-6) t by (intro handle_unsolicited [where q = rid]) (simp_all add: acknowledges_def)
  then have d: "deliver su m x io ?t
      = fail_pending ConnectionLost (?t\<lparr>event_request_ids := [], connected := False, connection_lost := True\<rparr>)"
    using t(2) by (simp add: deliver_def read_loop_exit_def)
  have "dget (futures (deliver su m x io ?t)) g = Some (Failed ConnectionLost)"
    if "q \<noteq> rid" "dget (pending s) q = Some g" for q g
    unfolding d using client_okD(1) [OF ok] that t(1) by (intro fail_pending_futures [where q = q]) simp_all
  moreover have "\<not> is_connected (deliver su m x io ?t)" "connection_lost (deliver su m x io ?t)" "pending (deliver su m x io ?t) = []"
    unfolding d by (simp_all add: fail_pending_def is_connected_def)
  ultimately show ?thesis unfolding Let_def by blast
qed

theorem late_reply_drops_connection_witness:
  "let m = [(skey ''type'', skey ''job''), (skey ''request_id'', skey ''q'')];
       s' = deliver sample_surface m [] (Inr ()) (snd (exchange_end (str ''q'') 0 sample_waiting)) in
     is_connected sample_waiting \<and> \<not> is_connected s' \<and> dget (futures s') 1 = Some (Failed ConnectionLost)"
proof -
  let ?m = "[(skey ''type'', skey ''job''), (skey ''request_id'', skey ''q'')]"
  have "is_connected sample_waiting" "dget (pending sample_waiting) (str ''p'') = Some 1"
    "writer sample_waiting = Some 1" "event_request_ids sample_waiting = []"
    by (simp_all add: sample_waiting_def is_connected_def initial_client_def)
  moreover have "is_reply_kind ?m" "get_field ?m ''request_id'' = PStr (str ''q'')"
    by (simp_all add: is_reply_kind_def get_field_def)
  moreover have "str ''p'' \<noteq> str ''q''" by simp
  ultimately show ?thesis
    using late_reply_drops_connection [OF sample_waiting_ok, of "str ''q''" 0 1 ?m sample_surface "[]" "Inr ()"]
    unfolding Let_def by (metis empty_iff list.set(1) list.set_intros(1))
qed

text \<open>C9: when a well-formed execution request starts a run. Exactly when the client is not in
  client mode, the task is registered, no execution of that id is active and there is room, one
  run is added, of that task with those arguments, bound to the current connection; a duplicate,
  an unknown task and a request over capacity start nothing.\<close>

theorem accept_starts_exactly:
  assumes "client_ok s" and "get_field m ''execution_id'' = PStr e" and "get_field m ''reservation_id'' = PStr v"
    and "get_field m ''job_id'' = PStr j" and "get_default m ''task'' (get_field m ''task_name'') = PStr name"
    and "get_default m ''args'' (PDict []) = PDict args" and "e \<noteq> []" and "v \<noteq> []" and "j \<noteq> []"
  shows "let s' = snd (accept_execution su m rid io s) in
     case dget (tasks s) name of
       Some t \<Rightarrow>
         if \<not> in_mode s ''client'' \<and> dget (executions s) e = None \<and> int (length (executions s)) < capacity (cfg s)
         then runs s' = runs s @ [(length (runs s), \<lparr>r_execution = e, r_reservation = v, r_job = j, r_task = t,
                r_arguments = args, r_conn = writer s, r_phase = Created, r_cancel = False\<rparr>)]
              \<and> executions s' = executions s @ [(e, length (runs s))]
         else runs s' = runs s \<and> executions s' = executions s
     | None \<Rightarrow> runs s' = runs s \<and> executions s' = executions s"
proof -
  have n: "dkeys (runs s) = [0..<length (runs s)]" using assms(1) by (simp add: client_ok_def executions_ok_def)
  have new: "dget (executions s) e = None \<Longrightarrow> dset (executions s) e k = executions s @ [(e, k)]" for k
    by (rule dkeys_dset_fresh) (simp add: map_of_eq_None_iff)
  note quiet = same_core_fields(9,6) [OF execution_failure_core] same_core_fields(9,6) [OF send_event_core]
  show ?thesis
    using assms(2-9) numbered_fresh [OF n] new
    by (auto simp: accept_execution_def start_run_def Let_def quiet split: option.split)
qed

theorem accept_starts_exactly_witness:
  "length (runs (snd (accept_execution sample_surface sample_execute [] (Inr ()) sample_client))) = 1
   \<and> runs (snd (accept_execution sample_surface sample_execute [] (Inr ()) sample_running)) = runs sample_running"
proof -
  have ok: "client_ok sample_client" "client_ok sample_running"
    using reachable_client_ok [OF sample_client_reachable] reachable_client_ok [OF sample_running_reachable]
    by (simp_all add: sample_config_def)
  note run = accept_starts_exactly [OF _ sample_fields(2-4) sample_fields(5) sample_fields(6), of _ sample_surface "[]" "Inr ()"]
  have "\<not> in_mode sample_client ''client''" "1 = capacity (cfg sample_client)"
    by (simp_all add: in_mode_def sample_client_fields sample_config_def)
  with run [OF ok(1)] have "length (runs (snd (accept_execution sample_surface sample_execute [] (Inr ()) sample_client))) = 1"
    unfolding Let_def by (simp add: sample_client_fields)
  moreover have "runs (snd (accept_execution sample_surface sample_execute [] (Inr ()) sample_running)) = runs sample_running"
    using run [OF ok(2)] unfolding Let_def by (simp add: sample_running_eq sample_client_fields)
  ultimately show ?thesis by simp
qed

text \<open>C23: \<^verbatim>\<open>close()\<close> releases everybody. No request stays pending and every one that was fails
  with \<^verbatim>\<open>ConnectionLost\<close>, every active execution is cancelled and forgotten, the connection
  is closed and detached, and nothing is written by it.\<close>

theorem shutdown_releases:
  assumes "client_ok s"
  shows "let s' = shutdown s in
     pending s' = [] \<and> executions s' = [] \<and> execution_connections s' = [] \<and> writer s' = None \<and> \<not> is_connected s'
     \<and> (\<forall>c. writer s = Some c \<longrightarrow> c \<in> set (closed_writers s')) \<and> sent s' = sent s
     \<and> (\<forall>q f. dget (pending s) q = Some f \<longrightarrow> dget (futures s') f = Some (Failed ConnectionLost))
     \<and> (\<forall>e k. dget (executions s) e = Some k \<longrightarrow> (\<exists>r. dget (runs s') k = Some r \<and> r_execution r = e \<and> r_cancel r))"
proof -
  let ?s0 = "s\<lparr>running := False, closing := True, connected := False, connection_lost := True\<rparr>"
  let ?s1 = "fail_pending ConnectionLost ?s0"
  let ?s2 = "fold cancel_run (map snd (executions ?s1)) ?s1"
  have ex: "executions ?s1 = executions s" "runs ?s1 = runs s" by (simp_all add: fail_pending_def)
  have futures: "dget (futures (shutdown s)) f = Some (Failed ConnectionLost)" if "dget (pending s) q = Some f" for q f
    using fail_pending_futures [of ?s0 q f ConnectionLost] client_okD(1) [OF assms] that
    by (simp add: shutdown_def Let_def fold_cancel_fields)
  have runs: "\<exists>r. dget (runs (shutdown s)) k = Some r \<and> r_execution r = e \<and> r_cancel r"
    if k: "dget (executions s) e = Some k" for e k
  proof -
    obtain r where r: "dget (runs s) k = Some r" "r_execution r = e"
      using executions_ok_entry [OF client_okD(2) [OF assms] k] by blast
    have "k \<in> set (map snd (executions ?s1))" using k ex by (force dest: map_of_SomeD)
    moreover have "dget (runs ?s1) k = Some r" using r(1) ex(2) by simp
    ultimately obtain r' where r': "dget (runs ?s2) k = Some r'" "r_cancel r'" using fold_cancel_cancels by blast
    have "runs_later (runs s) (runs (shutdown s))" by (rule shutdown_later)
    with r r' show ?thesis by (fastforce simp: table_later_def run_later_def shutdown_def Let_def)
  qed
  have "sent (shutdown s) = sent s" by (simp add: shutdown_def Let_def fold_cancel_fields fail_pending_def)
  moreover have "\<forall>c. writer s = Some c \<longrightarrow> c \<in> set (closed_writers (shutdown s))"
    by (simp add: shutdown_def Let_def)
  moreover have "pending (shutdown s) = []"
    by (simp add: shutdown_def Let_def fold_cancel_fields fail_pending_def)
  moreover have "executions (shutdown s) = []" "execution_connections (shutdown s) = []" "writer (shutdown s) = None"
    "\<not> is_connected (shutdown s)" by (simp_all add: shutdown_def Let_def is_connected_def)
  ultimately show ?thesis using futures runs unfolding Let_def by blast
qed

theorem shutdown_releases_witness:
  "dget (futures (shutdown sample_waiting)) 1 = Some (Failed ConnectionLost) \<and> 1 \<in> set (closed_writers (shutdown sample_waiting))
   \<and> (\<exists>r. dget (runs (shutdown sample_running)) 0 = Some r \<and> r_cancel r)"
proof -
  have "client_ok sample_waiting" "client_ok sample_running"
    using sample_waiting_ok reachable_client_ok [OF sample_running_reachable] by (simp_all add: system_ok_def sample_config_def)
  moreover have "dget (pending sample_waiting) (str ''p'') = Some 1" "writer sample_waiting = Some 1"
    "dget (executions sample_running) (str ''e'') = Some 0"
    by (simp_all add: sample_waiting_def sample_running_eq)
  ultimately show ?thesis using shutdown_releases unfolding Let_def by meson
qed




definition sample_begun :: client where
  "sample_begun = run_begin 0 (str ''r1'') (Inr ()) sample_running"

lemma sample_begun_reachable: "client_reachable sample_surface sample_config 0 (sample_begun, [])"
  unfolding sample_begun_def by (rule reaches.next_step [OF sample_running_reachable client_step.begin_run])

lemma sample_begun_eq:
  "sample_begun = sample_running\<lparr>event_request_ids := [str ''r1''], sent := [(1, sample_started)],
     runs := [(0, (sample_run 1)\<lparr>r_phase := Started\<rparr>)]\<rparr>"
  using sample_started_event [of sample_running 1 "sample_run 1"]
  by (simp add: sample_begun_def run_begin_def stale_def sample_running_eq sample_client_fields sample_run_def)


text \<open>The example goes on: the client is closed while the task ignores its cancellation, comes up
  again on connection 2, is sent the same execution again, and only then does the first run end.\<close>

definition sample_restarted :: client where
  "sample_restarted = deliver sample_surface sample_execute (str ''r2'') (Inr ()) (attach_connection 2 (snd (close 0 sample_begun)))"

definition sample_evicted :: client where
  "sample_evicted = run_settle sample_surface 0 (Inr PNone) (str ''r3'') (Inr ()) sample_restarted"

definition sample_doubled :: client where
  "sample_doubled = deliver sample_surface sample_execute (str ''r4'') (Inr ()) sample_evicted"

lemma sample_doubled_reachable: "client_reachable sample_surface sample_config 0 (sample_doubled, [])"
  unfolding sample_doubled_def sample_evicted_def sample_restarted_def
  by (rule reaches.next_step [OF reaches.next_step [OF reaches.next_step [OF reaches.next_step
      [OF reaches.next_step [OF sample_begun_reachable client_step.closing] client_step.attach] client_step.message]
      client_step.settle] client_step.message])

lemma sample_begun_fields:
  "cfg sample_begun = sample_config" "tasks sample_begun = [(str ''m.f'', star_task)]" "writer sample_begun = Some 1"
  "executions sample_begun = [(str ''e'', 0)]" "runs sample_begun = [(0, (sample_run 1)\<lparr>r_phase := Started\<rparr>)]"
  "loop_id sample_begun = None"
  unfolding sample_begun_eq sample_running_eq sample_client_def sample_declare
  by (simp_all add: attach_connection_def initial_client_def)

lemma sample_closed_fields:
  "cfg (shutdown sample_begun) = sample_config" "tasks (shutdown sample_begun) = [(str ''m.f'', star_task)]"
  "executions (shutdown sample_begun) = []" "execution_is_sync (shutdown sample_begun) = []"
  "execution_connections (shutdown sample_begun) = []"
  "runs (shutdown sample_begun) = [(0, (sample_run 1)\<lparr>r_phase := Started, r_cancel := True\<rparr>)]"
  by (simp_all add: shutdown_def Let_def fail_pending_def cancel_run_def sample_begun_fields)

lemma sample_restarted_fields:
  "cfg sample_restarted = sample_config" "tasks sample_restarted = [(str ''m.f'', star_task)]"
  "writer sample_restarted = Some 2" "executions sample_restarted = [(str ''e'', 1)]"
  "execution_is_sync sample_restarted = [(str ''e'', True)]" "execution_connections sample_restarted = [(str ''e'', Some 2)]"
  "runs sample_restarted = [(0, (sample_run 1)\<lparr>r_phase := Started, r_cancel := True\<rparr>), (1, sample_run 2)]"
proof -
  have closed: "snd (close 0 sample_begun) = shutdown sample_begun" by (simp add: close_def sample_begun_fields)
  have eq: "sample_restarted = (attach_connection 2 (shutdown sample_begun))
      \<lparr>runs := [(0, (sample_run 1)\<lparr>r_phase := Started, r_cancel := True\<rparr>), (1, sample_run 2)], executions := [(str ''e'', 1)],
       execution_is_sync := [(str ''e'', True)], execution_connections := [(str ''e'', Some 2)]\<rparr>"
    unfolding sample_restarted_def closed
    by (subst sample_accept [where c = 2]) (simp_all add: attach_connection_def sample_closed_fields)
  show "cfg sample_restarted = sample_config" "tasks sample_restarted = [(str ''m.f'', star_task)]"
    "writer sample_restarted = Some 2" "executions sample_restarted = [(str ''e'', 1)]"
    "execution_is_sync sample_restarted = [(str ''e'', True)]" "execution_connections sample_restarted = [(str ''e'', Some 2)]"
    "runs sample_restarted = [(0, (sample_run 1)\<lparr>r_phase := Started, r_cancel := True\<rparr>), (1, sample_run 2)]"
    unfolding eq by (simp_all add: attach_connection_def sample_closed_fields)
qed

lemma sample_evicted_fields:
  "cfg sample_evicted = sample_config" "tasks sample_evicted = [(str ''m.f'', star_task)]" "writer sample_evicted = Some 2"
  "executions sample_evicted = []"
  "runs sample_evicted = [(0, (sample_run 1)\<lparr>r_phase := Over, r_cancel := True\<rparr>), (1, sample_run 2)]"
  unfolding sample_evicted_def
  by (simp_all add: run_settle_def settle_fields_def send_run_event_def stale_def execution_finished_def dpop_def
      sample_restarted_fields sample_run_def)

text \<open>C37: the protection against a second local invocation of an execution has a gap. There is a
  reachable state of a client of capacity 1 in which two uncancelled, unfinished runs have the
  same execution id: a run that outlives \<^verbatim>\<open>close()\<close> removes, when it ends, the table entry
  that a newer run of that id owns, so that a duplicate delivery starts that id once more.\<close>

theorem duplicate_invocation_reachable:
  "\<exists>s cs j k r r'. client_reachable sample_surface sample_config 0 (s, cs) \<and> capacity (cfg s) = 1
     \<and> j \<noteq> k \<and> dget (runs s) j = Some r \<and> dget (runs s) k = Some r' \<and> r_execution r = r_execution r'
     \<and> r_phase r \<noteq> Over \<and> r_phase r' \<noteq> Over \<and> \<not> r_cancel r \<and> \<not> r_cancel r'"
proof -
  have "runs sample_doubled = [(0, (sample_run 1)\<lparr>r_phase := Over, r_cancel := True\<rparr>), (1, sample_run 2), (2, sample_run 2)]"
    "cfg sample_doubled = sample_config"
    unfolding sample_doubled_def by (simp_all add: sample_accept [where c = 2] sample_evicted_fields)
  then have "capacity (cfg sample_doubled) = 1 \<and> (1 :: nat) \<noteq> 2 \<and> dget (runs sample_doubled) 1 = Some (sample_run 2)
      \<and> dget (runs sample_doubled) 2 = Some (sample_run 2) \<and> r_execution (sample_run 2) = r_execution (sample_run 2)
      \<and> r_phase (sample_run 2) \<noteq> Over \<and> r_phase (sample_run 2) \<noteq> Over \<and> \<not> r_cancel (sample_run 2) \<and> \<not> r_cancel (sample_run 2)"
    by (simp add: sample_config_def sample_run_def)
  with sample_doubled_reachable show ?thesis by blast
qed

end
