(* ===== verification/ClientApi.thy ===== *)
theory ClientApi
  imports ClientProps
begin

section \<open>The client's API and its bootstrap (\<^verbatim>\<open>tay/client.py\<close>)\<close>

text \<open>
  The methods that talk to the server: the bootstrap of a new connection, registration of
  tasks, submission, job handles and the hooks of the scheduling API. Each request is
  \<open>Client.request\<close> with the world it meets; a sequence of requests takes its worlds from a
  stream \<open>worlds\<close>, the n-th request the n-th world.
\<close>

subsection \<open>Sequences of requests\<close>

type_synonym worlds = "nat \<Rightarrow> exchange_world"
type_synonym session = "client \<times> worlds"

definition session_exchange :: "surface \<Rightarrow> string \<Rightarrow> pydict \<Rightarrow> session \<Rightarrow> pydict res \<times> session" where
  "session_exchange su kind body x =
     (case exchange su (snd x 0) kind body (fst x) of (r, s) \<Rightarrow> (r, (s, snd x \<circ> Suc)))"

definition session_request :: "surface \<Rightarrow> string \<Rightarrow> pydict \<Rightarrow> session \<Rightarrow> pydict res \<times> session" where
  "session_request su kind body x =
     (case request su (snd x 0) kind body (fst x) of (r, s) \<Rightarrow> (r, (s, snd x \<circ> Suc)))"

fun exchange_all :: "surface \<Rightarrow> (string \<times> pydict) list \<Rightarrow> session \<Rightarrow> unit res \<times> session" where
  "exchange_all su [] x = (Inr (), x)"
| "exchange_all su ((kind, body) # todo) x =
     (case session_exchange su kind body x of
        (Inl e, x') \<Rightarrow> (Inl e, x')
      | (Inr _, x') \<Rightarrow> exchange_all su todo x')"

subsection \<open>Bootstrap\<close>

definition hello_body :: "client \<Rightarrow> pydict" where
  "hello_body s =
     [(skey ''mode'', mode (cfg s)), (skey ''runtime_id'', PStr (client_id (cfg s))),
      (skey ''max_concurrency'', PInt (if in_mode s ''client'' then 0 else capacity (cfg s)))]"

text \<open>The loop over the tasks: static declarations that are not withdrawn join the retained ones.
  A static declaration has a declaration id, which is a string.\<close>

fun add_static :: "surface \<Rightarrow> pystr list \<Rightarrow> task list \<Rightarrow> (pystr, pydict) dict \<Rightarrow> (pystr, pydict) dict res" where
  "add_static su withdrawn [] declarations = Inr declarations"
| "add_static su withdrawn (t # ts) declarations =
     rbind (static_schedule_declaration (sha256_of su) t) (\<lambda>d.
     case d of
       None \<Rightarrow> add_static su withdrawn ts declarations
     | Some declaration \<Rightarrow>
         (case get_field declaration ''declaration_id'' of
            PStr i \<Rightarrow> add_static su withdrawn ts (if i \<in> set withdrawn then declarations else dset declarations i declaration)
          | _ \<Rightarrow> Inl KeyError))"

definition bootstrap_declarations :: "surface \<Rightarrow> client \<Rightarrow> (pystr, pydict) dict res" where
  "bootstrap_declarations su s = add_static su (withdrawn_schedules s) (map snd (tasks s)) (schedule_declarations s)"

definition bootstrap :: "surface \<Rightarrow> session \<Rightarrow> unit res \<times> session" where
  "bootstrap su x =
     (case session_exchange su ''hello'' (hello_body (fst x)) x of
        (Inl e, x) \<Rightarrow> (Inl e, x)
      | (Inr _, x) \<Rightarrow>
          (case bootstrap_declarations su (fst x) of
             Inl e \<Rightarrow> (Inl e, x)
           | Inr declarations \<Rightarrow>
               (case exchange_all su (map (\<lambda>(_, d). (''schedule'', d)) (sort_key fst declarations)) x of
                  (Inl e, x) \<Rightarrow> (Inl e, x)
                | (Inr _, x) \<Rightarrow>
                    if \<not> in_mode (fst x) ''client'' \<and> registered_task_names (fst x) \<noteq> [] then
                      (case session_exchange su ''register_tasks''
                              [(skey ''tasks'', PList (map PStr (sort (registered_task_names (fst x)))))] x of
                         (Inl e, x) \<Rightarrow> (Inl e, x)
                       | (Inr _, x) \<Rightarrow> (Inr (), x))
                    else (Inr (), x))))"

subsection \<open>Registration and submission\<close>

text \<open>\<^verbatim>\<open>tuple(dict.fromkeys(...))\<close>.\<close>

definition dict_fromkeys :: "'k list \<Rightarrow> 'k list" where
  "dict_fromkeys ks = dkeys (foldl (\<lambda>d k. dset d k ()) [] ks)"

definition register_tasks :: "surface \<Rightarrow> exchange_world \<Rightarrow> task_ref list \<Rightarrow> client \<Rightarrow> task list res \<times> client" where
  "register_tasks su w refs s =
     (if in_mode s ''client'' then (Inl ModeError, s)
      else if refs = [] then (Inr [], s)
      else
        (case rmap (registered_task_name s) refs of
           Inl e \<Rightarrow> (Inl e, s)
         | Inr ns \<Rightarrow>
             (let names = dict_fromkeys ns;
                  s = s\<lparr>registered_task_names := fold List.insert names (registered_task_names s)\<rparr>
              in case request su w ''register_tasks'' [(skey ''tasks'', PList (map PStr names))] s of
                   (Inl e, s) \<Rightarrow> (Inl e, s)
                 | (Inr _, s) \<Rightarrow>
                     (rmap (\<lambda>n. case dget (tasks s) n of None \<Rightarrow> Inl KeyError | Some t \<Rightarrow> Inr t) names, s))))"

definition unregister_tasks :: "surface \<Rightarrow> exchange_world \<Rightarrow> task_ref list \<Rightarrow> client \<Rightarrow> pystr list res \<times> client" where
  "unregister_tasks su w refs s =
     (if in_mode s ''client'' then (Inl ModeError, s)
      else if refs = [] then (Inr [], s)
      else
        (case rmap (registered_task_name s) refs of
           Inl e \<Rightarrow> (Inl e, s)
         | Inr ns \<Rightarrow>
             (let names = dict_fromkeys ns;
                  s = s\<lparr>registered_task_names := filter (\<lambda>n. n \<notin> set names) (registered_task_names s)\<rparr>
              in case request su w ''unregister_tasks'' [(skey ''tasks'', PList (map PStr names))] s of
                   (Inl e, s) \<Rightarrow> (Inl e, s)
                 | (Inr _, s) \<Rightarrow> (Inr names, s))))"

text \<open>The handle of a job is its id and durability.\<close>

definition enqueue ::
  "surface \<Rightarrow> exchange_world \<Rightarrow> task_ref \<Rightarrow> pyval \<Rightarrow> pyval \<Rightarrow> pydict \<Rightarrow> pyval \<Rightarrow> client
   \<Rightarrow> (pystr \<times> pystr option) res \<times> client" where
  "enqueue su w t args options keywords durability s =
     (if in_mode s ''worker'' then (Inl ModeError, s)
      else
        (case rbind (task_name s t) (\<lambda>name. enqueue_payload name args options keywords durability) of
           Inl e \<Rightarrow> (Inl e, s)
         | Inr payload \<Rightarrow>
             (case request su w ''enqueue'' payload s of
                (Inl e, s) \<Rightarrow> (Inl e, s)
              | (Inr reply, s) \<Rightarrow>
                  (rbind (extract_identifier reply ''job_id'' ''job'') (\<lambda>i. Inr (i, extract_job_durability reply)), s))))"

definition job_status :: "surface \<Rightarrow> exchange_world \<Rightarrow> pystr \<Rightarrow> client \<Rightarrow> pyval res \<times> client" where
  "job_status su w i s =
     (case request su w ''status'' [(skey ''job_id'', PStr i)] s of
        (Inl e, s) \<Rightarrow> (Inl e, s)
      | (Inr reply, s) \<Rightarrow> (Inr (get_default reply ''status'' (get_default reply ''job'' (PDict reply))), s))"

definition job_cancel :: "surface \<Rightarrow> exchange_world \<Rightarrow> pystr \<Rightarrow> client \<Rightarrow> pyval res \<times> client" where
  "job_cancel su w i s =
     (case request su w ''cancel'' [(skey ''job_id'', PStr i)] s of
        (Inl e, s) \<Rightarrow> (Inl e, s)
      | (Inr reply, s) \<Rightarrow> (Inr (get_default reply ''status'' (PDict reply)), s))"

definition job_result :: "surface \<Rightarrow> exchange_world \<Rightarrow> pystr \<Rightarrow> client \<Rightarrow> pyval res \<times> client" where
  "job_result su w i s =
     (case request su w ''result'' [(skey ''job_id'', PStr i)] s of
        (Inl e, s) \<Rightarrow> (Inl e, s)
      | (Inr reply, s) \<Rightarrow> (extract_result (repr_of su) reply, s))"

subsection \<open>Scheduling hooks\<close>

definition retain_declaration :: "pystr \<Rightarrow> pydict \<Rightarrow> client \<Rightarrow> client" where
  "retain_declaration i payload s = s\<lparr>schedule_declarations := dset (schedule_declarations s) i payload\<rparr>"

definition forget_declaration :: "pystr \<Rightarrow> client \<Rightarrow> client" where
  "forget_declaration i s = s\<lparr>schedule_declarations := dpop (schedule_declarations s) i\<rparr>"

definition client_hooks :: "surface \<Rightarrow> session hooks" where
  "client_hooks su =
     \<lparr>schedule_request = session_request su,
      schedule_task_name = (\<lambda>x t. task_name (fst x) t),
      retain_schedule = (\<lambda>i payload x. (retain_declaration i payload (fst x), snd x)),
      forget_schedule = (\<lambda>i x. (forget_declaration i (fst x), snd x)),
      hook_mode = (\<lambda>x. if in_mode (fst x) ''worker'' then Some ''worker''
                        else if in_mode (fst x) ''client'' then Some ''client'' else Some ''embedded''),
      get_withdrawn = (\<lambda>x. withdrawn_schedules (fst x)),
      set_withdrawn = (\<lambda>ids x. ((fst x)\<lparr>withdrawn_schedules := ids\<rparr>, snd x))\<rparr>"

subsection \<open>Requests keep the desired state\<close>

text \<open>What the application wants: its tasks, the names it advertises, its schedules.\<close>

definition same_desire :: "client \<Rightarrow> client \<Rightarrow> bool" where
  "same_desire s s' \<longleftrightarrow> cfg s' = cfg s \<and> self_id s' = self_id s \<and> tasks s' = tasks s
     \<and> registered_task_names s' = registered_task_names s \<and> schedule_declarations s' = schedule_declarations s
     \<and> withdrawn_schedules s' = withdrawn_schedules s"

lemma same_desire_refl [simp]: "same_desire s s"
  by (simp add: same_desire_def)

lemma same_desire_trans: "same_desire s t \<Longrightarrow> same_desire t u \<Longrightarrow> same_desire s u"
  by (simp add: same_desire_def)

lemma same_desire_core: "same_core s s' \<Longrightarrow> same_desire s s'"
  by (simp add: same_desire_def same_core_fields)

lemma same_desire_update:
  "same_desire s (s\<lparr>pending := p\<rparr>)" "same_desire s (s\<lparr>futures := f\<rparr>)" "same_desire s (s\<lparr>pending := p, futures := f\<rparr>)"
  "same_desire s (s\<lparr>futures := f, pending := p\<rparr>)" "same_desire s (s\<lparr>event_request_ids := ids\<rparr>)"
  by (simp_all add: same_desire_def)

lemma same_desire_accept: "same_desire s (snd (accept_execution su m rid io s))"
proof -
  have "same_desire s (start_run v e j t a s)" for v e j t a by (simp add: start_run_def Let_def same_desire_def)
  then show ?thesis
    using same_desire_core [OF execution_failure_core] same_desire_core [OF send_event_core]
    by (auto simp: accept_execution_def split: pyval.splits option.splits)
qed

lemma same_desire_cancel: "same_desire s (snd (cancel_execution m s))"
  by (auto simp: cancel_execution_def cancel_if_async_def cancel_run_def same_desire_def Let_def
      split: pyval.splits option.splits)

lemma same_desire_handle: "same_desire s (snd (handle_message su m rid io s))"
  using same_desire_accept [of s su m rid io] same_desire_cancel [of s m] same_desire_core [OF send_event_core [of s]]
  unfolding handle_message_def Let_def by (auto simp: same_desire_update split: pyval.splits option.splits)

lemma same_desire_exit: "same_desire s (read_loop_exit w s)"
  by (simp add: read_loop_exit_def fail_pending_def same_desire_def)

lemma same_desire_deliver: "same_desire s (deliver su m rid io s)"
  using same_desire_handle [of s su m rid io] same_desire_exit
  by (auto simp: deliver_def split: prod.splits sum.splits option.splits intro: same_desire_trans)

lemma same_desire_finally: "same_desire s (exchange_finally rid f s)"
  by (simp add: exchange_finally_def drop_future_def same_desire_def)

lemma same_desire_begin:
  assumes "exchange_begin kind body rid io s = (r, s')"
  shows "same_desire s s'"
proof (cases "make_envelope kind rid body")
  case (Inr envelope)
  let ?s = "s\<lparr>futures := dset (futures s) (fresh_future s) Waiting, pending := dset (pending s) rid (fresh_future s)\<rparr>"
  obtain x t where t: "send_envelope None io envelope ?s = (x, t)" by fastforce
  have "same_desire s t"
    using same_desire_core [OF send_envelope_core [of ?s None io envelope]] t
    by (auto intro: same_desire_trans [OF same_desire_update(4)])
  with assms Inr t show ?thesis
    by (auto simp: exchange_begin_def Let_def split: sum.splits if_splits
        intro: same_desire_trans [OF _ same_desire_finally])
qed (use assms in \<open>simp add: exchange_begin_def\<close>)

lemma same_desire_exchange: "same_desire s (snd (exchange su w kind body s))"
proof -
  obtain r t where t: "exchange_begin kind body (w_rid w) (w_io w) s = (r, t)" by fastforce
  have "same_desire t (snd (exchange_end rid f u))" if "same_desire t u" for rid f u
    using that by (auto simp: exchange_end_def intro: same_desire_trans [OF _ same_desire_finally])
  with same_desire_begin [OF t] t same_desire_deliver show ?thesis
    by (auto simp: exchange_def split: sum.splits option.splits intro: same_desire_trans)
qed

lemma same_desire_start: "same_desire s (snd (start loop up s))"
  by (auto simp: same_desire_def start_def ensure_event_loop_def wait_until_connected_def mark_connected_def
      attach_connection_def split: option.splits)

lemma same_desire_request: "same_desire s (snd (request su w kind body s))"
proof -
  obtain r t where t: "start (w_loop w) (w_up w) s = (r, t)" by fastforce
  then have "same_desire s t" using same_desire_start [of s "w_loop w" "w_up w"] by simp
  with t show ?thesis
    by (auto simp: request_def split: sum.splits intro: same_desire_trans [OF _ same_desire_exchange])
qed

lemma same_desire_session: "same_desire (fst x) (fst (snd (session_request su kind body x)))"
  using same_desire_request [of "fst x" su "snd x 0" kind body] by (simp add: session_request_def case_prod_beta)

interpretation client_schedules: scheduling_object "client_hooks su" for su
  by unfold_locales
    (use same_desire_session in \<open>auto simp: client_hooks_def retain_declaration_def forget_declaration_def same_desire_def\<close>)

subsection \<open>What a successful request has written\<close>

text \<open>What a message does to the futures: nothing, or it completes one and changes nothing else
  but the table of pending requests.\<close>

definition completes_only :: "client \<Rightarrow> unit res \<times> client \<Rightarrow> bool" where
  "completes_only s r \<longleftrightarrow> futures (snd r) = futures s \<or> (\<exists>p f. r = (Inr (), s\<lparr>pending := p, futures := f\<rparr>))"

lemma handle_futures: "completes_only s (handle_message su m rid io s)"
proof -
  have "futures (snd (accept_execution su m rid io s)) = futures s"
    using same_core_fields(5) [OF execution_failure_core] same_core_fields(5) [OF send_event_core]
    by (auto simp: accept_execution_def start_run_def Let_def split: pyval.splits option.splits)
  then have "completes_only s (accept_execution su m rid io s)" by (simp add: completes_only_def)
  moreover have "completes_only s (cancel_execution m s)"
    by (auto simp: completes_only_def cancel_execution_def cancel_if_async_def cancel_run_def Let_def
        split: pyval.splits option.splits)
  moreover have "completes_only s (send_event kind body c rid io s)" for kind body c
    using same_core_fields(5) [OF send_event_core [of s]] by (simp add: completes_only_def)
  moreover have "completes_only s (r, s)" "completes_only s (r, s\<lparr>event_request_ids := ids\<rparr>)"
    "completes_only s (r, s\<lparr>pending := p\<rparr>)" "completes_only s (Inr (), s\<lparr>pending := p, futures := f\<rparr>)" for r ids p f
    by (auto simp: completes_only_def)
  ultimately show ?thesis
    unfolding handle_message_def Let_def by (simp split: pyval.split option.split)
qed

lemma exit_waiting: "dget (futures s) f = Some Waiting \<Longrightarrow> dget (futures (read_loop_exit w s)) f \<noteq> Some (Done v)"
  by (simp add: read_loop_exit_def fail_pending_def dget_map_values)

lemma deliver_done:
  assumes "dget (futures s) f = Some Waiting" and "dget (futures (deliver su m rid io s)) f = Some (Done v)"
  shows "sent (deliver su m rid io s) = sent s \<and> writer (deliver su m rid io s) = writer s"
proof -
  obtain r t where t: "handle_message su m rid io s = (r, t)" by fastforce
  show ?thesis
  proof (cases "futures t = futures s")
    case True
    then have "dget (futures (deliver su m rid io s)) f \<noteq> Some (Done v)"
      using assms(1) t exit_waiting [of t f] by (auto simp: deliver_def split: sum.split option.split)
    with assms(2) show ?thesis by blast
  next
    case False
    then obtain p g where "r = Inr ()" "t = s\<lparr>pending := p, futures := g\<rparr>"
      using handle_futures [of s su m rid io] t by (auto simp: completes_only_def)
    with t show ?thesis by (simp add: deliver_def)
  qed
qed

lemma exchange_begin_sent:
  assumes "exchange_begin kind body rid io s = (Inr f, t)"
  shows "\<exists>c env. writer s = Some c \<and> make_envelope kind rid body = Inr env \<and> sent t = sent s @ [(c, env)]
     \<and> writer t = writer s \<and> dget (futures t) f = Some Waiting"
proof -
  obtain env where env: "make_envelope kind rid body = Inr env"
    using assms by (cases "make_envelope kind rid body") (simp_all add: exchange_begin_def)
  let ?s = "s\<lparr>futures := dset (futures s) (fresh_future s) Waiting, pending := dset (pending s) rid (fresh_future s)\<rparr>"
  have "send_envelope None io env ?s = (Inr (), t) \<and> f = fresh_future s \<and> writer s \<noteq> None"
    using assms env by (auto simp: exchange_begin_def Let_def split: prod.splits sum.splits if_splits)
  moreover from this have "futures t = futures ?s"
    using same_core_fields(5) [OF send_envelope_core [of ?s None io env]] by simp
  ultimately show ?thesis
    using env by (auto simp: send_envelope_def Let_def split: if_splits sum.splits)
qed

lemma exchange_sent:
  assumes "exchange su w kind body s = (Inr reply, s')"
  shows "\<exists>c env. writer s = Some c \<and> make_envelope kind (w_rid w) body = Inr env \<and> sent s' = sent s @ [(c, env)]
     \<and> writer s' = writer s"
proof -
  obtain f t where t: "exchange_begin kind body (w_rid w) (w_io w) s = (Inr f, t)"
    using assms by (auto simp: exchange_def split: prod.splits sum.splits)
  from exchange_begin_sent [OF t] obtain c env where sent: "writer s = Some c" "make_envelope kind (w_rid w) body = Inr env"
    "sent t = sent s @ [(c, env)]" "writer t = writer s" and waiting: "dget (futures t) f = Some Waiting" by blast
  define u where "u = (case w_reply w of None \<Rightarrow> t | Some m \<Rightarrow> deliver su m (w_rid w) (w_io w) t)"
  have e: "exchange_end (w_rid w) f u = (Inr reply, s')" using assms t by (simp add: exchange_def u_def)
  then have completed: "dget (futures u) f = Some (Done reply)"
    by (auto simp: exchange_end_def split: option.splits fut.splits)
  then obtain m where "u = deliver su m (w_rid w) (w_io w) t" using waiting by (auto simp: u_def split: option.splits)
  with deliver_done [OF waiting] completed have "sent u = sent t" "writer u = writer t" by blast+
  moreover have "sent s' = sent u" "writer s' = writer u"
    using e by (auto simp: exchange_end_def exchange_finally_def drop_future_def)
  ultimately show ?thesis using sent by simp
qed

text \<open>\<open>written c plan out\<close>: the log \<open>out\<close> is the requests of \<open>plan\<close>, in order, each
  once, on connection \<open>c\<close>.\<close>

definition written :: "conn \<Rightarrow> (string \<times> pydict) list \<Rightarrow> (conn \<times> pydict) list \<Rightarrow> bool" where
  "written c plan out \<longleftrightarrow>
     list_all2 (\<lambda>(kind, body) (c', env). c' = c \<and> (\<exists>rid. make_envelope kind rid body = Inr env)) plan out"

lemma written_append: "written c p out \<Longrightarrow> written c q out' \<Longrightarrow> written c (p @ q) (out @ out')"
  by (simp add: written_def list_all2_appendI)

lemma session_exchange_sent:
  assumes "session_exchange su kind body x = (Inr reply, x')"
  shows "\<exists>c out. writer (fst x) = Some c \<and> writer (fst x') = Some c \<and> sent (fst x') = sent (fst x) @ out
     \<and> written c [(kind, body)] out \<and> same_desire (fst x) (fst x')"
proof -
  obtain s' where e: "exchange su (snd x 0) kind body (fst x) = (Inr reply, s')" "fst x' = s'"
    using assms by (auto simp: session_exchange_def split: prod.splits)
  from exchange_sent [OF e(1)] same_desire_exchange [of "fst x" su "snd x 0" kind body] e show ?thesis
    by (auto simp: written_def)
qed

lemma exchange_all_sent:
  assumes "exchange_all su todo x = (Inr (), x')" and "writer (fst x) = Some c"
  shows "\<exists>out. writer (fst x') = Some c \<and> sent (fst x') = sent (fst x) @ out \<and> written c todo out
     \<and> same_desire (fst x) (fst x')"
  using assms
proof (induction todo arbitrary: x)
  case Nil
  then show ?case by (simp add: written_def)
next
  case (Cons p todo)
  obtain kind body where p: "p = (kind, body)" by fastforce
  obtain reply y where y: "session_exchange su kind body x = (Inr reply, y)" "exchange_all su todo y = (Inr (), x')"
    using Cons.prems(1) p by (auto split: prod.splits sum.splits)
  obtain out where out: "writer (fst y) = Some c" "sent (fst y) = sent (fst x) @ out" "written c [(kind, body)] out"
    "same_desire (fst x) (fst y)" using session_exchange_sent [OF y(1)] Cons.prems(2) by auto
  from Cons.IH [OF y(2) out(1)] obtain out' where "writer (fst x') = Some c" "sent (fst x') = sent (fst y) @ out'"
    "written c todo out'" "same_desire (fst y) (fst x')" by blast
  with out p show ?case using written_append [OF out(3)] same_desire_trans by fastforce
qed

subsection \<open>The plan of a bootstrap\<close>

definition bootstrap_plan :: "surface \<Rightarrow> client \<Rightarrow> (string \<times> pydict) list res" where
  "bootstrap_plan su s =
     rbind (bootstrap_declarations su s) (\<lambda>declarations.
     Inr ((''hello'', hello_body s) # map (\<lambda>(_, d). (''schedule'', d)) (sort_key fst declarations)
          @ (if \<not> in_mode s ''client'' \<and> registered_task_names s \<noteq> []
             then [(''register_tasks'', [(skey ''tasks'', PList (map PStr (sort (registered_task_names s))))])] else [])))"

lemma bootstrap_sent:
  assumes "bootstrap su x = (Inr (), x')"
  shows "\<exists>c plan out. writer (fst x) = Some c \<and> bootstrap_plan su (fst x) = Inr plan \<and> sent (fst x') = sent (fst x) @ out
     \<and> written c plan out"
proof -
  obtain reply y where y: "session_exchange su ''hello'' (hello_body (fst x)) x = (Inr reply, y)"
    using assms by (auto simp: bootstrap_def split: prod.splits sum.splits)
  from session_exchange_sent [OF y] obtain c o1 where hello: "writer (fst x) = Some c" "writer (fst y) = Some c"
    "sent (fst y) = sent (fst x) @ o1" "written c [(''hello'', hello_body (fst x))] o1"
    and sd: "same_desire (fst x) (fst y)" by blast
  obtain ds where ds: "bootstrap_declarations su (fst y) = Inr ds"
    using assms y by (auto simp: bootstrap_def split: prod.splits sum.splits)
  let ?todo = "map (\<lambda>(_, d). (''schedule'', d)) (sort_key fst ds)"
  obtain z where z: "exchange_all su ?todo y = (Inr (), z)"
    using assms y ds by (auto simp: bootstrap_def split: prod.splits sum.splits)
  from exchange_all_sent [OF z hello(2)] obtain o2 where o2: "writer (fst z) = Some c" "sent (fst z) = sent (fst y) @ o2"
    "written c ?todo o2" and sd2: "same_desire (fst y) (fst z)" by blast
  note sd3 = same_desire_trans [OF sd sd2]
  let ?last = "if \<not> in_mode (fst x) ''client'' \<and> registered_task_names (fst x) \<noteq> []
    then [(''register_tasks'', [(skey ''tasks'', PList (map PStr (sort (registered_task_names (fst x)))))])] else []"
  have "\<exists>o3. sent (fst x') = sent (fst z) @ o3 \<and> written c ?last o3"
  proof (cases "\<not> in_mode (fst x) ''client'' \<and> registered_task_names (fst x) \<noteq> []")
    case True
    moreover have "in_mode (fst z) ''client'' = in_mode (fst x) ''client''" "registered_task_names (fst z) = registered_task_names (fst x)"
      using sd3 by (simp_all add: same_desire_def in_mode_def)
    ultimately obtain reply' where
      "session_exchange su ''register_tasks'' [(skey ''tasks'', PList (map PStr (sort (registered_task_names (fst x)))))] z
         = (Inr reply', x')"
      using assms y ds z by (auto simp: bootstrap_def split: prod.splits sum.splits)
    from session_exchange_sent [OF this] o2(1) True show ?thesis by auto
  next
    case False
    moreover have "in_mode (fst z) ''client'' = in_mode (fst x) ''client''" "registered_task_names (fst z) = registered_task_names (fst x)"
      using sd3 by (simp_all add: same_desire_def in_mode_def)
    ultimately have "x' = z" using assms y ds z by (simp add: bootstrap_def split: if_splits)
    with False show ?thesis by (simp add: written_def)
  qed
  then obtain o3 where o3: "sent (fst x') = sent (fst z) @ o3" "written c ?last o3" by blast
  have "bootstrap_plan su (fst x) = Inr ([(''hello'', hello_body (fst x))] @ ?todo @ ?last)"
    using ds sd by (simp add: bootstrap_plan_def bootstrap_declarations_def same_desire_def)
  moreover have "written c ([(''hello'', hello_body (fst x))] @ ?todo @ ?last) (o1 @ o2 @ o3)"
    by (intro written_append hello(4) o2(3) o3(2))
  moreover have "sent (fst x') = sent (fst x) @ o1 @ o2 @ o3" using hello(3) o2(2) o3(1) by simp
  ultimately show ?thesis using hello(1) by blast
qed

text \<open>Which declarations are replayed.\<close>

definition static_id :: "surface \<Rightarrow> task \<Rightarrow> pystr \<Rightarrow> bool" where
  "static_id su t i \<longleftrightarrow> (\<exists>d. static_schedule_declaration (sha256_of su) t = Inr (Some d) \<and> get_field d ''declaration_id'' = PStr i)"

lemma add_static_keys:
  assumes "add_static su withdrawn ts ds = Inr ds'"
  shows "set (dkeys ds') = set (dkeys ds) \<union> {i. i \<notin> set withdrawn \<and> (\<exists>t\<in>set ts. static_id su t i)}"
  using assms
proof (induction ts arbitrary: ds)
  case (Cons t ts)
  then obtain d where d: "static_schedule_declaration (sha256_of su) t = Inr d" by (auto simp: rbind_eq_Inr)
  show ?case
  proof (cases d)
    case None
    with Cons d show ?thesis by (simp add: static_id_def)
  next
    case (Some decl)
    then obtain i where i: "get_field decl ''declaration_id'' = PStr i"
      using Cons.prems d by (cases "get_field decl ''declaration_id''") simp_all
    have "static_id su t j \<longleftrightarrow> j = i" for j using d Some i by (auto simp: static_id_def)
    moreover from Cons.prems d Some i
    have "add_static su withdrawn ts (if i \<in> set withdrawn then ds else dset ds i decl) = Inr ds'" by simp
    from Cons.IH [OF this] have "set (dkeys ds') = set (dkeys (if i \<in> set withdrawn then ds else dset ds i decl))
        \<union> {i. i \<notin> set withdrawn \<and> (\<exists>t\<in>set ts. static_id su t i)}" .
    ultimately show ?thesis by auto
  qed
qed simp

lemma add_static_ok: "add_static su withdrawn ts ds = Inr ds' \<Longrightarrow> dict_ok ds \<Longrightarrow> dict_ok ds'"
proof (induction ts arbitrary: ds)
  case (Cons t ts)
  then obtain d where d: "static_schedule_declaration (sha256_of su) t = Inr d" by (auto simp: rbind_eq_Inr)
  with Cons show ?case
    by (cases d; cases "get_field (the d) ''declaration_id''") (auto split: if_splits)
qed simp

lemma request_sent:
  assumes "request su w kind body s = (Inr reply, s')"
  shows "\<exists>c env. make_envelope kind (w_rid w) body = Inr env \<and> sent s' = sent s @ [(c, env)] \<and> writer s' = Some c"
proof -
  obtain t where t: "start (w_loop w) (w_up w) s = (Inr (), t)" and e: "exchange su w kind body t = (Inr reply, s')"
    using assms by (auto simp: request_def split: prod.splits sum.splits)
  have "sent (snd (start (w_loop w) (w_up w) s)) = sent s"
    by (auto simp: start_def ensure_event_loop_def wait_until_connected_def mark_connected_def attach_connection_def
        split: option.splits)
  with t have "sent t = sent s" by simp
  with exchange_sent [OF e] show ?thesis by auto
qed

lemma int_at_leastD: "int_at_least lo v \<Longrightarrow> lo \<le> int_of v"
  by (cases v) (simp_all add: int_at_least_def)

lemma int_in_rangeD: "int_in_range lo hi v \<Longrightarrow> lo \<le> int_of v \<and> int_of v \<le> hi"
  by (cases v) simp_all

lemma identifier_check_text: "identifier_check v = Inr i \<Longrightarrow> text_value 128 (PStr i)"
  by (cases v) (simp_all add: identifier_check_exact split: if_splits)

lemma set_dict_fromkeys: "set (dict_fromkeys ks) = set ks"
proof -
  have "fst ` set (foldl (\<lambda>d k. dset d k ()) d ks) = fst ` set d \<union> set ks" for d
    by (induction ks arbitrary: d) auto
  then show ?thesis by (simp add: dict_fromkeys_def)
qed

lemma session_request_state:
  "fst (snd (session_request su kind body x)) = snd (request su (snd x 0) kind body (fst x))"
  by (simp add: session_request_def case_prod_beta)

text \<open>A client-mode instance that is greeted.\<close>

definition sample_greeting :: exchange_world where
  "sample_greeting = \<lparr>w_rid = str ''r1'', w_io = Inr (),
     w_reply = Some [(skey ''type'', skey ''welcome''), (skey ''request_id'', skey ''r1'')], w_loop = 0, w_up = Some 1\<rparr>"

definition sample_hello :: pydict where
  "sample_hello = [(skey ''version'', PInt 1), (skey ''type'', skey ''hello''), (skey ''request_id'', skey ''r1''),
     (skey ''mode'', skey ''client''), (skey ''runtime_id'', skey ''c''), (skey ''max_concurrency'', PInt 0)]"

definition sample_producer :: client where
  "sample_producer = attach_connection 1 (initial_client (sample_config\<lparr>mode := skey ''client''\<rparr>) 0)"

lemma sample_hello_encodes: "\<exists>f. encode_frame 1024 (PDict sample_hello) = Inr f"
proof -
  have v: "validate_envelope False (PDict sample_hello) = Inr sample_hello" by (simp add: envelope_eval sample_hello_def)
  show ?thesis
    unfolding is_ok_iff [symmetric]
    by (simp add: encode_frame_def v, simp add: sample_hello_def json_bytes_def json_eval pack_u32_def)
qed

lemma exchange_answer:
  assumes "writer s = Some c" and "c \<notin> set (closed_writers s)" and "make_envelope kind (w_rid w) body = Inr env"
    and "encode_frame (max_frame_bytes (cfg s)) (PDict env) = Inr frame" and "w_io w = Inr ()" and "w_reply w = Some m"
    and "get_field m ''request_id'' = PStr (w_rid w)" and "is_reply_kind m" and "\<not> acknowledges m (w_rid w) s"
  shows "fst (exchange su w kind body s) = reply_value su m
     \<and> sent (snd (exchange su w kind body s)) = sent s @ [(c, env)] \<and> writer (snd (exchange su w kind body s)) = Some c"
proof -
  let ?f = "fresh_future s"
  let ?t = "s\<lparr>futures := dset (futures s) ?f Waiting, pending := dset (pending s) (w_rid w) ?f, sent := sent s @ [(c, env)]\<rparr>"
  have t: "exchange_begin kind body (w_rid w) (w_io w) s = (Inr ?f, ?t)"
    using assms(1-5) by (simp add: exchange_begin_def send_envelope_def Let_def)
  have "\<not> acknowledges m (w_rid w) ?t" using assms(9) by (simp add: acknowledges_def)
  from handle_reply [OF assms(8,7) this, of ?f su "w_rid w" "w_io w"] t assms(6) show ?thesis
    by (simp add: exchange_def deliver_def exchange_end_def exchange_finally_def drop_future_def assms(1) split: sum.split)
qed

lemma sample_hello_exchange:
  "\<exists>s. exchange su sample_greeting ''hello'' (hello_body sample_producer) sample_producer
     = (Inr [(skey ''type'', skey ''welcome''), (skey ''request_id'', skey ''r1'')], s)
     \<and> sent s = [(1, sample_hello)] \<and> same_desire sample_producer s"
proof -
  let ?m = "[(skey ''type'', skey ''welcome''), (skey ''request_id'', skey ''r1'')]"
  let ?r = "exchange su sample_greeting ''hello'' (hello_body sample_producer) sample_producer"
  have env: "make_envelope ''hello'' (str ''r1'') (hello_body sample_producer) = Inr sample_hello"
    by (simp add: make_envelope_def hello_body_def normalize_json_exact PROTOCOL_VERSION_def sample_hello_def
        sample_producer_def attach_connection_def initial_client_def sample_config_def in_mode_def)
  obtain f where f: "encode_frame 1024 (PDict sample_hello) = Inr f" using sample_hello_encodes by blast
  have "writer sample_producer = Some 1" "closed_writers sample_producer = []" "max_frame_bytes (cfg sample_producer) = 1024"
    "sent sample_producer = []" "event_request_ids sample_producer = []"
    by (simp_all add: sample_producer_def attach_connection_def initial_client_def sample_config_def)
  with exchange_answer [of sample_producer 1 "''hello''" sample_greeting "hello_body sample_producer" sample_hello f ?m su] env f
  have "fst ?r = Inr ?m" "sent (snd ?r) = [(1, sample_hello)]"
    by (simp_all add: sample_greeting_def is_reply_kind_def acknowledges_def get_field_def reply_value_def)
  with same_desire_exchange show ?thesis by (metis prod.collapse)
qed

lemma sample_bootstrap:
  "\<exists>x. bootstrap su (sample_producer, \<lambda>_. sample_greeting) = (Inr (), x) \<and> sent (fst x) = [(1, sample_hello)]"
proof -
  obtain s where "exchange su sample_greeting ''hello'' (hello_body sample_producer) sample_producer
     = (Inr [(skey ''type'', skey ''welcome''), (skey ''request_id'', skey ''r1'')], s)"
    "sent s = [(1, sample_hello)]" "same_desire sample_producer s" using sample_hello_exchange by blast
  then show ?thesis
    by (simp add: bootstrap_def session_exchange_def bootstrap_declarations_def same_desire_def in_mode_def
        sample_producer_def attach_connection_def initial_client_def)
qed

section \<open>Properties\<close>

text \<open>C38: what a constructed client guarantees of its configuration: every limit in its documented
  range, positive finite timeouts, an initial reconnect delay no longer than the maximal one and
  an identifier that fits the protocol.\<close>

theorem client_init_valid:
  assumes "client_init sur uuid a = Inr c"
  shows "mode c \<in> set MODES \<and> 1 \<le> capacity c \<and> capacity c \<le> 65535 \<and> 256 \<le> max_frame_bytes c
     \<and> 1 \<le> max_result_bytes c \<and> 128 \<le> max_error_bytes c
     \<and> list_all (\<lambda>x. isfinite x \<and> 0 < float_value x)
         [request_timeout c, connect_timeout c, reconnect_initial_delay c, reconnect_max_delay c]
     \<and> float_value (reconnect_initial_delay c) \<le> float_value (reconnect_max_delay c) \<and> text_value 128 (PStr (client_id c))"
proof -
  obtain r k i m path cid where parts: "a_mode a \<in> set MODES" "int_in_range 1 65535 (a_capacity a)"
    "int_at_least 256 (a_max_frame_bytes a)" "int_at_least 1 (a_max_result_bytes a)" "int_at_least 128 (a_max_error_bytes a)"
    "positive_finite (a_request_timeout a) = Inr r" "positive_finite (a_connect_timeout a) = Inr k"
    "positive_finite (a_reconnect_initial_delay a) = Inr i" "positive_finite (a_reconnect_max_delay a) = Inr m"
    "\<not> num_less (PFloat m) (PFloat i)"
    "identifier_check (if a_client_id a = PNone then PStr (str ''python-'' @ uuid) else a_client_id a) = Inr cid"
    and c: "c = \<lparr>mode = a_mode a, socket_path = path, capacity = int_of (a_capacity a), client_id = cid,
          max_frame_bytes = int_of (a_max_frame_bytes a), max_result_bytes = int_of (a_max_result_bytes a),
          max_error_bytes = int_of (a_max_error_bytes a), request_timeout = r, connect_timeout = k,
          reconnect_initial_delay = i, reconnect_max_delay = m, include_traceback = truthy (a_include_traceback a)\<rparr>"
    using assms by (auto simp: client_init_def rbind_eq_Inr)
  have positive: "isfinite x \<and> 0 < float_value x" if "positive_finite v = Inr x" for v x
    using positive_finite_cases [of v] that by auto
  have "float_value i \<le> float_value m"
    using parts(10) positive [OF parts(8)] positive [OF parts(9)] by (cases i; cases m) (auto simp: num_less_def)
  moreover have "text_value 128 (PStr cid)"
    using parts(11) by (rule identifier_check_text)
  moreover have "1 \<le> capacity c \<and> capacity c \<le> 65535" "256 \<le> max_frame_bytes c" "1 \<le> max_result_bytes c" "128 \<le> max_error_bytes c"
    using int_in_rangeD [OF parts(2)] parts(3-5) [THEN int_at_leastD] c by simp_all
  ultimately show ?thesis using parts(1,6-9) positive c by simp
qed

theorem client_init_valid_witness:
  "\<exists>c. client_init \<lparr>environ = [], uid = PInt 0, cwd = str ''/'', usable = \<lambda>_. False, exists = \<lambda>_. True,
       fspath_object = \<lambda>_. Inl TypeError\<rparr> (str ''0'')
     \<lparr>a_mode = skey ''embedded'', a_socket_path = PNone, a_capacity = PInt 1, a_client_id = PNone, a_max_frame_bytes = PInt 256,
      a_max_result_bytes = PInt 1, a_max_error_bytes = PInt 128, a_request_timeout = PFloat (Flt 30),
      a_connect_timeout = PFloat (Flt 5), a_reconnect_initial_delay = PFloat (Flt 1), a_reconnect_max_delay = PFloat (Flt 2),
      a_include_traceback = PBool True\<rparr> = Inr c \<and> capacity c \<le> 65535" (is "\<exists>c. client_init ?s ?u ?a = Inr c \<and> _")
proof -
  have "identifier_check (PStr (str ''python-'' @ str ''0'')) = Inr (str ''python-'' @ str ''0'')"
    by (simp add: identifier_check_exact text_within_def text_eval)
  moreover have "resolve_socket_path ?s PNone = Inr (str ''/run/tay/tay.sock'')"
    by (simp add: resolve_socket_path_def discover_socket_path_def getenv_def)
  ultimately have "is_ok (client_init ?s ?u ?a)"
    by (simp add: client_init_def MODES_def int_at_least_def positive_finite_def num_le_def num_less_def)
  then obtain c where "client_init ?s ?u ?a = Inr c" by (auto simp: is_ok_iff)
  with client_init_valid show ?thesis by blast
qed

text \<open>C13: a bootstrap implements its plan. When it succeeds, exactly these requests have been written,
  in this order, each once, on the connection being set up: the greeting, the replayed schedule
  declarations in ascending order of their ids, and last, outside client mode, the names of the
  registered tasks.\<close>

theorem bootstrap_implements_plan:
  assumes "bootstrap su x = (Inr (), x')"
  shows "\<exists>c plan out. writer (fst x) = Some c \<and> bootstrap_plan su (fst x) = Inr plan \<and> sent (fst x') = sent (fst x) @ out
     \<and> written c plan out"
  using assms by (rule bootstrap_sent)

theorem bootstrap_implements_plan_witness:
  "\<exists>x. bootstrap sample_surface (sample_producer, \<lambda>_. sample_greeting) = (Inr (), x)
     \<and> (\<exists>plan. bootstrap_plan sample_surface sample_producer = Inr plan \<and> written 1 plan [(1, sample_hello)])"
proof -
  obtain x where x: "bootstrap sample_surface (sample_producer, \<lambda>_. sample_greeting) = (Inr (), x)"
    "sent (fst x) = [(1, sample_hello)]" using sample_bootstrap by blast
  have "sent sample_producer = []" "writer sample_producer = Some 1"
    by (simp_all add: sample_producer_def attach_connection_def initial_client_def)
  with bootstrap_implements_plan [OF x(1)] x show ?thesis by auto
qed

text \<open>Which declarations a bootstrap replays: those the client retains and the static ones of its
  tasks that have not been withdrawn, each id once, in strictly ascending order.\<close>

theorem bootstrap_replays_exactly:
  assumes "bootstrap_declarations su s = Inr ds" and "dict_ok (schedule_declarations s)"
  shows "set (dkeys ds) = set (dkeys (schedule_declarations s))
       \<union> {i. i \<notin> set (withdrawn_schedules s) \<and> (\<exists>t\<in>set (map snd (tasks s)). static_id su t i)}
     \<and> sorted_wrt (<) (dkeys (sort_key fst ds))"
proof -
  note add = assms(1) [unfolded bootstrap_declarations_def]
  have "distinct (dkeys ds)" using add_static_ok [OF add assms(2)] by (simp add: dict_ok_def)
  moreover have "mset (dkeys (sort_key fst ds)) = mset (dkeys ds)" by simp
  ultimately have "distinct (dkeys (sort_key fst ds))" by (metis mset_eq_imp_distinct_iff)
  then have "sorted_wrt (<) (dkeys (sort_key fst ds))" by (simp add: strict_sorted_iff)
  with add_static_keys [OF add] show ?thesis by simp
qed

theorem bootstrap_replays_exactly_witness:
  "\<exists>ds. bootstrap_declarations sample_surface (sample_producer\<lparr>schedule_declarations := [(str ''b'', []), (str ''a'', [])]\<rparr>)
     = Inr ds \<and> sorted_wrt (<) (dkeys (sort_key fst ds))"
proof -
  let ?s = "sample_producer\<lparr>schedule_declarations := [(str ''b'', []), (str ''a'', [])]\<rparr>"
  have "\<exists>ds. bootstrap_declarations sample_surface ?s = Inr ds"
    by (simp add: bootstrap_declarations_def sample_producer_def attach_connection_def initial_client_def)
  moreover have "dict_ok (schedule_declarations ?s)" by (simp add: dict_ok_def)
  ultimately show ?thesis using bootstrap_replays_exactly by blast
qed

text \<open>C11: cancelling a schedule sticks. Whatever the outcome of the request, the id is withdrawn and no
  later bootstrap of this client replays a declaration of it, retained or static.\<close>

theorem cancelled_schedule_not_replayed:
  assumes "text_value 128 (PStr i)" and "cancel_schedule (client_hooks su) (PStr i) x = (r, x')"
    and "dict_ok (schedule_declarations (fst x))" and "bootstrap_declarations su (fst x') = Inr ds"
  shows "i \<in> set (withdrawn_schedules (fst x')) \<and> i \<notin> set (dkeys ds)"
proof -
  have w: "i \<in> set (withdrawn_schedules (fst x'))"
    using client_schedules.cancelled_is_withdrawn [OF assms(2,1)] by (auto simp: client_hooks_def)
  let ?y = "(fst x)\<lparr>schedule_declarations := dpop (schedule_declarations (fst x)) i,
    withdrawn_schedules := List.insert i (withdrawn_schedules (fst x))\<rparr>"
  have "x' = snd (session_request su ''cancel_schedule'' [(skey ''schedule_id'', PStr i)] (?y, snd x))"
    using assms(1,2) by (auto simp: cancel_schedule_def identifier_check_exact client_hooks_def forget_declaration_def Let_def
        simp del: text_value.simps)
  then have "same_desire ?y (fst x')" using same_desire_session [of "(?y, snd x)"] by simp
  then have "schedule_declarations (fst x') = dpop (schedule_declarations (fst x)) i" by (simp add: same_desire_def)
  with w add_static_keys [OF assms(4) [unfolded bootstrap_declarations_def]] set_dkeys_dpop [of "schedule_declarations (fst x)" i]
  show ?thesis by (simp del: set_map)
qed

theorem cancelled_schedule_not_replayed_witness:
  "\<exists>r x'. cancel_schedule (client_hooks sample_surface) (skey ''a'')
       (sample_producer\<lparr>schedule_declarations := [(str ''b'', []), (str ''a'', [])]\<rparr>, \<lambda>_. sample_greeting) = (r, x')
     \<and> (\<exists>ds. bootstrap_declarations sample_surface (fst x') = Inr ds \<and> str ''a'' \<notin> set (dkeys ds))"
proof -
  let ?s = "sample_producer\<lparr>schedule_declarations := [(str ''b'', []), (str ''a'', [])]\<rparr>"
  obtain r x' where x': "cancel_schedule (client_hooks sample_surface) (skey ''a'') (?s, \<lambda>_. sample_greeting) = (r, x')"
    by (rule prod.exhaust)
  have a: "text_value 128 (skey ''a'')" by (simp add: text_within_def text_eval)
  have "tasks (fst x') = []"
    using x' a same_desire_session [of "(?s\<lparr>schedule_declarations := [(str ''b'', [])], withdrawn_schedules := [str ''a'']\<rparr>,
        \<lambda>_. sample_greeting)" sample_surface "''cancel_schedule''" "[(skey ''schedule_id'', skey ''a'')]"]
    by (simp add: cancel_schedule_def identifier_check_exact client_hooks_def forget_declaration_def dpop_def same_desire_def
        sample_producer_def attach_connection_def initial_client_def Let_def del: text_value.simps)
  then obtain ds where "bootstrap_declarations sample_surface (fst x') = Inr ds" by (simp add: bootstrap_declarations_def)
  moreover have "dict_ok (schedule_declarations (fst (?s, \<lambda>_ :: nat. sample_greeting)))" by (simp add: dict_ok_def)
  ultimately show ?thesis using cancelled_schedule_not_replayed [OF a x'] x' by blast
qed

text \<open>Withdrawing tasks sticks too: after \<^verbatim>\<open>unregister_tasks\<close>, whether its request succeeded,
  failed or was lost, none of the names is advertised by a later bootstrap; the other names and
  the local wrappers are kept.\<close>

theorem unregister_sticks:
  assumes "\<not> in_mode s ''client''" and "rmap (registered_task_name s) refs = Inr names"
  shows "let s' = snd (unregister_tasks su w refs s) in
     set (registered_task_names s') = set (registered_task_names s) - set names \<and> tasks s' = tasks s"
proof (cases "refs = []")
  case True
  with assms show ?thesis by (simp add: unregister_tasks_def Let_def)
next
  case False
  let ?s = "s\<lparr>registered_task_names := filter (\<lambda>n. n \<notin> set (dict_fromkeys names)) (registered_task_names s)\<rparr>"
  have "snd (unregister_tasks su w refs s)
      = snd (request su w ''unregister_tasks'' [(skey ''tasks'', PList (map PStr (dict_fromkeys names)))] ?s)"
    using assms False by (simp add: unregister_tasks_def Let_def split: prod.split sum.split)
  moreover have "set (registered_task_names ?s) = set (registered_task_names s) - set names"
    by (auto simp: set_dict_fromkeys)
  ultimately show ?thesis
    using same_desire_request [of ?s su w "''unregister_tasks''" "[(skey ''tasks'', PList (map PStr (dict_fromkeys names)))]"]
    unfolding Let_def by (simp add: same_desire_def)
qed

theorem unregister_sticks_witness:
  "registered_task_names sample_client = [str ''m.f'']
   \<and> registered_task_names (snd (unregister_tasks sample_surface sample_greeting [Declared 0 (str ''m.f'')] sample_client)) = []"
proof -
  have n: "registered_task_names sample_client = [str ''m.f'']" "self_id sample_client = 0"
    unfolding sample_client_def sample_declare by (simp_all add: attach_connection_def initial_client_def)
  moreover have "rmap (registered_task_name sample_client) [Declared 0 (str ''m.f'')] = Inr [str ''m.f'']"
    by (simp add: registered_task_name_def task_name_def n sample_client_fields)
  moreover have "\<not> in_mode sample_client ''client''" by (simp add: in_mode_def sample_client_fields sample_config_def)
  ultimately show ?thesis
    using unregister_sticks [of sample_client "[Declared 0 (str ''m.f'')]" "[str ''m.f'']" sample_surface sample_greeting]
    unfolding Let_def by simp
qed


definition sample_submission :: pydict where
  "sample_submission = [(skey ''version'', PInt 1), (skey ''type'', skey ''enqueue''), (skey ''request_id'', skey ''r1''),
     (skey ''task'', skey ''send''), (skey ''args'', PDict []), (skey ''options'', PDict [])]"

definition sample_submitted :: exchange_world where
  "sample_submitted = sample_greeting\<lparr>w_reply := Some [(skey ''type'', skey ''job''), (skey ''request_id'', skey ''r1''),
     (skey ''job_id'', skey ''j'')]\<rparr>"

lemma sample_submission_encodes: "\<exists>f. encode_frame 1024 (PDict sample_submission) = Inr f"
proof -
  have v: "validate_envelope False (PDict sample_submission) = Inr sample_submission"
    by (simp add: envelope_eval sample_submission_def)
  show ?thesis
    unfolding is_ok_iff [symmetric]
    by (simp add: encode_frame_def v, simp add: sample_submission_def json_bytes_def json_eval pack_u32_def)
qed

lemma sample_request:
  "\<exists>s. request su sample_submitted ''enqueue'' [(skey ''task'', skey ''send''), (skey ''args'', PDict []), (skey ''options'', PDict [])]
     sample_producer = (Inr [(skey ''type'', skey ''job''), (skey ''request_id'', skey ''r1''), (skey ''job_id'', skey ''j'')], s)"
proof -
  let ?body = "[(skey ''task'', skey ''send''), (skey ''args'', PDict []), (skey ''options'', PDict [])]"
  let ?m = "[(skey ''type'', skey ''job''), (skey ''request_id'', skey ''r1''), (skey ''job_id'', skey ''j'')]"
  define s where "s = snd (start 0 (Some 1) sample_producer)"
  have s: "start 0 (Some 1) sample_producer = (Inr (), s)" "writer s = Some 1" "closed_writers s = []"
    "max_frame_bytes (cfg s) = 1024" "event_request_ids s = []"
    by (simp_all add: s_def start_def ensure_event_loop_def wait_until_connected_def is_connected_def mark_connected_def
        sample_producer_def attach_connection_def initial_client_def sample_config_def)
  have env: "make_envelope ''enqueue'' (str ''r1'') ?body = Inr sample_submission"
    by (simp add: make_envelope_def normalize_json_exact PROTOCOL_VERSION_def sample_submission_def)
  obtain f where f: "encode_frame 1024 (PDict sample_submission) = Inr f" using sample_submission_encodes by blast
  have "fst (exchange su sample_submitted ''enqueue'' ?body s) = Inr ?m"
    using exchange_answer [of s 1 "''enqueue''" sample_submitted ?body sample_submission f ?m su] s env f
    by (simp add: sample_submitted_def sample_greeting_def is_reply_kind_def acknowledges_def get_field_def reply_value_def)
  with s(1) show ?thesis
    by (simp add: request_def sample_submitted_def sample_greeting_def) (metis prod.collapse)
qed


end
