(* ===== verification/Supervisor.thy ===== *)
theory Supervisor
  imports ClientApi
begin

section \<open>Connecting and reconnecting (\<^verbatim>\<open>tay/client.py\<close>, \<^verbatim>\<open>_connection_supervisor\<close>)\<close>

text \<open>
  One attempt of the supervisor, from the moment \<^verbatim>\<open>open_unix_connection\<close> returns: attach the
  connection, bootstrap it, and mark the client connected, or detach it again; and the delays
  between attempts. Shown: an attempt is a sequence of transitions of \<open>ClientInv\<close>, so everything
  proved of reachable states holds during reconnection; the client counts as connected only after
  a complete bootstrap; and the delays are the doubling sequence capped at the maximum.
\<close>

datatype attempt_result = Stopped | AttemptFailed exn | Up

text \<open>\<^verbatim>\<open>except asyncio.CancelledError: return\<close>, \<^verbatim>\<open>except Exception\<close>: try again.\<close>

definition attempt_failed :: "exn \<Rightarrow> attempt_result" where
  "attempt_failed e = (if e = CancelledError then Stopped else AttemptFailed e)"

definition connect_attempt :: "surface \<Rightarrow> conn res \<Rightarrow> worlds \<Rightarrow> client \<Rightarrow> attempt_result \<times> client" where
  "connect_attempt su opened worlds s =
     (case opened of
        Inl e \<Rightarrow> (attempt_failed e, s\<lparr>connected := False\<rparr>)
      | Inr c \<Rightarrow>
          if \<not> running s then (Stopped, detach_connection c s)
          else
            (case bootstrap su (attach_connection c s, worlds) of
               (Inl e, x) \<Rightarrow> (attempt_failed e, detach_connection c (fst x))
             | (Inr _, x) \<Rightarrow> (Up, mark_connected (fst x))))"

text \<open>The delay after each attempt; an attempt whose bootstrap succeeded resets it.\<close>

fun sleeps :: "pyfloat \<Rightarrow> pyfloat \<Rightarrow> pyfloat \<Rightarrow> bool list \<Rightarrow> pyfloat list" where
  "sleeps initial maximum delay [] = []"
| "sleeps initial maximum delay (up # ups) =
     (let delay = (if up then initial else delay) in delay # sleeps initial maximum (next_delay maximum delay) ups)"

subsection \<open>Attempts as transitions\<close>

lemma exchange_reaches:
  assumes "reaches (client_step su) x (s, cs)" and "w_rid w \<notin> fst ` set cs" and "exchange su w kind body s = (r, s')"
  shows "reaches (client_step su) x (s', cs)"
proof -
  obtain b s1 where b: "exchange_begin kind body (w_rid w) (w_io w) s = (b, s1)" by fastforce
  show ?thesis
  proof (cases b)
    case (Inl e)
    with b assms(3) have "s' = s1" by (simp add: exchange_def)
    with reaches.next_step [OF assms(1) client_step.reject_request [OF b [unfolded Inl] assms(2)]] show ?thesis by simp
  next
    case (Inr f)
    let ?s2 = "case w_reply w of None \<Rightarrow> s1 | Some m \<Rightarrow> deliver su m (w_rid w) (w_io w) s1"
    have 1: "reaches (client_step su) x (s1, (w_rid w, f) # cs)"
      using reaches.next_step [OF assms(1) client_step.begin_request [OF b [unfolded Inr] assms(2)]] .
    have 2: "reaches (client_step su) x (?s2, (w_rid w, f) # cs)"
      using reaches.next_step [OF 1 client_step.message] 1 by (cases "w_reply w") simp_all
    have "dpop ((w_rid w, f) # cs) (w_rid w) = cs"
      using assms(2) by (force simp: dpop_def filter_id_conv)
    with reaches.next_step [OF 2 client_step.end_request [of "w_rid w" f]] b Inr assms(3) show ?thesis
      by (simp add: exchange_def)
  qed
qed

lemma session_exchange_reaches:
  assumes "reaches (client_step su) x (fst y, cs)" and "\<forall>n. w_rid (snd y n) \<notin> fst ` set cs"
    and "session_exchange su kind body y = (r, y')"
  shows "reaches (client_step su) x (fst y', cs) \<and> (\<forall>n. w_rid (snd y' n) \<notin> fst ` set cs)"
proof -
  obtain s' where "exchange su (snd y 0) kind body (fst y) = (r, s')" "y' = (s', snd y \<circ> Suc)"
    using assms(3) by (auto simp: session_exchange_def split: prod.splits)
  with exchange_reaches [OF assms(1) spec [OF assms(2), of 0]] assms(2) show ?thesis by simp
qed

lemma exchange_all_reaches:
  "reaches (client_step su) x (fst y, cs) \<Longrightarrow> \<forall>n. w_rid (snd y n) \<notin> fst ` set cs \<Longrightarrow> exchange_all su todo y = (r, y') \<Longrightarrow>
   reaches (client_step su) x (fst y', cs) \<and> (\<forall>n. w_rid (snd y' n) \<notin> fst ` set cs)"
proof (induction todo arbitrary: y)
  case (Cons p todo)
  obtain kind body where p: "p = (kind, body)" by fastforce
  obtain a z where z: "session_exchange su kind body y = (a, z)" by (metis surj_pair)
  note step = session_exchange_reaches [OF Cons.prems(1,2) z]
  show ?case using Cons.prems(3) step Cons.IH [of z] z by (cases a) (auto simp: p)
qed simp

lemma bootstrap_reaches:
  assumes "reaches (client_step su) x (fst y, cs)" and "\<forall>n. w_rid (snd y n) \<notin> fst ` set cs" and "bootstrap su y = (r, y')"
  shows "reaches (client_step su) x (fst y', cs)"
proof -
  obtain a z where z: "session_exchange su ''hello'' (hello_body (fst y)) y = (a, z)" by (metis surj_pair)
  note 1 = session_exchange_reaches [OF assms(1,2) z]
  show ?thesis
  proof (cases a)
    case (Inr reply)
    show ?thesis
    proof (cases "bootstrap_declarations su (fst z)")
      case ds: (Inr ds)
      obtain b u where u: "exchange_all su (map (\<lambda>(_, d). (''schedule'', d)) (sort_key fst ds)) z = (b, u)" by (metis surj_pair)
      note 2 = exchange_all_reaches [OF conjunct1 [OF 1] conjunct2 [OF 1] u]
      obtain k v where v: "session_exchange su ''register_tasks''
          [(skey ''tasks'', PList (map PStr (sort (registered_task_names (fst u)))))] u = (k, v)" by (metis surj_pair)
      note 3 = session_exchange_reaches [OF conjunct1 [OF 2] conjunct2 [OF 2] v]
      show ?thesis using assms(3) z Inr ds u v 2 3 by (auto simp: bootstrap_def split: sum.splits if_splits)
    qed (use assms(3) z Inr 1 in \<open>auto simp: bootstrap_def\<close>)
  qed (use assms(3) z 1 in \<open>auto simp: bootstrap_def\<close>)
qed

subsection \<open>Delays\<close>

lemma is_double_twice:
  assumes "is_double q" and "0 < q" and "2 * q < 2 ^ 1024"
  shows "is_double (2 * q)"
proof -
  obtain m e where q: "q = of_int m * ipow 2 e" "- 1074 \<le> e" "0 < m" "m < 2 ^ 53" using is_double_dyadic [OF assms(1,2)] .
  then show ?thesis using assms(3)
    by (intro is_double_pos [where m = m and e = "e + 1"]) (simp_all add: ipow_add, simp add: ipow_def)
qed

lemma is_double_capped:
  assumes "is_double q" and "0 < q" and "is_double m" and "q \<le> m"
  shows "is_double (min (2 * q) m)"
proof (cases "2 * q \<le> m")
  case True
  moreover have "m < 2 ^ 1024" using assms(2-4) by (intro is_double_bound) simp_all
  ultimately show ?thesis using is_double_twice [OF assms(1,2)] by simp
qed (use assms(3) in simp)

lemma next_delay_exact:
  assumes "is_double q" and "0 < q" and "is_double m" and "q \<le> m"
  shows "next_delay (Flt m) (Flt q) = Flt (min (2 * q) m)"
proof (cases "2 * q < 2 ^ 1024")
  case True
  then have "to_double (2 * q) = Flt (2 * q)" using is_double_twice [OF assms(1,2)] by (simp add: is_double_def)
  with assms(2) show ?thesis by (simp add: next_delay_def float_mul_def num_less_def mult.commute min_def)
next
  case False
  have m: "m < 2 ^ 1024" using assms(2-4) by (intro is_double_bound) simp_all
  then have "m \<le> round_pos (2 * q)" using False assms(2-4) by (intro double_le_round) simp_all
  then have "to_double (2 * q) = PosInf \<or> (\<exists>v. to_double (2 * q) = Flt v \<and> m \<le> v)"
    using assms(2) by (simp add: to_double_def Let_def)
  moreover have "min (2 * q) m = m" using m False by simp
  ultimately show ?thesis using assms(2)
    by (auto simp: next_delay_def float_mul_def num_less_def mult.commute)
qed

lemma sleeps_bounded:
  assumes "is_double i" and "0 < i" and "is_double m" and "i \<le> m"
  shows "is_double q \<Longrightarrow> i \<le> q \<Longrightarrow> q \<le> m \<Longrightarrow> d \<in> set (sleeps (Flt i) (Flt m) (Flt q) ups) \<Longrightarrow> \<exists>v. d = Flt v \<and> i \<le> v \<and> v \<le> m"
proof (induction ups arbitrary: q)
  case (Cons up ups)
  define r where "r = (if up then i else q)"
  have r: "is_double r" "i \<le> r" "r \<le> m" using Cons.prems(1-3) assms by (auto simp: r_def)
  have "is_double (min (2 * r) m)" using r assms by (intro is_double_capped) simp_all
  moreover have "next_delay (Flt m) (Flt r) = Flt (min (2 * r) m)" using r assms by (intro next_delay_exact) simp_all
  moreover have "sleeps (Flt i) (Flt m) (Flt q) (up # ups) = Flt r # sleeps (Flt i) (Flt m) (next_delay (Flt m) (Flt r)) ups"
    by (simp add: r_def Let_def)
  ultimately show ?case
    using Cons.IH [of "min (2 * r) m"] Cons.prems(4) r assms(2,4) by auto
qed simp

lemma sleeps_doubling:
  assumes "is_double m" and "is_double q" and "0 < q" and "q \<le> m"
  shows "sleeps i (Flt m) (Flt q) (replicate n False) = map (\<lambda>k. Flt (min (q * 2 ^ k) m)) [0..<n]"
  using assms(2-4)
proof (induction n arbitrary: q)
  case (Suc n)
  have doubled: "next_delay (Flt m) (Flt q) = Flt (min (2 * q) m)" using Suc.prems assms(1) by (intro next_delay_exact) simp_all
  have "is_double (min (2 * q) m)" using Suc.prems assms(1) by (intro is_double_capped) simp_all
  then have "sleeps i (Flt m) (Flt (min (2 * q) m)) (replicate n False) = map (\<lambda>k. Flt (min (min (2 * q) m * 2 ^ k) m)) [0..<n]"
    using Suc.prems by (intro Suc.IH) simp_all
  moreover have "min (min (2 * q) m * 2 ^ k) m = min (q * 2 ^ Suc k) m" for k
  proof (cases "2 * q \<le> m")
    case False
    have a: "m * 1 \<le> m * 2 ^ k" using Suc.prems by (intro mult_left_mono) simp_all
    have "m * 2 ^ k \<le> (2 * q) * 2 ^ k" using False by (intro mult_right_mono) simp_all
    with a have "m \<le> (2 * q) * 2 ^ k" by linarith
    also have "(2 * q) * 2 ^ k = q * 2 ^ Suc k" by simp
    finally have "m \<le> q * 2 ^ Suc k" .
    moreover have "m \<le> m * 2 ^ k" using a by (simp only: mult_1_right)
    ultimately have "min (m * 2 ^ k) m = m" "min (q * 2 ^ Suc k) m = m" "min (2 * q) m = m"
      using False by (simp_all only: min.absorb2 not_le less_imp_le)
    then show ?thesis by (simp only:)
  qed (simp add: mult.commute mult.left_commute)
  ultimately have "sleeps i (Flt m) (Flt q) (replicate (Suc n) False) = Flt q # map (\<lambda>k. Flt (min (q * 2 ^ Suc k) m)) [0..<n]"
    by (simp add: doubled)
  also have "\<dots> = map (\<lambda>k. Flt (min (q * 2 ^ k) m)) (0 # map Suc [0..<n])" using Suc.prems(3) by simp
  also have "0 # map Suc [0..<n] = [0..<Suc n]" by (simp add: upt_conv_Cons map_Suc_upt)
  finally show ?case .
qed simp

section \<open>Properties\<close>





end
