(* ===== verification/Url.thy ===== *)
theory Url
  imports Json
begin

section \<open>URLs and IP addresses\<close>

text \<open>
  What \<^verbatim>\<open>tay/http.py\<close> uses of \<^verbatim>\<open>urllib.parse.urlsplit\<close> and of
  \<^verbatim>\<open>ipaddress.ip_address\<close>, as in the library of Python 3.11: the split of a URL with its user
  information, host name and port, the strict parsers of IPv4 and IPv6 addresses, and which
  addresses are loopback. Two facts about Unicode that no part of the development depends on are
  parameters: NFKC normalisation and the lower case of text outside ASCII. Shown: which texts are
  loopback IPv4 addresses.
\<close>

subsection \<open>Addresses\<close>

datatype ip = IPv4 nat | IPv6 nat

definition parse_octet :: "pystr \<Rightarrow> nat option" where
  "parse_octet s =
     (if s = [] \<or> \<not> list_all is_digit s \<or> 3 < length s \<or> (s \<noteq> str ''0'' \<and> hd s = 48) \<or> 255 < dec_value (digit_values s)
      then None else Some (dec_value (digit_values s)))"

fun all_some :: "'a option list \<Rightarrow> 'a list option" where
  "all_some [] = Some []"
| "all_some (x # xs) = (case x of None \<Rightarrow> None | Some y \<Rightarrow> map_option ((#) y) (all_some xs))"

text \<open>Number texts in a base, most significant digit first.\<close>

definition in_base :: "nat \<Rightarrow> nat list \<Rightarrow> nat" where
  "in_base b ds = foldl (\<lambda>n d. n * b + d) 0 ds"

definition ipv4_of :: "pystr \<Rightarrow> nat option" where
  "ipv4_of s =
     (let octets = split_on 46 s in
      if 47 \<in> set s \<or> s = [] \<or> length octets \<noteq> 4 then None
      else map_option (in_base 256) (all_some (map parse_octet octets)))"

definition parse_hextet :: "pystr \<Rightarrow> nat option" where
  "parse_hextet s =
     (if s = [] \<or> 4 < length s then None else map_option (in_base 16) (all_some (map hex_value s)))"

fun hex_text :: "nat \<Rightarrow> pystr" where
  "hex_text n = (if n < 16 then [hex_digit n] else hex_text (n div 16) @ [hex_digit (n mod 16)])"

declare hex_text.simps [simp del]

text \<open>The parts of an IPv6 address; an IPv4 suffix becomes two of them.\<close>

definition ipv6_parts :: "pystr \<Rightarrow> pystr list option" where
  "ipv6_parts s =
     (let parts = split_on 58 s in
      if s = [] \<or> length parts < 3 then None
      else if 46 \<in> set (last parts) then
        map_option (\<lambda>n. butlast parts @ [hex_text (n div 65536 mod 65536), hex_text (n mod 65536)]) (ipv4_of (last parts))
      else Some parts)"

text \<open>How many parts stand before and after the \<^verbatim>\<open>::\<close>.\<close>

definition ipv6_layout :: "pystr list \<Rightarrow> (nat \<times> nat) option" where
  "ipv6_layout parts =
     (case filter (\<lambda>i. parts ! i = []) [1..<length parts - 1] of
        [] \<Rightarrow>
          if length parts \<noteq> 8 \<or> hd parts = [] \<or> last parts = [] then None else Some (length parts, 0)
      | [skip] \<Rightarrow>
          let hi = (if hd parts = [] then skip - 1 else skip);
              lo = (if last parts = [] then length parts - skip - 2 else length parts - skip - 1) in
          if (hd parts = [] \<and> hi \<noteq> 0) \<or> (last parts = [] \<and> lo \<noteq> 0) \<or> 8 \<le> hi + lo then None else Some (hi, lo)
      | _ \<Rightarrow> None)"

definition ipv6_int :: "pystr \<Rightarrow> nat option" where
  "ipv6_int s =
     (case ipv6_parts s of
        None \<Rightarrow> None
      | Some parts \<Rightarrow>
          if 9 < length parts then None
          else
            (case ipv6_layout parts of
               None \<Rightarrow> None
             | Some (hi, lo) \<Rightarrow>
                 (case (all_some (map parse_hextet (take hi parts)), all_some (map parse_hextet (drop (length parts - lo) parts))) of
                    (Some front, Some behind) \<Rightarrow> Some (in_base 65536 (front @ replicate (8 - (hi + lo)) 0 @ behind))
                  | _ \<Rightarrow> None)))"

definition ipv6_of :: "pystr \<Rightarrow> nat option" where
  "ipv6_of s =
     (if 47 \<in> set s then None
      else
        (case partition_at 37 s of (addr, scoped, scope_id) \<Rightarrow>
           if scoped \<and> (scope_id = [] \<or> 37 \<in> set scope_id) then None else ipv6_int addr))"

definition ip_address :: "pystr \<Rightarrow> ip option" where
  "ip_address s =
     (case ipv4_of s of Some n \<Rightarrow> Some (IPv4 n) | None \<Rightarrow> map_option IPv6 (ipv6_of s))"

definition is_loopback :: "ip \<Rightarrow> bool" where
  "is_loopback a = (case a of IPv4 n \<Rightarrow> n div 2 ^ 24 = 127 | IPv6 n \<Rightarrow> n = 1)"

subsection \<open>URLs\<close>

record split_url =
  u_scheme :: pystr
  u_hostname :: "pystr option"
  u_path :: pystr
  u_query :: pystr
  u_fragment :: pystr
  u_username :: "pystr option"
  u_password :: "pystr option"
  u_port :: "int option res"

record unicode =
  nfkc :: "pystr \<Rightarrow> pystr"
  unicode_lower :: "pystr \<Rightarrow> pystr"

definition is_ascii :: "pystr \<Rightarrow> bool" where
  "is_ascii s = list_all (\<lambda>c. c < 128) s"

definition ascii_lower :: "codepoint \<Rightarrow> codepoint" where
  "ascii_lower c = (if 65 \<le> c \<and> c \<le> 90 then c + 32 else c)"

definition is_alpha :: "codepoint \<Rightarrow> bool" where
  "is_alpha c = ((65 \<le> c \<and> c \<le> 90) \<or> (97 \<le> c \<and> c \<le> 122))"

definition scheme_char :: "codepoint \<Rightarrow> bool" where
  "scheme_char c = (is_alpha c \<or> is_digit c \<or> c \<in> {43, 45, 46})"

text \<open>Leading controls and spaces go, and tabs and line breaks everywhere.\<close>

definition clean_url :: "pystr \<Rightarrow> pystr" where
  "clean_url url = filter (\<lambda>c. c \<notin> {9, 10, 13}) (dropWhile (\<lambda>c. c \<le> 32) url)"

definition split_scheme :: "pystr \<Rightarrow> pystr \<times> pystr" where
  "split_scheme url =
     (case partition_at 58 url of (scheme, found, behind) \<Rightarrow>
        if found \<and> scheme \<noteq> [] \<and> is_alpha (hd scheme) \<and> list_all scheme_char scheme
        then (map ascii_lower scheme, behind) else ([], url))"

definition split_netloc :: "pystr \<Rightarrow> pystr \<times> pystr" where
  "split_netloc url =
     (if take 2 url = [47, 47]
      then (takeWhile (\<lambda>c. c \<notin> {47, 63, 35}) (drop 2 url), dropWhile (\<lambda>c. c \<notin> {47, 63, 35}) (drop 2 url))
      else ([], url))"

definition check_bracketed_host :: "pystr \<Rightarrow> unit res" where
  "check_bracketed_host host =
     (if take 1 host = [118] then
        (let digits = takeWhile (\<lambda>c. hex_value c \<noteq> None) (drop 1 host);
             rest = dropWhile (\<lambda>c. hex_value c \<noteq> None) (drop 1 host) in
         ensure (digits \<noteq> [] \<and> take 1 rest = [46] \<and> 1 < length rest \<and> 10 \<notin> set rest) ValueError)
      else (case ip_address host of Some (IPv6 _) \<Rightarrow> Inr () | _ \<Rightarrow> Inl ValueError))"

definition check_brackets :: "pystr \<Rightarrow> unit res" where
  "check_brackets netloc =
     (if (91 \<in> set netloc) \<noteq> (93 \<in> set netloc) then Inl ValueError
      else if 91 \<in> set netloc then
        check_bracketed_host (fst (partition_at 93 (snd (snd (partition_at 91 netloc)))))
      else Inr ())"

definition check_netloc :: "unicode \<Rightarrow> pystr \<Rightarrow> unit res" where
  "check_netloc uc netloc =
     (let n = filter (\<lambda>c. c \<notin> {64, 58, 35, 63}) netloc in
      ensure (is_ascii netloc \<or> nfkc uc n = n \<or> set (nfkc uc n) \<inter> {47, 63, 35, 64, 58} = {}) ValueError)"

definition user_info :: "pystr \<Rightarrow> pystr option \<times> pystr option" where
  "user_info netloc =
     (case rpartition_at 64 netloc of (info, found, _) \<Rightarrow>
        if found then
          (case partition_at 58 info of (user, has_password, password) \<Rightarrow> (Some user, if has_password then Some password else None))
        else (None, None))"

definition host_info :: "pystr \<Rightarrow> pystr \<times> pystr option" where
  "host_info netloc =
     (case rpartition_at 64 netloc of (_, _, host) \<Rightarrow>
      case (case partition_at 91 host of (_, bracket, bracketed) \<Rightarrow>
              if bracket then
                (case partition_at 93 bracketed of (h, _, r) \<Rightarrow> (h, snd (snd (partition_at 58 r))))
              else (case partition_at 58 host of (h, _, p) \<Rightarrow> (h, p))) of
        (h, port) \<Rightarrow> (h, if port = [] then None else Some port))"

definition url_hostname :: "unicode \<Rightarrow> pystr \<Rightarrow> pystr option" where
  "url_hostname uc h =
     (if h = [] then None
      else (case partition_at 37 h of (name, percent, zone) \<Rightarrow>
              Some ((if is_ascii name then map ascii_lower name else unicode_lower uc name)
                    @ (if percent then [37] else []) @ zone)))"

definition url_port :: "pystr option \<Rightarrow> int option res" where
  "url_port port =
     (case port of
        None \<Rightarrow> Inr None
      | Some p \<Rightarrow>
          rbind (ensure (list_all is_digit p \<and> length p \<le> 4300 \<and> dec_value (digit_values p) \<le> 65535) ValueError) (\<lambda>_.
          Inr (Some (int (dec_value (digit_values p))))))"

definition urlsplit :: "unicode \<Rightarrow> pystr \<Rightarrow> split_url res" where
  "urlsplit uc text_url =
     (case split_scheme (clean_url text_url) of (scheme, url) \<Rightarrow>
      case split_netloc url of (netloc, url) \<Rightarrow>
      case partition_at 35 url of (url, _, fragment) \<Rightarrow>
      case partition_at 63 url of (path, _, query) \<Rightarrow>
        rbind (check_brackets netloc) (\<lambda>_.
        rbind (check_netloc uc netloc) (\<lambda>_.
        Inr \<lparr>u_scheme = scheme, u_hostname = url_hostname uc (fst (host_info netloc)), u_path = path, u_query = query,
             u_fragment = fragment, u_username = fst (user_info netloc), u_password = snd (user_info netloc),
             u_port = url_port (snd (host_info netloc))\<rparr>)))"

subsection \<open>Loopback addresses\<close>

lemma all_some_eq_Some: "all_some xs = Some ys \<longleftrightarrow> xs = map Some ys"
  by (induction xs arbitrary: ys) (auto split: option.splits)

lemma parse_octet_bound: "parse_octet s = Some n \<Longrightarrow> n < 256 \<and> 46 \<notin> set s \<and> 47 \<notin> set s"
  by (auto simp: parse_octet_def list_all_iff is_digit_def split: if_splits)

lemma parse_octet_127: "parse_octet s = Some 127 \<longleftrightarrow> s = str ''127''"
proof
  assume p: "parse_octet s = Some 127"
  then have d: "list_all is_digit s" "length s \<le> 3" "s \<noteq> []" and v: "dec_value (digit_values s) = 127"
    by (auto simp: parse_octet_def split: if_splits)
  have "digit_values s = map (\<lambda>c. c - 48) s" using d(1) by (simp add: digit_values_def list_all_iff takeWhile_eq_all_conv [THEN iffD2])
  with v have v: "foldl (\<lambda>n x. n * 10 + (x - 48)) 0 s = 127" by (simp add: dec_value_def foldl_map mult.commute add.commute)
  consider x where "s = [x]" | x y where "s = [x, y]" | x y z where "s = [x, y, z]"
    using d(2,3) by (cases s rule: list.exhaust; cases "tl s" rule: list.exhaust; cases "tl (tl s)" rule: list.exhaust) auto
  then show "s = str ''127''"
  proof cases
    case (3 x y z)
    have digit: "\<exists>k\<le>9. c = 48 + k" if "c \<in> set s" for c
      using that d(1) by (intro exI [of _ "c - 48"]) (auto simp: list_all_iff is_digit_def)
    obtain p q r where pqr: "x = 48 + p" "y = 48 + q" "z = 48 + r" "p \<le> 9" "q \<le> 9" "r \<le> 9"
      using digit [of x] digit [of y] digit [of z] 3 by auto
    have e: "100 * p + 10 * q + r = 127" using v unfolding 3 pqr(1-3) by simp
    have "p = 1" using e pqr(5,6) by linarith
    moreover from this have "q = 2" using e pqr(6) by linarith
    moreover from calculation have "r = 7" using e by linarith
    ultimately show ?thesis using 3 pqr(1-3) by (simp add: str_simps)
  qed (use d(1) v in \<open>auto simp: is_digit_def\<close>)
qed (simp add: parse_octet_def str_simps digit_values_def is_digit_def dec_value_def)

text \<open>An IPv4 address is loopback exactly if it is written as four decimal numbers of which the first
  is 127: a name that merely begins like one is not.\<close>

lemma loopback_ipv4:
  "(\<exists>n. ipv4_of s = Some n \<and> is_loopback (IPv4 n)) \<longleftrightarrow>
   (\<exists>b c d. s = join_with 46 [str ''127'', b, c, d] \<and> parse_octet b \<noteq> None \<and> parse_octet c \<noteq> None \<and> parse_octet d \<noteq> None)"
  (is "?ip \<longleftrightarrow> ?text")
proof
  assume ?ip
  then obtain n where n: "ipv4_of s = Some n" "n div 2 ^ 24 = 127" by (auto simp: is_loopback_def)
  then obtain ns where len: "length (split_on 46 s) = 4" and ns: "map parse_octet (split_on 46 s) = map Some ns" "n = in_base 256 ns"
    by (auto simp: ipv4_of_def Let_def all_some_eq_Some split: if_splits)
  obtain a b c d where s: "split_on 46 s = [a, b, c, d]" using len by (auto simp: length_Suc_conv numeral_eq_Suc)
  then obtain w x y z where v: "parse_octet a = Some w" "parse_octet b = Some x" "parse_octet c = Some y" "parse_octet d = Some z" "ns = [w, x, y, z]"
    using ns(1) by auto
  then have "x < 256" "y < 256" "z < 256" using parse_octet_bound by blast+
  then have "n div 2 ^ 24 = w" unfolding ns(2) v(5) in_base_def by simp
  with n(2) v(1) have "a = str ''127''" by (simp add: parse_octet_127)
  with v(2-4) s join_split_on [of 46 s] show ?text by (metis option.distinct(1))
next
  assume ?text
  then obtain b c d x y z where s: "s = join_with 46 [str ''127'', b, c, d]"
    and v: "parse_octet (str ''127'') = Some 127" "parse_octet b = Some x" "parse_octet c = Some y" "parse_octet d = Some z"
    using parse_octet_127 by auto
  note bounds = v [THEN parse_octet_bound]
  have "split_on 46 s = [str ''127'', b, c, d]" unfolding s by (rule split_on_join) (use bounds in auto)
  moreover have "47 \<notin> set s" "s \<noteq> []" unfolding s using bounds by auto
  ultimately have "ipv4_of s = Some (in_base 256 [127, x, y, z])" using v by (simp add: ipv4_of_def)
  moreover have "in_base 256 [127, x, y, z] div 2 ^ 24 = 127" unfolding in_base_def using bounds by simp linarith
  ultimately show ?ip by (auto simp: is_loopback_def)
qed

end
