(* ===== verification/Encodings.thy ===== *)
theory Encodings
  imports Utf8
begin

section \<open>JSON bytes as text\<close>

text \<open>
  What \<^verbatim>\<open>json.loads\<close> does with \<^verbatim>\<open>bytes\<close> before it parses: it guesses the encoding from
  the first bytes (\<^verbatim>\<open>json.detect_encoding\<close>) and decodes with \<^verbatim>\<open>errors="surrogatepass"\<close>,
  under which lone surrogates are accepted in every UTF encoding. Shown: text that is written in
  UTF-8 and begins with two characters of ASCII is read back as it was, and the only exception is
  \<^verbatim>\<open>UnicodeDecodeError\<close>.
\<close>

subsection \<open>Decoders\<close>

definition utf8_next_pass :: "bytes \<Rightarrow> utf8_stop + codepoint \<times> bytes" where
  "utf8_next_pass bs =
     (case utf8_next bs of
        Inl Malformed \<Rightarrow>
          (case bs of
             b0 # b1 # b2 # r \<Rightarrow>
               if unat b0 = 0xED \<and> is_cont b1 \<and> 0xA0 \<le> unat b1 \<and> is_cont b2
               then Inr (0xD000 + (unat b1 - 0x80) * 64 + (unat b2 - 0x80), r)
               else Inl Malformed
           | _ \<Rightarrow> Inl Malformed)
      | x \<Rightarrow> x)"

definition utf8_decode_pass :: "bytes \<Rightarrow> pystr res" where
  "utf8_decode_pass bs =
     (case read_all utf8_next_pass bs of (cs, Some EndOfInput) \<Rightarrow> Inr cs | _ \<Rightarrow> Inl UnicodeDecodeError)"

text \<open>The units of UTF-16 and UTF-32; \<open>None\<close> for a truncated last one.\<close>

fun units16 :: "bool \<Rightarrow> bytes \<Rightarrow> nat list option" where
  "units16 big [] = Some []"
| "units16 big [_] = None"
| "units16 big (a # b # r) =
     map_option ((#) (if big then unat a * 256 + unat b else unat b * 256 + unat a)) (units16 big r)"

fun join_surrogates :: "nat list \<Rightarrow> pystr" where
  "join_surrogates (h # l # r) =
     (if 0xD800 \<le> h \<and> h < 0xDC00 \<and> 0xDC00 \<le> l \<and> l < 0xE000
      then (0x10000 + (h - 0xD800) * 1024 + (l - 0xDC00)) # join_surrogates r
      else h # join_surrogates (l # r))"
| "join_surrogates r = r"

definition utf16_decode :: "bool \<Rightarrow> bytes \<Rightarrow> pystr res" where
  "utf16_decode big bs =
     (case units16 big bs of None \<Rightarrow> Inl UnicodeDecodeError | Some us \<Rightarrow> Inr (join_surrogates us))"

fun units32 :: "bool \<Rightarrow> bytes \<Rightarrow> nat list option" where
  "units32 big [] = Some []"
| "units32 big (a # b # c # d # r) =
     map_option ((#) (if big then ((unat a * 256 + unat b) * 256 + unat c) * 256 + unat d
                      else ((unat d * 256 + unat c) * 256 + unat b) * 256 + unat a)) (units32 big r)"
| "units32 big _ = None"

definition utf32_decode :: "bool \<Rightarrow> bytes \<Rightarrow> pystr res" where
  "utf32_decode big bs =
     (case units32 big bs of
        None \<Rightarrow> Inl UnicodeDecodeError
      | Some us \<Rightarrow> if list_all (\<lambda>c. c < 0x110000) us then Inr us else Inl UnicodeDecodeError)"

subsection \<open>Detection\<close>

datatype json_encoding = UTF8 | UTF8_SIG | UTF16 bool | UTF32 bool | UTF16_BOM bool | UTF32_BOM bool

definition detect_encoding :: "bytes \<Rightarrow> json_encoding" where
  "detect_encoding bs =
     (let n = map unat bs in
      if take 4 n = [0, 0, 0xFE, 0xFF] then UTF32_BOM True
      else if take 4 n = [0xFF, 0xFE, 0, 0] then UTF32_BOM False
      else if take 2 n = [0xFE, 0xFF] then UTF16_BOM True
      else if take 2 n = [0xFF, 0xFE] then UTF16_BOM False
      else if take 3 n = [0xEF, 0xBB, 0xBF] then UTF8_SIG
      else
        (case n of
           a # b # c # d # _ \<Rightarrow>
             if a = 0 then (if b \<noteq> 0 then UTF16 True else UTF32 True)
             else if b = 0 then (if c \<noteq> 0 \<or> d \<noteq> 0 then UTF16 False else UTF32 False)
             else UTF8
         | [a, b] \<Rightarrow> if a = 0 then UTF16 True else if b = 0 then UTF16 False else UTF8
         | _ \<Rightarrow> UTF8))"

definition json_text :: "bytes \<Rightarrow> pystr res" where
  "json_text bs =
     (case detect_encoding bs of
        UTF8 \<Rightarrow> utf8_decode_pass bs
      | UTF8_SIG \<Rightarrow> utf8_decode_pass (drop 3 bs)
      | UTF16 big \<Rightarrow> utf16_decode big bs
      | UTF32 big \<Rightarrow> utf32_decode big bs
      | UTF16_BOM big \<Rightarrow> utf16_decode big (drop 2 bs)
      | UTF32_BOM big \<Rightarrow> utf32_decode big (drop 4 bs))"

subsection \<open>Properties\<close>

lemma json_text_error: "json_text bs = Inl e \<Longrightarrow> e = UnicodeDecodeError"
  by (auto simp: json_text_def utf8_decode_pass_def utf16_decode_def utf32_decode_def
      split: json_encoding.splits prod.splits option.splits utf8_stop.splits if_splits)

text \<open>The lenient decoder extends the strict one.\<close>

lemma read_all_pass:
  "read_all utf8_next bs = (cs, Some EndOfInput) \<Longrightarrow> read_all utf8_next_pass bs = (cs, Some EndOfInput)"
proof (induction utf8_next bs arbitrary: cs rule: read_all.induct)
  case (1 bs)
  show ?case
  proof (cases "utf8_next bs")
    case (Inl e)
    then show ?thesis using 1(2) by (simp add: read_all.simps [of _ bs] utf8_next_pass_def split: utf8_stop.splits)
  next
    case (Inr x)
    obtain c r where x: "x = (c, r)" by fastforce
    with Inr 1(2) obtain cs' where r: "length r < length bs" "read_all utf8_next r = (cs', Some EndOfInput)" "cs = c # cs'"
      by (auto simp: read_all.simps [of _ bs] split: if_splits prod.splits)
    with 1(1) [OF Inr x [symmetric] r(1,2)] Inr x show ?thesis by (simp add: read_all.simps [of _ bs] utf8_next_pass_def)
  qed
qed

lemma utf8_decode_pass_strict: "utf8_decode bs = Inr s \<Longrightarrow> utf8_decode_pass bs = Inr s"
  by (auto simp: utf8_decode_def utf8_decode_pass_def read_all_pass split: prod.splits option.splits utf8_stop.splits)

text \<open>Bytes that begin with two characters of ASCII, not NUL, are taken as UTF-8.\<close>

lemma detect_ascii_start:
  "0 < unat a \<Longrightarrow> unat a < 0x80 \<Longrightarrow> 0 < unat b \<Longrightarrow> detect_encoding (a # b # bs) = UTF8"
  by (auto simp: detect_encoding_def Let_def split: list.split)

lemma json_text_utf8:
  assumes "utf8_encode (c # d # t) = Inr b" and "0 < c" and "c < 0x80" and "0 < d" and "d < 0x80"
  shows "json_text b = Inr (c # d # t)"
proof -
  obtain bs where b: "b = byte_of c # byte_of d # bs"
    using assms by (auto simp: rbind_eq_Inr utf8_char_def)
  have "detect_encoding b = UTF8" unfolding b by (rule detect_ascii_start) (use assms in \<open>simp_all add: unat_byte_of\<close>)
  then show ?thesis using utf8_decode_pass_strict [OF utf8_decode_encode [OF assms(1)]] by (simp add: json_text_def)
qed

end
