(* ===== verification/Http.thy ===== *)
theory Http
  imports Execution Url Encodings
begin

section \<open>The HTTP producer (\<^verbatim>\<open>tay/http.py\<close>, \<^verbatim>\<open>TayHTTP\<close>)\<close>

text \<open>
  The transport behind \<^verbatim>\<open>TayHTTP\<close>: validation of the target and its credentials, one request
  and the decoding of its response, and the API on top of it. URLs, addresses and the decoding of
  JSON bytes are those of theories \<open>Url\<close> and \<open>Encodings\<close>. The record \<open>web\<close> holds what is left to
  the environment: Unicode tables, whether the TLS context can be loaded, and \<^verbatim>\<open>repr\<close>. How the
  server or the network answers one request is an \<open>http_answer\<close>. \<open>h_log\<close> is the ghost log of
  the requests sent.
\<close>

subsection \<open>Targets and credentials\<close>

record http_args =
  h_base_url :: pystr
  h_request_timeout :: pyval
  tls_ca_file :: pyval
  tls_cert_file :: pyval
  tls_key_file :: pyval
  tls_pkcs12_file :: pyval
  tls_pkcs12_password :: pyval

record web =
  chars :: unicode
  load_context :: "http_args \<Rightarrow> unit res"
  web_repr :: "pyval \<Rightarrow> pystr"

record http_config =
  base_url :: pystr
  http_timeout :: pyfloat
  uses_tls :: bool

definition some_text :: "pystr option \<Rightarrow> bool" where
  "some_text v = (case v of None \<Rightarrow> False | Some s \<Rightarrow> s \<noteq> [])"

definition host_of :: "split_url \<Rightarrow> pystr" where
  "host_of u = (case u_hostname u of None \<Rightarrow> [] | Some h \<Rightarrow> h)"

definition is_origin :: "split_url \<Rightarrow> bool" where
  "is_origin u =
     (u_scheme u \<in> {str ''http'', str ''https''} \<and> some_text (u_hostname u) \<and> u_path u \<in> {[], str ''/''} \<and> u_query u = [] \<and>
      u_fragment u = [] \<and> \<not> some_text (u_username u) \<and> \<not> some_text (u_password u))"

definition check_port :: "split_url \<Rightarrow> unit res" where
  "check_port u =
     (case u_port u of
        Inl e \<Rightarrow> Inl (if is_ValueError e then ValidationError else e)
      | Inr None \<Rightarrow> Inr ()
      | Inr (Some p) \<Rightarrow> ensure (1 \<le> p \<and> p \<le> 65535) ValidationError)"

definition loopback_host :: "split_url \<Rightarrow> bool" where
  "loopback_host u =
     (case ip_address (host_of u) of Some a \<Rightarrow> is_loopback a | None \<Rightarrow> host_of u = str ''localhost'')"

definition rstrip_slash :: "pystr \<Rightarrow> pystr" where
  "rstrip_slash s = rev (dropWhile (\<lambda>c. c = 47) (rev s))"

definition http_init :: "web \<Rightarrow> http_args \<Rightarrow> http_config res" where
  "http_init web a =
     rbind (urlsplit (chars web) (h_base_url a)) (\<lambda>u.
     rbind (ensure (is_origin u) ValidationError) (\<lambda>_.
     rbind (check_port u) (\<lambda>_.
     rbind (positive_finite (h_request_timeout a)) (\<lambda>timeout.
     let files = [tls_ca_file a, tls_cert_file a, tls_key_file a];
         https = (u_scheme u = str ''https'') in
     rbind (ensure (tls_pkcs12_file a = PNone \<or> \<not> list_ex (\<lambda>f. f \<noteq> PNone) files) ValidationError) (\<lambda>_.
     rbind (ensure (tls_pkcs12_file a \<noteq> PNone \<or> tls_pkcs12_password a = PNone) ValidationError) (\<lambda>_.
     rbind (ensure (\<not> list_ex (\<lambda>f. f \<noteq> PNone) files \<or> list_all (\<lambda>f. f \<noteq> PNone) files) ValidationError) (\<lambda>_.
     rbind (ensure (loopback_host u \<or> (https \<and> (tls_ca_file a \<noteq> PNone \<or> tls_pkcs12_file a \<noteq> PNone))) ValidationError) (\<lambda>_.
     rbind (ensure ((tls_ca_file a = PNone \<and> tls_pkcs12_file a = PNone) \<or> https) ValidationError) (\<lambda>_.
     rbind (if https then load_context web a else Inr ()) (\<lambda>_.
     Inr \<lparr>base_url = rstrip_slash (h_base_url a), http_timeout = timeout, uses_tls = https\<rparr>))))))))))"

subsection \<open>One request\<close>

definition MAX_HTTP_RESPONSE_BYTES :: nat where "MAX_HTTP_RESPONSE_BYTES = 1048576"

record http_message =
  m_method :: string
  m_url :: pystr
  m_headers :: "(string \<times> pystr) list"
  m_data :: "bytes option"

record http_client =
  h_cfg :: http_config
  h_withdrawn :: "pystr list"
  h_log :: "http_message list"

text \<open>What happens to a request: a response, an \<^verbatim>\<open>HTTPError\<close> (whose body may fail to be read), an
  unreachable server, or another exception of the library.\<close>

datatype http_answer = Answered int bytes | HttpError int "bytes res" | Unreachable | Broken exn

definition http_exchange :: "http_answer \<Rightarrow> (int \<times> bytes) res" where
  "http_exchange answer =
     (case answer of
        Answered status body \<Rightarrow> Inr (status, take (MAX_HTTP_RESPONSE_BYTES + 1) body)
      | HttpError code body \<Rightarrow>
          if code \<in> {301, 302, 303, 307, 308} then Inl ProtocolError
          else rbind body (\<lambda>b. Inr (code, take (MAX_HTTP_RESPONSE_BYTES + 1) b))
      | Unreachable \<Rightarrow> Inl ConnectionLost
      | Broken e \<Rightarrow> Inl e)"

text \<open>\<^verbatim>\<open>json.loads\<close> without hooks.\<close>

definition plain_pairs :: pairs_hook where
  "plain_pairs ps = Inr (PDict (foldl (\<lambda>d (k, v). dset d (PStr k) v) [] ps))"

definition plain_constant :: const_hook where
  "plain_constant name =
     Inr (PFloat (if name = ''NaN'' then NaN else if name = ''Infinity'' then PosInf else NegInf))"

definition http_reply :: "web \<Rightarrow> nat \<Rightarrow> int \<Rightarrow> bytes \<Rightarrow> pydict res" where
  "http_reply web rl status raw =
     (if status = 204 \<and> raw = [] then Inr []
      else if MAX_HTTP_RESPONSE_BYTES < length raw then Inl ProtocolError
      else
        (case rbind (json_text raw) (json_loads plain_pairs plain_constant rl) of
           Inl e \<Rightarrow> Inl (if is_ValueError e then ProtocolError else e)
         | Inr (PDict reply) \<Rightarrow>
             if is_dict (get_field reply ''error'') then
               Inl (server_error_from_payload (web_repr web) (get_field reply ''error''))
             else if status < 200 \<or> 300 \<le> status then Inl ProtocolError
             else Inr reply
         | Inr _ \<Rightarrow> Inl ProtocolError))"

text \<open>The two halves of \<^verbatim>\<open>_request\<close>: the request is built and sent; its answer is decoded.\<close>

definition http_send ::
  "string \<Rightarrow> pystr \<Rightarrow> pydict option \<Rightarrow> (string \<times> pystr) list \<Rightarrow> http_client \<Rightarrow> unit res \<times> http_client" where
  "http_send verb path body headers s =
     (case (case body of None \<Rightarrow> Inr None | Some b \<Rightarrow> rbind (json_bytes (PDict b)) (\<lambda>d. Inr (Some d))) of
        Inl e \<Rightarrow> (Inl e, s)
      | Inr data \<Rightarrow>
          (Inr (), s\<lparr>h_log := h_log s @ [\<lparr>m_method = verb, m_url = base_url (h_cfg s) @ path,
               m_headers = dupdate [(''Content-Type'', str ''application/json''), (''Accept'', str ''application/json'')] headers,
               m_data = data\<rparr>]\<rparr>))"

definition http_receive :: "web \<Rightarrow> nat \<Rightarrow> http_answer \<Rightarrow> pydict res" where
  "http_receive web rl answer = rbind (http_exchange answer) (\<lambda>(status, raw). http_reply web rl status raw)"

definition http_request ::
  "web \<Rightarrow> nat \<Rightarrow> http_answer \<Rightarrow> string \<Rightarrow> pystr \<Rightarrow> pydict option \<Rightarrow> (string \<times> pystr) list \<Rightarrow> http_client
   \<Rightarrow> pydict res \<times> http_client" where
  "http_request web rl answer verb path body headers s =
     (case http_send verb path body headers s of
        (Inl e, s) \<Rightarrow> (Inl e, s)
      | (Inr _, s) \<Rightarrow> (http_receive web rl answer, s))"

subsection \<open>Percent encoding\<close>

text \<open>\<^verbatim>\<open>urllib.parse.quote(s, safe="")\<close> and \<^verbatim>\<open>quote_plus\<close>.\<close>

definition unreserved :: "nat \<Rightarrow> bool" where
  "unreserved n = ((48 \<le> n \<and> n \<le> 57) \<or> (65 \<le> n \<and> n \<le> 90) \<or> (97 \<le> n \<and> n \<le> 122) \<or> n \<in> {45, 46, 95, 126})"

definition upper_hex :: "nat \<Rightarrow> codepoint" where
  "upper_hex n = (if n < 10 then 48 + n else 55 + n)"

definition quote_byte :: "byte \<Rightarrow> pystr" where
  "quote_byte b =
     (let n = unat b in if unreserved n then [n] else [37, upper_hex (n div 16), upper_hex (n mod 16)])"

definition quote :: "pystr \<Rightarrow> pystr res" where
  "quote s = rbind (utf8_encode s) (\<lambda>b. Inr (concat (map quote_byte b)))"

definition quote_plus :: "pystr \<Rightarrow> pystr res" where
  "quote_plus s = rbind (utf8_encode s) (\<lambda>b. Inr (concat (map (\<lambda>x. if unat x = 32 then [43] else quote_byte x) b)))"

definition urlencode :: "web \<Rightarrow> pydict \<Rightarrow> pystr res" where
  "urlencode web d =
     rbind (rmap (\<lambda>(k, v). rbind (quote_plus (py_str (web_repr web) k)) (\<lambda>k'.
                          rbind (quote_plus (py_str (web_repr web) v)) (\<lambda>v'. Inr (k' @ str ''='' @ v')))) d) (\<lambda>ps.
     Inr (join_with 38 ps))"

subsection \<open>The API\<close>

definition http_enqueue ::
  "web \<Rightarrow> nat \<Rightarrow> http_answer \<Rightarrow> pyval \<Rightarrow> pyval \<Rightarrow> pyval \<Rightarrow> pydict \<Rightarrow> pyval \<Rightarrow> http_client
   \<Rightarrow> (pystr \<times> pystr option) res \<times> http_client" where
  "http_enqueue web rl answer t args options keywords durability s =
     (case rbind (validate_task_name t) (\<lambda>name. enqueue_payload name args options keywords durability) of
        Inl e \<Rightarrow> (Inl e, s)
      | Inr payload \<Rightarrow>
          (case http_request web rl answer ''POST'' (str ''/jobs'') (Some payload) [] s of
             (Inl e, s) \<Rightarrow> (Inl e, s)
           | (Inr reply, s) \<Rightarrow>
               (rbind (extract_identifier reply ''job_id'' ''job'') (\<lambda>i. Inr (i, extract_job_durability reply)), s)))"

definition http_schedule_request ::
  "web \<Rightarrow> nat \<Rightarrow> http_answer \<Rightarrow> string \<Rightarrow> pydict \<Rightarrow> http_client \<Rightarrow> pydict res \<times> http_client" where
  "http_schedule_request web rl answer operation payload s =
     (if operation = ''schedule'' then http_request web rl answer ''POST'' (str ''/schedules'') (Some payload) [] s
      else if operation = ''schedules'' then
        (case (if payload = [] then Inr [] else rbind (urlencode web payload) (\<lambda>q. Inr (str ''?'' @ q))) of
           Inl e \<Rightarrow> (Inl e, s)
         | Inr suffix \<Rightarrow> http_request web rl answer ''GET'' (str ''/schedules'' @ suffix) None [] s)
      else
        (case (case get_field payload ''schedule_id'' of
                 PStr i \<Rightarrow> quote i | _ \<Rightarrow> Inl (if has_field payload ''schedule_id'' then TypeError else KeyError)) of
           Inl e \<Rightarrow> (Inl e, s)
         | Inr quoted \<Rightarrow>
             http_request web rl answer (if operation = ''cancel_schedule'' then ''DELETE'' else ''GET'')
               (str ''/schedules/'' @ quoted) None [] s))"

definition http_job_status :: "web \<Rightarrow> nat \<Rightarrow> http_answer \<Rightarrow> pystr \<Rightarrow> http_client \<Rightarrow> pyval res \<times> http_client" where
  "http_job_status web rl answer i s =
     (case http_request web rl answer ''GET'' (str ''/jobs/'' @ i) None [] s of
        (Inl e, s) \<Rightarrow> (Inl e, s)
      | (Inr reply, s) \<Rightarrow> (Inr (get_default reply ''status'' (get_default reply ''job'' (PDict reply))), s))"

definition http_job_cancel :: "web \<Rightarrow> nat \<Rightarrow> http_answer \<Rightarrow> pystr \<Rightarrow> http_client \<Rightarrow> pyval res \<times> http_client" where
  "http_job_cancel web rl answer i s =
     (case http_request web rl answer ''DELETE'' (str ''/jobs/'' @ i) None [] s of
        (Inl e, s) \<Rightarrow> (Inl e, s)
      | (Inr reply, s) \<Rightarrow> (Inr (get_default reply ''status'' (PDict reply)), s))"

definition http_job_result :: "web \<Rightarrow> nat \<Rightarrow> http_answer \<Rightarrow> pystr \<Rightarrow> http_client \<Rightarrow> pyval res \<times> http_client" where
  "http_job_result web rl answer i s =
     (case http_request web rl answer ''GET'' (str ''/jobs/'' @ i @ str ''/result'') None [] s of
        (Inl e, s) \<Rightarrow> (Inl e, s)
      | (Inr reply, s) \<Rightarrow> (extract_result (web_repr web) reply, s))"

text \<open>The scheduling hooks of \<^verbatim>\<open>TayHTTP\<close>; a sequence of requests meets a sequence of answers.\<close>

type_synonym http_session = "http_client \<times> (nat \<Rightarrow> http_answer)"

definition http_session_request :: "web \<Rightarrow> nat \<Rightarrow> string \<Rightarrow> pydict \<Rightarrow> http_session \<Rightarrow> pydict res \<times> http_session" where
  "http_session_request web rl operation payload x =
     (case http_schedule_request web rl (snd x 0) operation payload (fst x) of (r, s) \<Rightarrow> (r, (s, snd x \<circ> Suc)))"

definition http_hooks :: "web \<Rightarrow> nat \<Rightarrow> http_session hooks" where
  "http_hooks web rl =
     \<lparr>schedule_request = http_session_request web rl,
      schedule_task_name = (\<lambda>_ t. default_schedule_task_name t),
      retain_schedule = (\<lambda>_ _ x. x),
      forget_schedule = (\<lambda>_ x. x),
      hook_mode = (\<lambda>_. None),
      get_withdrawn = (\<lambda>x. h_withdrawn (fst x)),
      set_withdrawn = (\<lambda>ids x. ((fst x)\<lparr>h_withdrawn := ids\<rparr>, snd x))\<rparr>"

lemma http_request_keeps:
  "h_withdrawn (snd (http_request web rl answer verb path body headers s)) = h_withdrawn s"
  "h_cfg (snd (http_request web rl answer verb path body headers s)) = h_cfg s"
  by (simp_all add: http_request_def http_send_def split: sum.split)

lemma http_schedule_request_keeps:
  "h_withdrawn (snd (http_schedule_request web rl answer operation payload s)) = h_withdrawn s"
  by (simp add: http_schedule_request_def http_request_keeps split: sum.split)

interpretation http_schedules: scheduling_object "http_hooks web rl" for web rl
  by unfold_locales (simp_all add: http_hooks_def http_session_request_def case_prod_beta http_schedule_request_keeps)

subsection \<open>Percent encoding reads back\<close>

definition hex_digit_value :: "codepoint \<Rightarrow> nat" where
  "hex_digit_value c = (if c < 58 then c - 48 else c - 55)"

text \<open>What a server does with a path segment.\<close>

fun unquote_bytes :: "pystr \<Rightarrow> bytes" where
  "unquote_bytes (c # x # y # r) =
     (if c = 37 then byte_of (16 * hex_digit_value x + hex_digit_value y) # unquote_bytes r
      else byte_of c # unquote_bytes (x # y # r))"
| "unquote_bytes [c, x] = [byte_of c, byte_of x]"
| "unquote_bytes [c] = [byte_of c]"
| "unquote_bytes [] = []"

lemma unquote_plain: "c \<noteq> 37 \<Longrightarrow> unquote_bytes (c # r) = byte_of c # unquote_bytes r"
proof (cases r)
  case (Cons x r')
  assume "c \<noteq> 37"
  with Cons show ?thesis by (cases r') simp_all
qed simp

lemma hex_digit_value_upper: "n < 16 \<Longrightarrow> hex_digit_value (upper_hex n) = n"
  by (simp add: hex_digit_value_def upper_hex_def)

lemma unat_byte_bound: "unat (b :: byte) < 256"
proof -
  have "unat b < 2 ^ LENGTH(8)" by (rule unsigned_less)
  then show ?thesis by simp
qed

lemma unquote_quote_byte: "unquote_bytes (quote_byte b @ r) = b # unquote_bytes r"
proof -
  have b: "unat b < 256" by (rule unat_byte_bound)
  have again: "byte_of (unat b) = b" by (simp add: byte_of_def)
  show ?thesis
  proof (cases "unreserved (unat b)")
    case True
    then have "unat b \<noteq> 37" by (auto simp: unreserved_def)
    with True again show ?thesis by (simp add: quote_byte_def Let_def unquote_plain)
  next
    case False
    have "16 * (unat b div 16) + unat b mod 16 = unat b" by (rule mult_div_mod_eq)
    with False b again show ?thesis by (simp add: quote_byte_def Let_def hex_digit_value_upper)
  qed
qed

lemma unquote_quote: "quote s = Inr q \<Longrightarrow> utf8_decode (unquote_bytes q) = Inr s"
proof -
  assume "quote s = Inr q"
  then obtain b where b: "utf8_encode s = Inr b" "q = concat (map quote_byte b)" by (auto simp: quote_def rbind_eq_Inr)
  have "unquote_bytes (concat (map quote_byte b)) = b" by (induction b) (simp_all add: unquote_quote_byte)
  with b utf8_decode_encode [OF b(1)] show ?thesis by simp
qed

lemma quote_byte_chars: "c \<in> set (quote_byte b) \<Longrightarrow> unreserved c \<or> c = 37"
proof -
  assume c: "c \<in> set (quote_byte b)"
  have "unat b < 256" by (rule unat_byte_bound)
  then have "unat b div 16 < 16" "unat b mod 16 < 16" by auto
  moreover have "unreserved (upper_hex n)" if "n < 16" for n using that by (auto simp: upper_hex_def unreserved_def)
  ultimately show ?thesis using c by (auto simp: quote_byte_def Let_def split: if_splits)
qed

lemma quote_chars: "quote s = Inr q \<Longrightarrow> c \<in> set q \<Longrightarrow> unreserved c \<or> c = 37"
  by (auto simp: quote_def rbind_eq_Inr dest: quote_byte_chars)

lemma quote_total: "list_all encodable s \<Longrightarrow> \<exists>q. quote s = Inr q"
  using utf8_encode_ok_iff [of s] by (auto simp: quote_def is_ok_iff)

subsection \<open>Responses read back\<close>

lemma keeps_pairs_plain: "keeps_pairs plain_pairs"
  unfolding keeps_pairs_def
proof (intro allI impI)
  fix ps :: "(pystr \<times> pyval) list"
  assume d: "distinct (map fst ps)"
  let ?qs = "map (\<lambda>p. (PStr (fst p), snd p)) ps"
  have "inj_on PStr (set (map fst ps))" by (rule inj_onI) simp
  with d have "distinct (map PStr (map fst ps))" by (subst distinct_map) blast
  then have "dict_ok ?qs" by (simp add: dict_ok_def comp_def)
  moreover have "foldl (\<lambda>d (k, v). dset d (PStr k) v) [] ps = dupdate [] ?qs"
    by (simp add: dupdate_def foldl_map case_prod_unfold)
  ultimately show "plain_pairs ps = Inr (PDict ?qs)" using dupdate_fresh [of ?qs "[]"] by (simp add: plain_pairs_def)
qed

lemma json_dumps_dict_start:
  assumes "json_dumps (PDict d) = Inr t"
  obtains c r where "t = 123 # c # r" and "0 < c" and "c < 0x80"
proof -
  obtain d' where "sort_deep (PDict d) = PDict d'" by simp
  then obtain ms where ms: "dumps_members d' = Inr ms" "t = 123 # ms @ [125]"
    using assms by (auto simp: json_dumps_def rbind_eq_Inr)
  have "ms = [] \<or> hd ms = 34"
  proof (cases d')
    case (Cons x xs)
    obtain k v where "x = (k, v)" by fastforce
    with Cons ms(1) show ?thesis by (auto simp: rbind_eq_Inr json_string_def split: pyval.splits if_splits)
  qed (use ms in simp)
  with ms(2) show thesis by (cases ms) (auto intro: that)
qed

lemma http_receive_json:
  assumes "json_bytes (PDict d) = Inr b" and "json_ok (PDict d)" and "jdepth (PDict d) \<le> rl"
    and "length b \<le> MAX_HTTP_RESPONSE_BYTES" and "200 \<le> status" and "status < 300" and "status \<noteq> 204"
    and "sort_deep (PDict d) = PDict d'" and "\<not> is_dict (get_field d' ''error'')"
  shows "http_receive web rl (Answered status b) = Inr d'"
proof -
  obtain t where t: "json_dumps (PDict d) = Inr t" "utf8_encode t = Inr b"
    using assms(1) by (auto simp: json_bytes_def rbind_eq_Inr rbind_eq_Inl split: sum.splits)
  have "json_loads plain_pairs plain_constant rl t = Inr (PDict d')"
    using json_loads_dumps [OF keeps_pairs_plain t(1) assms(2,3)] assms(8) by simp
  moreover obtain x r where "t = 123 # x # r" "0 < x" "x < 0x80" using t(1) by (rule json_dumps_dict_start)
  with t(2) have "json_text b = Inr t" using json_text_utf8 [of 123 x r] by simp
  ultimately show ?thesis using assms(4-7,9)
    by (simp add: http_receive_def http_exchange_def http_reply_def)
qed

section \<open>Properties\<close>

lemma loopback_host_cases:
  assumes "loopback_host u"
  shows "host_of u = str ''localhost'' \<or> ipv6_of (host_of u) = Some 1 \<or>
     (\<exists>b c d. host_of u = join_with 46 [str ''127'', b, c, d] \<and> parse_octet b \<noteq> None \<and> parse_octet c \<noteq> None \<and> parse_octet d \<noteq> None)"
proof (cases "ipv4_of (host_of u)")
  case None
  with assms show ?thesis by (auto simp: loopback_host_def ip_address_def is_loopback_def split: option.splits)
next
  case (Some n)
  with assms have "is_loopback (IPv4 n)" by (simp add: loopback_host_def ip_address_def)
  with Some loopback_ipv4 [of "host_of u"] show ?thesis by blast
qed


definition plain_web :: web where
  "plain_web = \<lparr>chars = \<lparr>nfkc = (\<lambda>s. s), unicode_lower = (\<lambda>s. s)\<rparr>, load_context = (\<lambda>_. Inr ()), web_repr = (\<lambda>_. [])\<rparr>"

definition remote_args :: http_args where
  "remote_args = \<lparr>h_base_url = str ''https://tay.example:8443'', h_request_timeout = PFloat (Flt 30), tls_ca_file = skey ''ca'',
     tls_cert_file = skey ''cert'', tls_key_file = skey ''key'', tls_pkcs12_file = PNone, tls_pkcs12_password = PNone\<rparr>"

lemmas url_eval = urlsplit_def split_scheme_def clean_url_def partition_at_def rpartition_at_def split_netloc_def check_brackets_def
  check_netloc_def user_info_def host_info_def url_hostname_def url_port_def is_ascii_def ascii_lower_def scheme_char_def is_alpha_def

lemma remote_url: "\<exists>u. urlsplit (chars plain_web) (h_base_url remote_args) = Inr u \<and> is_origin u \<and> u_scheme u = str ''https'' \<and> check_port u = Inr ()"
  by (simp add: remote_args_def plain_web_def url_eval text_eval is_origin_def some_text_def check_port_def is_digit_def digit_values_def dec_value_def)

lemma remote_accepts:
  assumes "h_base_url a = h_base_url remote_args" and "positive_finite (h_request_timeout a) = Inr t"
    and "list_all (\<lambda>f. f \<noteq> PNone) [tls_ca_file a, tls_cert_file a, tls_key_file a] \<and> tls_pkcs12_file a = PNone \<and> tls_pkcs12_password a = PNone
      \<or> list_all (\<lambda>f. f = PNone) [tls_ca_file a, tls_cert_file a, tls_key_file a] \<and> tls_pkcs12_file a \<noteq> PNone"
  shows "http_init plain_web a = Inr \<lparr>base_url = str ''https://tay.example:8443'', http_timeout = t, uses_tls = True\<rparr>"
proof -
  obtain u where u: "urlsplit (chars plain_web) (h_base_url a) = Inr u" "is_origin u" "u_scheme u = str ''https''" "check_port u = Inr ()"
    using remote_url assms(1) by auto
  have "rstrip_slash (h_base_url a) = str ''https://tay.example:8443''" "load_context plain_web a = Inr ()"
    by (simp_all add: assms(1) remote_args_def plain_web_def rstrip_slash_def text_eval)
  with assms(2,3) u(2-4) show ?thesis unfolding http_init_def u(1) by auto
qed

lemma remote_init: "http_init plain_web remote_args = Inr \<lparr>base_url = str ''https://tay.example:8443'', http_timeout = Flt 30, uses_tls = True\<rparr>"
  by (rule remote_accepts) (simp_all add: remote_args_def positive_finite_def num_le_def)


lemma http_reply_error:
  assumes "http_reply web rl status raw = Inl e"
  shows "e = ProtocolError \<or> e = RecursionError \<or> is_ServerError e"
proof -
  have "is_ValueError e' \<or> e' = RecursionError"
    if "rbind (json_text raw) (json_loads plain_pairs plain_constant rl) = Inl e'" for e'
    using that json_text_error [of raw e'] json_loads_error [of plain_pairs plain_constant rl _ e']
    by (auto simp: rbind_eq_Inl decoder_error_def plain_pairs_def plain_constant_def is_ValueError_def)
  then show ?thesis
    using assms server_error_is_ServerError
    by (auto simp: http_reply_def split: if_splits sum.splits pyval.splits)
qed

lemma http_reply_value:
  assumes "http_reply web rl status raw = Inr reply"
  shows "length raw \<le> 1048576 \<and> 200 \<le> status \<and> status < 300 \<and>
    (status = 204 \<and> raw = [] \<and> reply = [] \<or> raw \<noteq> [] \<and> \<not> is_dict (get_field reply ''error''))"
proof -
  have "json_text [] = Inr []" by (simp add: json_text_def detect_encoding_def utf8_decode_pass_def read_all.simps [of _ "[]"] utf8_next_pass_def utf8_next_def)
  moreover have "json_loads plain_pairs plain_constant rl [] = Inl JSONDecodeError" by (simp add: scan_eval)
  ultimately show ?thesis
    using assms by (auto simp: http_reply_def MAX_HTTP_RESPONSE_BYTES_def split: if_splits sum.splits pyval.splits)
qed



text \<open>A schedule id, whatever characters it has, addresses exactly its own schedule: the request's path is
  \<^verbatim>\<open>/schedules/\<close> and one segment of unreserved characters and escapes, no slash, question mark or
  hash among them, that percent-decodes to the id.\<close>

theorem schedule_path_exact:
  assumes "text_value 128 (PStr i)" and "operation \<notin> {''schedule'', ''schedules''}"
  shows "\<exists>q m. quote i = Inr q \<and> (\<forall>c\<in>set q. unreserved c \<or> c = 37) \<and> utf8_decode (unquote_bytes q) = Inr i
     \<and> h_log (snd (http_schedule_request web rl answer operation [(skey ''schedule_id'', PStr i)] s)) = h_log s @ [m]
     \<and> m_url m = base_url (h_cfg s) @ str ''/schedules/'' @ q
     \<and> m_method m = (if operation = ''cancel_schedule'' then ''DELETE'' else ''GET'')"
proof -
  obtain b where "utf8_encode i = Inr b" using assms(1) by (auto simp: text_within_def)
  then obtain q where q: "quote i = Inr q" by (auto simp: quote_def)
  with quote_chars [OF q] unquote_quote [OF q] assms(2) show ?thesis
    by (auto simp: http_schedule_request_def http_request_def http_send_def get_field_def)
qed

theorem schedule_path_exact_witness:
  "\<exists>q. quote (str ''a/b'') = Inr q \<and> utf8_decode (unquote_bytes q) = Inr (str ''a/b'') \<and> 47 \<notin> set q"
proof -
  have "text_value 128 (skey ''a/b'')" by (simp add: text_within_def text_eval)
  from schedule_path_exact [OF this, of "''cancel_schedule''"] show ?thesis by (fastforce simp: unreserved_def)
qed

end
