(* ===== verification/HttpWorker.thy ===== *)
theory HttpWorker
  imports Http Transitions
begin

section \<open>The HTTP worker (\<^verbatim>\<open>tay/http.py\<close>, \<^verbatim>\<open>TayHTTPWorker\<close>)\<close>

text \<open>
  The long-polling worker as a state machine. As in the socket client each operation is a section
  of a method between two \<^verbatim>\<open>await\<close>s; a request is sent by one operation and its answer handled
  by a later one, with other sections in between. \<open>w_pc\<close> is where \<^verbatim>\<open>serve_forever\<close> is: not
  running, about to register, or waiting for the answer to its claim. The asyncio tasks of
  executions are numbered in \<open>w_runs\<close>; each knows the token of the session that claimed it.
  An execution that closes its own worker is outside the model.

  Registration sends several requests in a row; \<open>events\<close> gives the answer to each and whether
  \<^verbatim>\<open>close()\<close> was called while it was awaited.
\<close>

subsection \<open>State\<close>

definition MAX_TASK_RESULT_BYTES :: nat where "MAX_TASK_RESULT_BYTES = 65536"
definition MAX_WORKER_CAPACITY :: int where "MAX_WORKER_CAPACITY = 256"
definition MIN_WORKER_REQUEST_TIMEOUT_SECONDS :: int where "MIN_WORKER_REQUEST_TIMEOUT_SECONDS = 25"
definition WORKER_TOKEN_LENGTH :: nat where "WORKER_TOKEN_LENGTH = 43"
definition MAX_ERROR_TYPE_CHARACTERS :: nat where "MAX_ERROR_TYPE_CHARACTERS = 128"
definition MAX_ERROR_MESSAGE_CHARACTERS :: nat where "MAX_ERROR_MESSAGE_CHARACTERS = 1024"

datatype worker_pc = Off | Registering | Claiming

datatype xphase = Fresh | Announced | Running | Settling | Ended

record xrun =
  x_execution :: pystr
  x_message :: pydict
  x_token :: "pystr option"
  x_phase :: xphase
  x_cancel :: bool

record worker =
  w_http :: http_client
  w_self :: nat
  w_queue :: pystr
  w_capacity :: int
  w_runtime_id :: pystr
  w_tasks :: registry
  w_token :: "pystr option"
  w_executions :: "(pystr, nat) dict"
  w_is_sync :: "(pystr, bool) dict"
  w_closing :: bool
  w_pc :: worker_pc
  w_runs :: "(nat, xrun) dict"

definition worker_init ::
  "web \<Rightarrow> nat \<Rightarrow> pystr \<Rightarrow> http_args \<Rightarrow> pyval \<Rightarrow> pyval \<Rightarrow> pyval \<Rightarrow> worker res" where
  "worker_init web self uuid a queue worker_capacity runtime_id =
     rbind (http_init web a) (\<lambda>c.
     rbind (ensure (\<not> num_less (PFloat (http_timeout c)) (PInt MIN_WORKER_REQUEST_TIMEOUT_SECONDS)) ValidationError) (\<lambda>_.
     rbind (ensure (int_in_range 1 MAX_WORKER_CAPACITY worker_capacity) ValidationError) (\<lambda>_.
     rbind (validate_task_name queue) (\<lambda>q.
     rbind (identifier_check (if runtime_id = PNone then PStr (str ''http-worker-'' @ uuid) else runtime_id)) (\<lambda>rid.
     Inr \<lparr>w_http = \<lparr>h_cfg = c, h_withdrawn = [], h_log = []\<rparr>, w_self = self, w_queue = q,
          w_capacity = (case worker_capacity of PInt n \<Rightarrow> n | _ \<Rightarrow> 0), w_runtime_id = rid, w_tasks = [], w_token = None,
          w_executions = [], w_is_sync = [], w_closing = False, w_pc = Off, w_runs = []\<rparr>)))))"

definition worker_task :: "callable \<Rightarrow> pyval \<Rightarrow> task_config \<Rightarrow> worker \<Rightarrow> task res \<times> worker" where
  "worker_task f name raw s =
     (case rbind (post_init raw) (\<lambda>c. register_task (w_self s) (w_tasks s) f name c) of
        Inl e \<Rightarrow> (Inl e, s)
      | Inr (t, registry) \<Rightarrow> (Inr t, s\<lparr>w_tasks := registry\<rparr>))"

subsection \<open>Requests\<close>

definition bearer :: "pystr \<Rightarrow> (string \<times> pystr) list" where
  "bearer token = [(''Authorization'', str ''Bearer '' @ token)]"

definition worker_send :: "string \<Rightarrow> pystr \<Rightarrow> pydict option \<Rightarrow> (string \<times> pystr) list \<Rightarrow> worker \<Rightarrow> unit res \<times> worker" where
  "worker_send verb path body headers s =
     (case http_send verb path body headers (w_http s) of (r, h) \<Rightarrow> (r, s\<lparr>w_http := h\<rparr>))"

text \<open>\<^verbatim>\<open>_worker_request\<close> up to its answer.\<close>

definition worker_request ::
  "string \<Rightarrow> pystr \<Rightarrow> pydict option \<Rightarrow> pystr option \<Rightarrow> worker \<Rightarrow> unit res \<times> worker" where
  "worker_request verb path body session_token s =
     (if session_token \<noteq> None \<and> session_token \<noteq> w_token s then (Inl ConnectionLost, s)
      else
        (case (if session_token = None then w_token s else session_token) of
           None \<Rightarrow> (Inl ConnectionLost, s)
         | Some token \<Rightarrow> worker_send verb path body (bearer token) s))"

subsection \<open>Executions\<close>

definition worker_cancel :: "nat \<Rightarrow> worker \<Rightarrow> worker" where
  "worker_cancel k s =
     (case dget (w_runs s) k of None \<Rightarrow> s | Some r \<Rightarrow> s\<lparr>w_runs := dset (w_runs s) k (r\<lparr>x_cancel := True\<rparr>)\<rparr>)"

definition worker_cancel_async :: "pystr \<Rightarrow> worker \<Rightarrow> worker" where
  "worker_cancel_async key s =
     (let sync = (case dget (w_is_sync s) key of Some b \<Rightarrow> b | None \<Rightarrow> False) in
      case dget (w_executions s) key of
        Some k \<Rightarrow> if cancel_async_execution (Some k) sync then worker_cancel k s else s
      | None \<Rightarrow> s)"

text \<open>\<^verbatim>\<open>_execution_finished\<close>.\<close>

definition worker_finished :: "nat \<Rightarrow> worker \<Rightarrow> worker" where
  "worker_finished k s =
     (case dget (w_runs s) k of
        None \<Rightarrow> s
      | Some r \<Rightarrow>
          s\<lparr>w_runs := dset (w_runs s) k (r\<lparr>x_phase := Ended\<rparr>), w_executions := dpop (w_executions s) (x_execution r),
            w_is_sync := dpop (w_is_sync s) (x_execution r)\<rparr>)"

text \<open>The token an execution belongs to.\<close>

definition session_of :: "xrun \<Rightarrow> worker \<Rightarrow> pystr option" where
  "session_of r s = (if x_token r = None then w_token s else x_token r)"

definition completion_context :: "pydict \<Rightarrow> pydict res" where
  "completion_context message =
     rbind (ensure (has_field message ''reservation_id'') KeyError) (\<lambda>_.
     rbind (ensure (has_field message ''execution_id'') KeyError) (\<lambda>_.
     Inr [(skey ''reservation_id'', get_field message ''reservation_id''), (skey ''execution_id'', get_field message ''execution_id'')]))"

text \<open>An execution that sent a request waits for its answer; one whose request was not sent ends.\<close>

definition await_answer :: "nat \<Rightarrow> xrun \<Rightarrow> unit res \<times> worker \<Rightarrow> worker" where
  "await_answer k r x =
     (case x of (Inl _, s) \<Rightarrow> worker_finished k s | (Inr _, s) \<Rightarrow> s\<lparr>w_runs := dset (w_runs s) k r\<rparr>)"

text \<open>\<^verbatim>\<open>_execute\<close> up to its first request, which announces the start or refuses an unknown task.\<close>

definition execute_begin :: "nat \<Rightarrow> worker \<Rightarrow> worker" where
  "execute_begin k s =
     (case dget (w_runs s) k of
        None \<Rightarrow> s
      | Some r \<Rightarrow>
          if x_phase r \<noteq> Fresh then s
          else if x_cancel r \<or> session_of r s \<noteq> w_token s then worker_finished k s
          else
            (case completion_context (x_message r) of
               Inl _ \<Rightarrow> worker_finished k s
             | Inr context \<Rightarrow>
                 (case get_field (x_message r) ''task'' of
                    PStr name \<Rightarrow>
                      if dget (w_tasks s) name = None then
                        await_answer k (r\<lparr>x_phase := Settling, x_token := session_of r s\<rparr>)
                          (worker_request ''POST'' (str ''/workers/complete'')
                             (Some (context @ [(skey ''outcome'', skey ''failure''),
                                (skey ''error'', PDict [(skey ''type'', skey ''TaskNotRegistered'')])])) (session_of r s) s)
                      else
                        await_answer k (r\<lparr>x_phase := Announced, x_token := session_of r s\<rparr>)
                          (worker_request ''POST'' (str ''/workers/started'') (Some context) (session_of r s) s)
                  | _ \<Rightarrow> worker_finished k s)))"

text \<open>The answer to it, and the check before the task is called.\<close>

definition execute_started :: "web \<Rightarrow> nat \<Rightarrow> http_answer \<Rightarrow> nat \<Rightarrow> worker \<Rightarrow> worker" where
  "execute_started web rl answer k s =
     (case dget (w_runs s) k of
        None \<Rightarrow> s
      | Some r \<Rightarrow>
          if x_phase r \<noteq> Announced then s
          else if x_cancel r \<or> \<not> is_ok (http_receive web rl answer) \<or> session_of r s \<noteq> w_token s \<or> w_closing s
          then worker_finished k s
          else s\<lparr>w_runs := dset (w_runs s) k (r\<lparr>x_phase := Running\<rparr>)\<rparr>)"

definition worker_awaitable_started :: "pystr \<Rightarrow> pystr option \<Rightarrow> worker \<Rightarrow> unit res \<times> worker" where
  "worker_awaitable_started key session_token s =
     (let s = s\<lparr>w_is_sync := dset (w_is_sync s) key False\<rparr> in
      (if session_token \<noteq> w_token s \<or> w_closing s then Inl CancelledError else Inr (), s))"

text \<open>The call of the task.\<close>

definition execute_call :: "invocation \<Rightarrow> xrun \<Rightarrow> worker \<Rightarrow> pyval res \<times> worker" where
  "execute_call invoke r s =
     (case get_field (x_message r) ''task'' of
        PStr name \<Rightarrow>
          (case (dget (w_tasks s) name, dget (x_message r) (skey ''args'')) of
             (Some t, Some arguments) \<Rightarrow>
               run_task invoke t arguments MAX_TASK_RESULT_BYTES ValidationError
                 (worker_awaitable_started (x_execution r) (session_of r s)) s
           | (_, None) \<Rightarrow> (Inl KeyError, s)
           | _ \<Rightarrow> (Inl TaskNotRegistered, s))
      | _ \<Rightarrow> (Inl ProtocolError, s))"

text \<open>The completion that an outcome makes; \<open>None\<close> when the cancellation goes on.\<close>

definition completion_of :: "(exn \<Rightarrow> failure) \<Rightarrow> bool \<Rightarrow> pydict \<Rightarrow> pyval res \<Rightarrow> pydict option res" where
  "completion_of describe_exn is_closing context outcome =
     (case outcome of
        Inr result \<Rightarrow> Inr (Some (context @ [(skey ''outcome'', skey ''success''), (skey ''result'', result)]))
      | Inl e \<Rightarrow>
          if e = CancelledError then
            Inr (if is_closing then None
                 else Some (context @ [(skey ''outcome'', skey ''failure''),
                   (skey ''error'', PDict [(skey ''type'', skey ''CancelledError''), (skey ''message'', skey ''cancelled'')])]))
          else
            rbind (error_details (describe_exn e) False (Some MAX_ERROR_TYPE_CHARACTERS) (Some MAX_ERROR_MESSAGE_CHARACTERS)) (\<lambda>err.
            Inr (Some (context @ [(skey ''outcome'', skey ''failure''), (skey ''error'', PDict err)]))))"

definition execute_settle :: "(exn \<Rightarrow> failure) \<Rightarrow> pyval res \<Rightarrow> nat \<Rightarrow> worker \<Rightarrow> worker" where
  "execute_settle describe_exn outcome k s =
     (case dget (w_runs s) k of
        None \<Rightarrow> s
      | Some r \<Rightarrow>
          if x_phase r \<noteq> Running then s
          else
            (case rbind (completion_context (x_message r)) (\<lambda>context. completion_of describe_exn (w_closing s) context outcome) of
               Inr (Some completion) \<Rightarrow>
                 if session_of r s = w_token s \<and> \<not> w_closing s then
                   await_answer k (r\<lparr>x_phase := Settling, x_token := session_of r s\<rparr>)
                     (worker_request ''POST'' (str ''/workers/complete'') (Some completion) (session_of r s) s)
                 else worker_finished k s
             | _ \<Rightarrow> worker_finished k s))"

text \<open>The answer to the completion, whatever it is, ends the execution; so does a cancellation.\<close>

definition execute_end :: "nat \<Rightarrow> worker \<Rightarrow> worker" where
  "execute_end k s =
     (case dget (w_runs s) k of None \<Rightarrow> s | Some r \<Rightarrow> if x_phase r = Settling then worker_finished k s else s)"

subsection \<open>Sessions\<close>

text \<open>\<^verbatim>\<open>register\<close>, first part: with no session, the executions of a retired one are cancelled where
  possible and awaited; each has ended when the wait is over.\<close>

definition retire_executions :: "worker \<Rightarrow> worker" where
  "retire_executions s =
     (let s' = fold worker_cancel_async (map fst (w_executions s)) s in
      fold worker_finished (map snd (w_executions s)) s')"

type_synonym events = "nat \<Rightarrow> http_answer \<times> bool"

text \<open>One awaited request of the registration.\<close>

definition registration_request ::
  "web \<Rightarrow> nat \<Rightarrow> http_answer \<times> bool \<Rightarrow> string \<Rightarrow> pystr \<Rightarrow> pydict option \<Rightarrow> (string \<times> pystr) list \<Rightarrow> worker
   \<Rightarrow> pydict res \<times> worker" where
  "registration_request web rl event verb path body headers s =
     (case worker_send verb path body headers s of
        (Inl e, s) \<Rightarrow> (Inl e, s)
      | (Inr _, s) \<Rightarrow>
          (http_receive web rl (fst event), if snd event then s\<lparr>w_closing := True, w_token := None\<rparr> else s))"

fun reconcile_schedules ::
  "web \<Rightarrow> nat \<Rightarrow> (bytes \<Rightarrow> pystr) \<Rightarrow> events \<Rightarrow> task list \<Rightarrow> worker \<Rightarrow> unit res \<times> worker \<times> events" where
  "reconcile_schedules web rl sha events [] s = (Inr (), s, events)"
| "reconcile_schedules web rl sha events (t # ts) s =
     (case static_schedule_declaration sha t of
        Inl e \<Rightarrow> (Inl e, s, events)
      | Inr None \<Rightarrow> reconcile_schedules web rl sha events ts s
      | Inr (Some d) \<Rightarrow>
          (case get_field d ''declaration_id'' of
             PStr i \<Rightarrow>
               if i \<in> set (h_withdrawn (w_http s)) then reconcile_schedules web rl sha events ts s
               else
                 (case registration_request web rl (events 0) ''POST'' (str ''/schedules'') (Some d) [] s of
                    (Inl e, s) \<Rightarrow> (Inl e, s, events \<circ> Suc)
                  | (Inr _, s) \<Rightarrow> reconcile_schedules web rl sha (events \<circ> Suc) ts s)
           | _ \<Rightarrow> (Inl KeyError, s, events)))"

definition registration_body :: "worker \<Rightarrow> pydict" where
  "registration_body s =
     [(skey ''runtime_id'', PStr (w_runtime_id s)), (skey ''tasks'', PList (map PStr (dkeys (w_tasks s)))),
      (skey ''capacity'', PInt (w_capacity s)), (skey ''queue'', PStr (w_queue s))]"

definition register_session ::
  "web \<Rightarrow> nat \<Rightarrow> (bytes \<Rightarrow> pystr) \<Rightarrow> events \<Rightarrow> worker \<Rightarrow> unit res \<times> worker" where
  "register_session web rl sha events s =
     (if w_closing s then (Inl ConnectionLost, s)
      else if w_token s \<noteq> None then (Inr (), s)
      else if w_tasks s = [] then (Inl ValidationError, s)
      else
        (case registration_request web rl (events 0) ''POST'' (str ''/workers'') (Some (registration_body s)) [] s of
           (Inl e, s) \<Rightarrow> (Inl e, s)
         | (Inr reply, s) \<Rightarrow>
             if w_closing s then (Inl ConnectionLost, s)
             else
               (case get_field reply ''worker_token'' of
                  PStr token \<Rightarrow>
                    if length token \<noteq> WORKER_TOKEN_LENGTH then (Inl ProtocolError, s)
                    else
                      (case reconcile_schedules web rl sha (events \<circ> Suc) (map snd (w_tasks s)) s of
                         (r, s, events') \<Rightarrow>
                           (case (case r of Inl e \<Rightarrow> Some e | Inr _ \<Rightarrow> if w_closing s then Some ConnectionLost else None) of
                              Some e \<Rightarrow>
                                (Inl e, snd (registration_request web rl (events' 0) ''DELETE'' (str ''/workers'') None (bearer token) s))
                            | None \<Rightarrow> (Inr (), s\<lparr>w_token := Some token\<rparr>)))
                | _ \<Rightarrow> (Inl ProtocolError, s))))"

text \<open>\<^verbatim>\<open>register\<close>; \<open>stopped\<close> says whether \<^verbatim>\<open>close()\<close> was called during the wait.\<close>

definition register ::
  "web \<Rightarrow> nat \<Rightarrow> (bytes \<Rightarrow> pystr) \<Rightarrow> bool \<Rightarrow> events \<Rightarrow> worker \<Rightarrow> unit res \<times> worker" where
  "register web rl sha stopped events s =
     register_session web rl sha events
       (if w_token s = None then
          (let s = retire_executions s in if stopped then s\<lparr>w_closing := True\<rparr> else s)
        else s)"

text \<open>\<^verbatim>\<open>close()\<close>: cancelled executions are awaited, so they have ended; the session is revoked.\<close>

definition worker_close :: "worker \<Rightarrow> worker" where
  "worker_close s =
     (let token = w_token s;
          ks = map snd (w_executions s);
          s = s\<lparr>w_closing := True, w_token := None\<rparr>;
          s = fold worker_finished ks (fold worker_cancel ks s);
          s = s\<lparr>w_executions := [], w_is_sync := []\<rparr>
      in case token of
           None \<Rightarrow> s
         | Some t \<Rightarrow> snd (worker_send ''DELETE'' (str ''/workers'') None (bearer t) s))"

subsection \<open>Serving\<close>

definition serve_forever :: "worker \<Rightarrow> unit res \<times> worker" where
  "serve_forever s =
     (if w_pc s \<noteq> Off then (Inl RuntimeError, s) else (Inr (), s\<lparr>w_closing := False, w_pc := Registering\<rparr>))"

text \<open>The run loop ends, by returning or by raising: \<^verbatim>\<open>serve_forever\<close> closes the worker.\<close>

definition leave_loop :: "worker \<Rightarrow> worker" where
  "leave_loop s = (worker_close s)\<lparr>w_pc := Off\<rparr>"

text \<open>An exception of \<^verbatim>\<open>register\<close> or of the claim.\<close>

definition turn_failed :: "exn \<Rightarrow> worker \<Rightarrow> worker" where
  "turn_failed e s =
     (case e of
        ConnectionLost \<Rightarrow> if w_closing s then leave_loop s else s\<lparr>w_pc := Registering\<rparr>
      | ServerExn _ _ code _ \<Rightarrow>
          if w_closing s then leave_loop s
          else if code = Some (str ''unknown_worker'') then s\<lparr>w_token := None, w_pc := Registering\<rparr>
          else if code = Some (str ''claim_in_progress'') then s\<lparr>w_pc := Registering\<rparr>
          else leave_loop s
      | _ \<Rightarrow> leave_loop s)"

text \<open>A turn of \<^verbatim>\<open>_run_loop\<close> up to the claim.\<close>

definition turn_begin ::
  "web \<Rightarrow> nat \<Rightarrow> (bytes \<Rightarrow> pystr) \<Rightarrow> bool \<Rightarrow> events \<Rightarrow> worker \<Rightarrow> worker" where
  "turn_begin web rl sha stopped events s =
     (if w_pc s \<noteq> Registering then s
      else if w_closing s then leave_loop s
      else
        (case register web rl sha stopped events s of
           (Inl e, s) \<Rightarrow> turn_failed e s
         | (Inr _, s) \<Rightarrow>
             (case worker_request ''POST'' (str ''/queues/'' @ w_queue s @ str ''/claim'') None None s of
                (Inl e, s) \<Rightarrow> turn_failed e s
              | (Inr _, s) \<Rightarrow> s\<lparr>w_pc := Claiming\<rparr>)))"

definition start_execution :: "pystr \<Rightarrow> pystr \<Rightarrow> pydict \<Rightarrow> worker \<Rightarrow> worker" where
  "start_execution execution name message s =
     (let k = length (w_runs s);
          sync = (case dget (w_tasks s) name of None \<Rightarrow> False | Some t \<Rightarrow> \<not> c_coroutine (t_function t))
      in s\<lparr>w_is_sync := dset (w_is_sync s) execution sync,
           w_runs := dset (w_runs s) k \<lparr>x_execution = execution, x_message = message, x_token = w_token s,
                                          x_phase = Fresh, x_cancel = False\<rparr>,
           w_executions := dset (w_executions s) execution k\<rparr>)"

text \<open>What the loop does with a claimed message.\<close>

definition handle_claim :: "pydict \<Rightarrow> worker \<Rightarrow> unit res \<times> worker" where
  "handle_claim message s =
     (let kind = get_field message ''type'' in
      if kind = skey ''execute'' then
        (case get_field message ''execution_id'' of
           PStr execution \<Rightarrow>
             if dget (w_executions s) execution \<noteq> None then (Inr (), s)
             else (case get_field message ''task'' of
                     PStr name \<Rightarrow> (Inr (), start_execution execution name message s)
                   | _ \<Rightarrow> (Inl ProtocolError, s))
         | _ \<Rightarrow> (Inl ProtocolError, s))
      else if kind = skey ''cancel_execution'' then
        (case get_field message ''execution_id'' of
           PStr key \<Rightarrow> (Inr (), worker_cancel_async key s)
         | _ \<Rightarrow> (Inl ProtocolError, s))
      else if message \<noteq> [] then (Inl ProtocolError, s)
      else (Inr (), s))"

definition claim_reply :: "web \<Rightarrow> nat \<Rightarrow> http_answer \<Rightarrow> worker \<Rightarrow> worker" where
  "claim_reply web rl answer s =
     (if w_pc s \<noteq> Claiming then s
      else
        (case http_receive web rl answer of
           Inl e \<Rightarrow> turn_failed e s
         | Inr message \<Rightarrow>
             if w_closing s then leave_loop s
             else (case handle_claim message s of
                     (Inl _, s) \<Rightarrow> leave_loop s
                   | (Inr _, s) \<Rightarrow> s\<lparr>w_pc := Registering\<rparr>)))"

subsection \<open>The transition system\<close>

inductive worker_step ::
  "web \<Rightarrow> nat \<Rightarrow> (bytes \<Rightarrow> pystr) \<Rightarrow> (exn \<Rightarrow> failure) \<Rightarrow> worker \<Rightarrow> worker \<Rightarrow> bool" for web rl sha desc where
  new_task: "worker_step web rl sha desc s (snd (worker_task f name raw s))"
| withdraw: "worker_step web rl sha desc s (s\<lparr>w_http := (w_http s)\<lparr>h_withdrawn := ids\<rparr>\<rparr>)"
| registers: "worker_step web rl sha desc s (snd (register web rl sha stopped events s))"
| serves: "worker_step web rl sha desc s (snd (serve_forever s))"
| turn: "worker_step web rl sha desc s (turn_begin web rl sha stopped events s)"
| claimed: "worker_step web rl sha desc s (claim_reply web rl answer s)"
| begins: "worker_step web rl sha desc s (execute_begin k s)"
| started: "worker_step web rl sha desc s (execute_started web rl answer k s)"
| awaitable: "dget (w_runs s) k = Some r \<Longrightarrow>
     worker_step web rl sha desc s (snd (worker_awaitable_started (x_execution r) (session_of r s) s))"
| settles: "worker_step web rl sha desc s (execute_settle desc outcome k s)"
| ends: "worker_step web rl sha desc s (execute_end k s)"
| closes: "worker_step web rl sha desc s (worker_close s)"
| cancelled: "w_closing s \<Longrightarrow> worker_step web rl sha desc s (leave_loop s)"

abbreviation worker_reachable ::
  "web \<Rightarrow> nat \<Rightarrow> (bytes \<Rightarrow> pystr) \<Rightarrow> (exn \<Rightarrow> failure) \<Rightarrow> worker \<Rightarrow> worker \<Rightarrow> bool" where
  "worker_reachable web rl sha desc \<equiv> reaches (worker_step web rl sha desc)"

inductive_cases worker_stepE: "worker_step web rl sha desc s s'"

subsection \<open>The invariant\<close>

text \<open>An entry of the table of executions is an unfinished run of that id which belongs to the
  current session, if there is one.\<close>

definition xentry_ok :: "pystr option \<Rightarrow> (nat, xrun) dict \<Rightarrow> pystr \<times> nat \<Rightarrow> bool" where
  "xentry_ok token rs x \<longleftrightarrow> (\<exists>r. dget rs (snd x) = Some r \<and> x_execution r = fst x \<and> x_phase r \<noteq> Ended
     \<and> (token = None \<or> x_token r = token))"

definition xtable_ok :: "pystr option \<Rightarrow> (pystr, nat) dict \<Rightarrow> (nat, xrun) dict \<Rightarrow> bool" where
  "xtable_ok token ex rs \<longleftrightarrow> dkeys rs = [0..<length rs] \<and> distinct (dkeys ex) \<and> list_all (xentry_ok token rs) ex"

definition session_ok :: "worker \<Rightarrow> bool" where
  "session_ok s \<longleftrightarrow> (\<forall>t. w_token s = Some t \<longrightarrow> length t = WORKER_TOKEN_LENGTH)
     \<and> (w_pc s = Claiming \<longrightarrow> w_token s \<noteq> None \<or> w_closing s)"

definition worker_ok :: "worker \<Rightarrow> bool" where
  "worker_ok s \<longleftrightarrow> xtable_ok (w_token s) (w_executions s) (w_runs s) \<and> session_ok s \<and> registry_ok (w_self s) (w_tasks s)"

lemma xtable_ok_None: "xtable_ok token ex rs \<Longrightarrow> xtable_ok None ex rs"
  unfolding xtable_ok_def list_all_iff xentry_ok_def by blast

lemma xtable_ok_Nil: "xtable_ok token ex rs \<Longrightarrow> xtable_ok token' [] rs"
  by (simp add: xtable_ok_def)

lemma xtable_ok_pop: "xtable_ok token ex rs \<Longrightarrow> xtable_ok token (dpop ex e) rs"
  by (auto simp: xtable_ok_def list_all_iff dpop_def distinct_map_filter)

lemma xtable_ok_set:
  assumes "xtable_ok token ex rs" and "dget rs k = Some r" and "x_execution r' = x_execution r"
    and "x_token r' = x_token r \<or> (x_token r = None \<and> x_token r' = token)"
    and "x_phase r' \<noteq> Ended \<or> k \<notin> set (map snd ex)"
  shows "xtable_ok token ex (dset rs k r')"
proof -
  have n: "dkeys rs = [0..<length rs]" using assms(1) by (simp add: xtable_ok_def)
  have "xentry_ok token (dset rs k r') x" if x: "x \<in> set ex" for x
  proof -
    have "xentry_ok token rs x" using assms(1) x by (simp add: xtable_ok_def list_all_iff)
    moreover have "snd x = k \<Longrightarrow> k \<in> set (map snd ex)" using x by auto
    ultimately show ?thesis using assms(2-5) by (auto simp: xentry_ok_def)
  qed
  then show ?thesis
    using assms(1) numbered_dset [OF n assms(2), of r'] by (simp add: xtable_ok_def list_all_iff)
qed

lemma xtable_ok_add:
  assumes "xtable_ok token ex rs" and "dget ex e = None" and "x_execution r = e" and "x_token r = token" and "x_phase r \<noteq> Ended"
  shows "xtable_ok token (dset ex e (length rs)) (dset rs (length rs) r)"
proof -
  have n: "dkeys rs = [0..<length rs]" and old: "list_all (xentry_ok token rs) ex" and d: "distinct (dkeys ex)"
    using assms(1) by (simp_all add: xtable_ok_def)
  have fresh: "e \<notin> set (dkeys ex)" using assms(2) by (simp add: map_of_eq_None_iff)
  have "xentry_ok token (rs @ [(length rs, r)]) x" if "xentry_ok token rs x" for x
    using that numbered_None [OF n, of "length rs"] unfolding xentry_ok_def numbered_append [OF n] by auto
  moreover have "xentry_ok token (rs @ [(length rs, r)]) (e, length rs)"
    using assms(3-5) unfolding xentry_ok_def numbered_append [OF n] by simp
  ultimately have "list_all (xentry_ok token (rs @ [(length rs, r)])) (ex @ [(e, length rs)])"
    using old by (auto simp: list_all_iff)
  with n d fresh show ?thesis
    unfolding dkeys_dset_fresh [OF fresh] numbered_fresh [OF n] xtable_ok_def by simp
qed

lemma xtable_ok_finished:
  assumes "xtable_ok token ex rs" and "dget rs k = Some r"
  shows "xtable_ok token (dpop ex (x_execution r)) (dset rs k (r\<lparr>x_phase := Ended\<rparr>))"
proof (rule xtable_ok_set [OF xtable_ok_pop [OF assms(1)] assms(2)])
  have "k \<notin> set (map snd (dpop ex (x_execution r)))"
  proof
    assume "k \<in> set (map snd (dpop ex (x_execution r)))"
    then obtain e where "(e, k) \<in> set ex" "e \<noteq> x_execution r" by (auto simp: dpop_def)
    with assms show False by (auto simp: xtable_ok_def list_all_iff xentry_ok_def)
  qed
  then show "x_phase (r\<lparr>x_phase := Ended\<rparr>) \<noteq> Ended \<or> k \<notin> set (map snd (dpop ex (x_execution r)))" by simp
qed simp_all

lemma worker_okI:
  "xtable_ok (w_token s) (w_executions s) (w_runs s) \<Longrightarrow> session_ok s \<Longrightarrow> registry_ok (w_self s) (w_tasks s) \<Longrightarrow> worker_ok s"
  by (simp add: worker_ok_def)

lemma worker_okD:
  assumes "worker_ok s"
  shows "xtable_ok (w_token s) (w_executions s) (w_runs s)" and "session_ok s" and "registry_ok (w_self s) (w_tasks s)"
  using assms by (simp_all add: worker_ok_def)

lemma worker_ok_http: "worker_ok (s\<lparr>w_http := h\<rparr>) = worker_ok s"
  by (simp add: worker_ok_def session_ok_def)

lemma worker_ok_sync: "worker_ok (s\<lparr>w_is_sync := d\<rparr>) = worker_ok s"
  by (simp add: worker_ok_def session_ok_def)

lemma worker_send_state: "\<exists>h. snd (worker_send verb path body headers s) = s\<lparr>w_http := h\<rparr>"
  by (auto simp: worker_send_def split: prod.split)

lemma worker_send_ok: "worker_ok s \<Longrightarrow> worker_ok (snd (worker_send verb path body headers s))"
  using worker_send_state [of verb path body headers s] worker_ok_http by metis

lemma worker_request_state: "\<exists>h. snd (worker_request verb path body t s) = s\<lparr>w_http := h\<rparr>"
proof -
  have "\<exists>h. s = s\<lparr>w_http := h\<rparr>" by (rule exI [of _ "w_http s"]) simp
  then show ?thesis using worker_send_state by (auto simp: worker_request_def split: option.split)
qed

lemma worker_request_ok: "worker_ok s \<Longrightarrow> worker_ok (snd (worker_request verb path body t s))"
  using worker_request_state [of verb path body t s] worker_ok_http by metis

lemma worker_cancel_ok: "worker_ok s \<Longrightarrow> worker_ok (worker_cancel k s)"
proof (cases "dget (w_runs s) k")
  case (Some r)
  assume ok: "worker_ok s"
  have "xtable_ok (w_token s) (w_executions s) (dset (w_runs s) k (r\<lparr>x_cancel := True\<rparr>))" if "x_phase r \<noteq> Ended \<or> k \<notin> set (map snd (w_executions s))"
    using that by (intro xtable_ok_set [OF worker_okD(1) [OF ok] Some]) simp_all
  moreover have "x_phase r \<noteq> Ended \<or> k \<notin> set (map snd (w_executions s))"
    using worker_okD(1) [OF ok] Some by (auto simp: xtable_ok_def list_all_iff xentry_ok_def)
  ultimately show ?thesis
    using Some ok by (intro worker_okI) (auto simp: worker_cancel_def worker_ok_def session_ok_def)
qed (simp add: worker_cancel_def)

lemma worker_cancel_async_ok: "worker_ok s \<Longrightarrow> worker_ok (worker_cancel_async k s)"
  by (auto simp: worker_cancel_async_def Let_def worker_cancel_ok split: option.splits)

lemma worker_finished_ok: "worker_ok s \<Longrightarrow> worker_ok (worker_finished k s)"
proof (cases "dget (w_runs s) k")
  case (Some r)
  assume ok: "worker_ok s"
  from xtable_ok_finished [OF worker_okD(1) [OF ok] Some] ok Some show ?thesis
    by (intro worker_okI) (simp_all add: worker_finished_def worker_ok_def session_ok_def)
qed (simp add: worker_finished_def)

lemma worker_fold_ok: "(\<And>x s. worker_ok s \<Longrightarrow> worker_ok (f x s)) \<Longrightarrow> worker_ok s \<Longrightarrow> worker_ok (fold f xs s)"
  by (induction xs arbitrary: s) simp_all

subsection \<open>Every operation keeps the invariant\<close>

text \<open>The asyncio tasks that are awaited leave the table.\<close>

lemma finished_executions:
  assumes "worker_ok s"
  shows "set (w_executions (worker_finished k s)) \<subseteq> {x \<in> set (w_executions s). snd x \<noteq> k}"
proof
  fix x
  assume x: "x \<in> set (w_executions (worker_finished k s))"
  then have old: "x \<in> set (w_executions s)" by (auto simp: worker_finished_def dpop_def split: option.splits)
  then obtain r where r: "dget (w_runs s) (snd x) = Some r" "x_execution r = fst x"
    using worker_okD(1) [OF assms] by (auto simp: xtable_ok_def list_all_iff xentry_ok_def)
  have "snd x \<noteq> k"
  proof
    assume "snd x = k"
    with r x show False by (auto simp: worker_finished_def dpop_def)
  qed
  with old show "x \<in> {x \<in> set (w_executions s). snd x \<noteq> k}" by simp
qed

lemma fold_finished_executions:
  "worker_ok s \<Longrightarrow> set (w_executions (fold worker_finished ks s)) \<subseteq> {x \<in> set (w_executions s). snd x \<notin> set ks}"
proof (induction ks arbitrary: s)
  case (Cons k ks)
  from Cons.IH [OF worker_finished_ok [OF Cons.prems], of k] finished_executions [OF Cons.prems, of k] show ?case by fastforce
qed simp

lemma worker_cancel_executions [simp]: "w_executions (worker_cancel k s) = w_executions s" "w_token (worker_cancel k s) = w_token s"
  by (simp_all add: worker_cancel_def split: option.split)

lemma worker_cancel_async_executions [simp]:
  "w_executions (worker_cancel_async k s) = w_executions s" "w_token (worker_cancel_async k s) = w_token s"
  by (simp_all add: worker_cancel_async_def Let_def split: option.split)

lemma worker_finished_token [simp]: "w_token (worker_finished k s) = w_token s"
  by (simp add: worker_finished_def split: option.split)

lemma fold_keeps: "(\<And>x s. g (f x s) = g s) \<Longrightarrow> g (fold f xs s) = g s"
  by (induction xs arbitrary: s) simp_all

lemma retire_executions_ok:
  assumes "worker_ok s"
  shows "worker_ok (retire_executions s)" and "w_executions (retire_executions s) = []"
    and "w_token (retire_executions s) = w_token s"
proof -
  let ?s = "fold worker_cancel_async (map fst (w_executions s)) s"
  have ok: "worker_ok ?s" using assms by (intro worker_fold_ok worker_cancel_async_ok)
  then show "worker_ok (retire_executions s)"
    unfolding retire_executions_def Let_def by (rule worker_fold_ok [rotated]) (rule worker_finished_ok)
  have "w_executions ?s = w_executions s" by (rule fold_keeps) simp
  then show "w_executions (retire_executions s) = []"
    using fold_finished_executions [OF ok, of "map snd (w_executions s)"]
    by (simp add: retire_executions_def Let_def image_def subset_eq) (metis last_in_set)
  show "w_token (retire_executions s) = w_token s"
    by (simp add: retire_executions_def Let_def fold_keeps [of w_token])
qed

text \<open>What the requests of a registration change.\<close>

definition registering :: "worker \<Rightarrow> worker \<Rightarrow> bool" where
  "registering s s' \<longleftrightarrow> w_executions s' = w_executions s \<and> w_runs s' = w_runs s \<and> w_tasks s' = w_tasks s \<and> w_self s' = w_self s
     \<and> w_pc s' = w_pc s \<and> w_queue s' = w_queue s \<and> (w_closing s \<longrightarrow> w_closing s')
     \<and> (w_token s' = w_token s \<or> (w_token s' = None \<and> w_closing s'))"

lemma registering_refl [simp]: "registering s s"
  by (simp add: registering_def)

lemma registering_trans: "registering s t \<Longrightarrow> registering t u \<Longrightarrow> registering s u"
  unfolding registering_def by auto

lemma registering_ok: "registering s s' \<Longrightarrow> worker_ok s \<Longrightarrow> worker_ok s'"
  by (auto simp: registering_def worker_ok_def session_ok_def intro: xtable_ok_None)

lemma registering_fields:
  assumes "registering s s'"
  shows "w_executions s' = w_executions s" "w_token s = None \<longrightarrow> w_token s' = None"
  using assms by (auto simp: registering_def)

lemma registering_request: "registering s (snd (registration_request web rl event verb path body headers s))"
proof -
  obtain r t where t: "worker_send verb path body headers s = (r, t)" by fastforce
  then obtain h where "t = s\<lparr>w_http := h\<rparr>" using worker_send_state [of verb path body headers s] by auto
  with t show ?thesis
    by (cases r) (auto simp: registration_request_def registering_def)
qed

lemma registering_reconcile:
  "reconcile_schedules web rl sha events ts s = (r, s', events') \<Longrightarrow> registering s s'"
proof (induction ts arbitrary: s events)
  case (Cons t ts)
  show ?case
  proof (cases "\<exists>d i. static_schedule_declaration sha t = Inr (Some d) \<and> get_field d ''declaration_id'' = PStr i
      \<and> i \<notin> set (h_withdrawn (w_http s))")
    case True
    then obtain d i where d: "static_schedule_declaration sha t = Inr (Some d)" "get_field d ''declaration_id'' = PStr i"
      "i \<notin> set (h_withdrawn (w_http s))" by blast
    obtain x u where u: "registration_request web rl (events 0) ''POST'' (str ''/schedules'') (Some d) [] s = (x, u)" by fastforce
    then have "registering s u" using registering_request [of s web rl "events 0" "''POST''" "str ''/schedules''" "Some d" "[]"] by simp
    with Cons d u show ?thesis by (auto split: sum.splits intro: registering_trans)
  next
    case False
    with Cons show ?thesis by (auto split: sum.splits option.splits pyval.splits if_splits)
  qed
qed simp

lemma register_session_ok:
  assumes "worker_ok s" and "w_token s = None \<longrightarrow> w_executions s = []"
  shows "worker_ok (snd (register_session web rl sha events s))"
proof -
  let ?post = "registration_request web rl (events 0) ''POST'' (str ''/workers'') (Some (registration_body s)) [] s"
  obtain r t where t: "?post = (r, t)" by fastforce
  then have rt: "registering s t" using registering_request [of s web rl "events 0"] by (metis snd_conv)
  obtain x u events' where u: "reconcile_schedules web rl sha (events \<circ> Suc) (map snd (w_tasks t)) t = (x, u, events')"
    by (metis prod_cases3)
  have ru: "registering s u" using registering_trans [OF rt registering_reconcile [OF u]] .
  note ok = assms(1) registering_ok [OF rt assms(1)] registering_ok [OF ru assms(1)]
  have final: "worker_ok (u\<lparr>w_token := Some token\<rparr>)" if "w_token s = None" "length token = WORKER_TOKEN_LENGTH" for token
  proof -
    have "w_executions u = []" using that assms(2) registering_fields [OF ru] by simp
    with ok(3) that(2) show ?thesis by (auto simp: worker_ok_def session_ok_def intro: xtable_ok_Nil)
  qed
  have last: "worker_ok (snd (registration_request web rl (events' 0) ''DELETE'' (str ''/workers'') None (bearer token) u))" for token
    using registering_ok [OF registering_request ok(3)] .
  show ?thesis
    using ok final last t u by (auto simp: register_session_def split: sum.splits pyval.splits option.splits)
qed

lemma register_ok: "worker_ok s \<Longrightarrow> worker_ok (snd (register web rl sha stopped events s))"
proof -
  assume ok: "worker_ok s"
  note retired = retire_executions_ok [OF ok]
  have "worker_ok ((retire_executions s)\<lparr>w_closing := True\<rparr>)"
    using retired(1) by (simp add: worker_ok_def session_ok_def)
  with ok retired show ?thesis
    unfolding register_def Let_def by (intro register_session_ok) (auto split: if_splits)
qed

lemma worker_close_ok: "worker_ok s \<Longrightarrow> worker_ok (worker_close s)"
proof -
  assume ok: "worker_ok s"
  let ?s1 = "s\<lparr>w_closing := True, w_token := None\<rparr>" and ?ks = "map snd (w_executions s)"
  let ?s2 = "fold worker_finished ?ks (fold worker_cancel ?ks ?s1)"
  have "worker_ok ?s1" using ok by (auto simp: worker_ok_def session_ok_def intro: xtable_ok_None)
  then have "worker_ok ?s2" by (intro worker_fold_ok worker_finished_ok worker_cancel_ok)
  then have "worker_ok (?s2\<lparr>w_executions := [], w_is_sync := []\<rparr>)"
    by (auto simp: worker_ok_def session_ok_def intro: xtable_ok_Nil)
  then show ?thesis using worker_send_ok by (simp add: worker_close_def Let_def split: option.split)
qed

lemma worker_close_token: "w_token (worker_close s) = None" "w_executions (worker_close s) = []" "w_closing (worker_close s)"
proof -
  let ?s1 = "s\<lparr>w_closing := True, w_token := None\<rparr>" and ?ks = "map snd (w_executions s)"
  let ?s3 = "(fold worker_finished ?ks (fold worker_cancel ?ks ?s1))\<lparr>w_executions := [], w_is_sync := []\<rparr>"
  have f: "w_token ?s3 = None \<and> w_executions ?s3 = [] \<and> w_closing ?s3"
  proof -
    have "w_closing (worker_finished k t) = w_closing t" "w_closing (worker_cancel k t) = w_closing t" for k t
      by (simp_all add: worker_finished_def worker_cancel_def split: option.split)
    then show ?thesis by (simp add: fold_keeps [of w_token] fold_keeps [of w_closing])
  qed
  obtain h where "\<forall>t. w_token s = Some t \<longrightarrow> snd (worker_send ''DELETE'' (str ''/workers'') None (bearer t) ?s3) = ?s3\<lparr>w_http := h\<rparr>"
    using worker_send_state [of "''DELETE''" "str ''/workers''" None _ ?s3] by (cases "w_token s") auto
  with f show "w_token (worker_close s) = None" "w_executions (worker_close s) = []" "w_closing (worker_close s)"
    by (simp_all add: worker_close_def Let_def split: option.split)
qed

lemma leave_loop_ok: "worker_ok s \<Longrightarrow> worker_ok (leave_loop s)"
  using worker_close_ok [of s] by (simp add: leave_loop_def worker_ok_def session_ok_def)

lemma turn_failed_ok: "worker_ok s \<Longrightarrow> worker_ok (turn_failed e s)"
proof -
  assume ok: "worker_ok s"
  have "worker_ok (s\<lparr>w_pc := Registering\<rparr>)" "worker_ok (s\<lparr>w_token := None, w_pc := Registering\<rparr>)"
    using ok by (auto simp: worker_ok_def session_ok_def intro: xtable_ok_None)
  with leave_loop_ok [OF ok] show ?thesis by (simp add: turn_failed_def split: exn.split)
qed

lemma turn_begin_ok: "worker_ok s \<Longrightarrow> worker_ok (turn_begin web rl sha stopped events s)"
proof -
  assume ok: "worker_ok s"
  obtain r t where t: "register web rl sha stopped events s = (r, t)" by fastforce
  have t_ok: "worker_ok t" using register_ok [OF ok, of web rl sha stopped events] t by simp
  obtain x u where u: "worker_request ''POST'' (str ''/queues/'' @ w_queue t @ str ''/claim'') None None t = (x, u)" by fastforce
  then obtain h where h: "u = t\<lparr>w_http := h\<rparr>"
    using worker_request_state [of "''POST''" "str ''/queues/'' @ w_queue t @ str ''/claim''" None None t] by auto
  have u_ok: "worker_ok u" using t_ok h by (simp add: worker_ok_http)
  have "worker_ok (u\<lparr>w_pc := Claiming\<rparr>)" if "x = Inr ()"
  proof -
    have "w_token t \<noteq> None" using u that by (auto simp: worker_request_def split: option.splits)
    with u_ok h show ?thesis by (simp add: worker_ok_def session_ok_def)
  qed
  with t u ok t_ok u_ok show ?thesis
    by (auto simp: turn_begin_def leave_loop_ok turn_failed_ok split: sum.splits)
qed

lemma start_execution_ok:
  assumes "worker_ok s" and "dget (w_executions s) e = None"
  shows "worker_ok (start_execution e name m s)"
  using worker_okD [OF assms(1)] xtable_ok_add [OF worker_okD(1) [OF assms(1)] assms(2)]
  by (intro worker_okI) (simp_all add: start_execution_def Let_def session_ok_def)

lemma handle_claim_ok: "worker_ok s \<Longrightarrow> worker_ok (snd (handle_claim m s))"
  by (auto simp: handle_claim_def Let_def start_execution_ok worker_cancel_async_ok split: pyval.splits)

lemma claim_reply_ok: "worker_ok s \<Longrightarrow> worker_ok (claim_reply web rl answer s)"
proof -
  assume ok: "worker_ok s"
  have "worker_ok (t\<lparr>w_pc := Registering\<rparr>)" if "worker_ok t" for t
    using that by (simp add: worker_ok_def session_ok_def)
  with ok show ?thesis
    using handle_claim_ok [OF ok]
    by (auto simp: claim_reply_def leave_loop_ok turn_failed_ok split: sum.splits prod.splits) (metis leave_loop_ok snd_conv)+
qed

lemma run_phase_ok:
  assumes "worker_ok s" and "dget (w_runs s) k = Some r" and "x_phase r \<noteq> Ended" and "p \<noteq> Ended"
    and "t = x_token r \<or> (x_token r = None \<and> t = w_token s)"
  shows "worker_ok (s\<lparr>w_runs := dset (w_runs s) k (r\<lparr>x_phase := p, x_token := t\<rparr>)\<rparr>)"
proof -
  have "xtable_ok (w_token s) (w_executions s) (dset (w_runs s) k (r\<lparr>x_phase := p, x_token := t\<rparr>))"
    using assms(4,5) by (intro xtable_ok_set [OF worker_okD(1) [OF assms(1)] assms(2)]) auto
  with assms(1) show ?thesis by (simp add: worker_ok_def session_ok_def)
qed

lemma await_answer_ok:
  assumes "worker_ok s" and "dget (w_runs s) k = Some r" and "x_phase r \<noteq> Ended" and "p \<noteq> Ended"
    and "session_of r s = tok"
  shows "worker_ok (await_answer k (r\<lparr>x_phase := p, x_token := tok\<rparr>) (worker_request verb path body t s))"
proof -
  obtain x u where u: "worker_request verb path body t s = (x, u)" by fastforce
  then obtain h where h: "u = s\<lparr>w_http := h\<rparr>" using worker_request_state [of verb path body t s] by auto
  have "worker_ok (u\<lparr>w_runs := dset (w_runs u) k (r\<lparr>x_phase := p, x_token := tok\<rparr>)\<rparr>)"
    using assms h by (intro run_phase_ok) (auto simp: worker_ok_http session_of_def split: if_splits)
  moreover have "worker_ok u" using assms(1) h by (simp add: worker_ok_http)
  ultimately show ?thesis using u by (auto simp: await_answer_def worker_finished_ok split: sum.split)
qed

lemma execute_begin_ok: "worker_ok s \<Longrightarrow> worker_ok (execute_begin k s)"
  by (auto simp: execute_begin_def worker_finished_ok await_answer_ok split: option.splits sum.splits pyval.splits)

lemma execute_started_ok: "worker_ok s \<Longrightarrow> worker_ok (execute_started web rl answer k s)"
proof (cases "dget (w_runs s) k")
  case (Some r)
  assume ok: "worker_ok s"
  have "worker_ok (s\<lparr>w_runs := dset (w_runs s) k (r\<lparr>x_phase := Running\<rparr>)\<rparr>)" if "x_phase r = Announced"
    using run_phase_ok [OF ok Some, of Running "x_token r"] that by simp
  with ok Some show ?thesis by (auto simp: execute_started_def worker_finished_ok)
qed (simp add: execute_started_def)

lemma execute_settle_ok: "worker_ok s \<Longrightarrow> worker_ok (execute_settle desc outcome k s)"
  by (auto simp: execute_settle_def worker_finished_ok await_answer_ok split: option.splits sum.splits)

lemma execute_end_ok: "worker_ok s \<Longrightarrow> worker_ok (execute_end k s)"
  by (auto simp: execute_end_def worker_finished_ok split: option.split)

lemma worker_awaitable_ok: "worker_ok s \<Longrightarrow> worker_ok (snd (worker_awaitable_started key t s))"
  by (simp add: worker_awaitable_started_def Let_def worker_ok_sync)

lemma worker_task_ok: "worker_ok s \<Longrightarrow> worker_ok (snd (worker_task f name raw s))"
  by (auto simp: worker_ok_def session_ok_def worker_task_def rbind_eq_Inr dest: register_task_Inr split: sum.splits)

lemma serve_forever_ok: "worker_ok s \<Longrightarrow> worker_ok (snd (serve_forever s))"
  by (simp add: serve_forever_def worker_ok_def session_ok_def)

lemma worker_step_ok: "worker_step web rl sha desc s s' \<Longrightarrow> worker_ok s \<Longrightarrow> worker_ok s'"
  by (induction rule: worker_step.induct)
    (simp_all add: worker_task_ok worker_ok_http register_ok serve_forever_ok turn_begin_ok claim_reply_ok execute_begin_ok
      execute_started_ok worker_awaitable_ok execute_settle_ok execute_end_ok worker_close_ok leave_loop_ok)

lemma worker_init_ok:
  assumes "worker_init web self uuid a queue c rid = Inr s"
  shows "worker_ok s"
  using assms by (auto simp: worker_init_def rbind_eq_Inr worker_ok_def xtable_ok_def session_ok_def)

interpretation worker_system: kept_by_steps "worker_step web rl sha desc" worker_ok for web rl sha desc
  by unfold_locales (rule worker_step_ok)

subsection \<open>What executions send\<close>

text \<open>Nothing, or one request that carries the token of the session the execution belongs to, which
  is the current one.\<close>

definition sends_as :: "pystr \<Rightarrow> worker \<Rightarrow> worker \<Rightarrow> bool" where
  "sends_as token s s' \<longleftrightarrow> h_log (w_http s') = h_log (w_http s) \<or>
     (w_token s = Some token \<and> (\<exists>m. h_log (w_http s') = h_log (w_http s) @ [m]
        \<and> dget (m_headers m) ''Authorization'' = Some (str ''Bearer '' @ token)))"

lemma worker_send_log:
  "h_log (w_http (snd (worker_send verb path body (bearer token) s))) = h_log (w_http s) \<or>
   (\<exists>m. h_log (w_http (snd (worker_send verb path body (bearer token) s))) = h_log (w_http s) @ [m] \<and> m_method m = verb
      \<and> m_url m = base_url (h_cfg (w_http s)) @ path \<and> dget (m_headers m) ''Authorization'' = Some (str ''Bearer '' @ token))"
  by (auto simp: worker_send_def http_send_def bearer_def split: sum.splits)

lemma worker_request_sends: "sends_as token s (snd (worker_request verb path body (Some token) s))"
  using worker_send_log [of verb path body token s] by (auto simp: worker_request_def sends_as_def)

lemma worker_finished_http [simp]: "w_http (worker_finished k s) = w_http s"
  by (simp add: worker_finished_def split: option.split)

lemma sends_as_simps [simp]:
  "sends_as token s s" "sends_as token s (worker_finished k t) = sends_as token s t"
  "sends_as token s (t\<lparr>w_runs := rs\<rparr>) = sends_as token s t"
  by (simp_all add: sends_as_def)

lemma await_answer_log: "h_log (w_http (await_answer k r x)) = h_log (w_http (snd x))"
  by (auto simp: await_answer_def split: prod.split sum.split)

lemma await_answer_sends:
  "tok = Some token \<Longrightarrow> sends_as token s (await_answer k r (worker_request verb path body tok s))"
  using worker_request_sends [of token s verb path body] by (simp add: sends_as_def await_answer_log)

lemma session_of_token: "x_token r = Some token \<Longrightarrow> session_of r s = Some token"
  by (simp add: session_of_def)

lemma execute_begin_sends:
  assumes "dget (w_runs s) k = Some r" and "x_token r = Some token"
  shows "sends_as token s (execute_begin k s)"
  unfolding execute_begin_def assms(1) option.case session_of_token [OF assms(2)]
  by (auto simp: await_answer_sends split: sum.split pyval.split)

lemma execute_settle_sends:
  assumes "dget (w_runs s) k = Some r" and "x_token r = Some token"
  shows "sends_as token s (execute_settle desc outcome k s)"
    and "w_closing s \<Longrightarrow> h_log (w_http (execute_settle desc outcome k s)) = h_log (w_http s)"
  unfolding execute_settle_def assms(1) option.case session_of_token [OF assms(2)]
  by (auto simp: await_answer_sends split: sum.split option.split)

section \<open>Properties\<close>

text \<open>C3: in every reachable state of a worker its executions are consistent and belong to its session: each
  entry of the table is an unfinished run of that id that was claimed under the current token (if
  there is one), tokens have the expected length, while a claim is outstanding there is a session
  or the worker is closing, and the registry is well formed.\<close>

theorem worker_invariant:
  assumes "worker_init web self uuid a queue c rid = Inr s0" and "worker_reachable web rl sha desc s0 s"
  shows "(\<forall>e k. dget (w_executions s) e = Some k \<longrightarrow> (\<exists>r. dget (w_runs s) k = Some r \<and> x_execution r = e \<and> x_phase r \<noteq> Ended
            \<and> (w_token s = None \<or> x_token r = w_token s)))
     \<and> (\<forall>t. w_token s = Some t \<longrightarrow> length t = 43) \<and> (w_pc s = Claiming \<longrightarrow> w_token s \<noteq> None \<or> w_closing s)
     \<and> registry_ok (w_self s) (w_tasks s)"
proof -
  have ok: "worker_ok s" using worker_system.reached_ok [OF assms(2) worker_init_ok [OF assms(1)]] .
  have "\<exists>r. dget (w_runs s) k = Some r \<and> x_execution r = e \<and> x_phase r \<noteq> Ended \<and> (w_token s = None \<or> x_token r = w_token s)"
    if "dget (w_executions s) e = Some k" for e k
  proof -
    have "(e, k) \<in> set (w_executions s)" using that by (rule map_of_SomeD)
    then have "xentry_ok (w_token s) (w_runs s) (e, k)" using worker_okD(1) [OF ok] by (simp add: xtable_ok_def list_all_iff)
    then show ?thesis by (simp add: xentry_ok_def)
  qed
  with worker_okD(2,3) [OF ok] show ?thesis by (simp add: session_ok_def WORKER_TOKEN_LENGTH_def)
qed

definition sample_worker :: worker where
  "sample_worker = \<lparr>w_http = \<lparr>h_cfg = \<lparr>base_url = str ''https://tay.example:8443'', http_timeout = Flt 30, uses_tls = True\<rparr>,
       h_withdrawn = [], h_log = []\<rparr>, w_self = 0, w_queue = str ''default'', w_capacity = 1, w_runtime_id = str ''w'',
     w_tasks = [], w_token = None, w_executions = [], w_is_sync = [], w_closing = False, w_pc = Off, w_runs = []\<rparr>"

lemma sample_worker_init:
  "worker_init plain_web 0 [] remote_args (skey ''default'') (PInt 1) (skey ''w'') = Inr sample_worker"
proof -
  have i: "identifier_check (skey ''w'') = Inr (str ''w'')" by (simp add: identifier_check_exact text_within_def text_eval)
  have q: "validate_task_name (skey ''default'') = Inr (str ''default'')"
    by (simp add: validate_task_name_def text_eval DEFAULT_MAX_TASK_NAME_BYTES_def)
  show ?thesis
    by (simp add: worker_init_def remote_init i q num_less_def MIN_WORKER_REQUEST_TIMEOUT_SECONDS_def MAX_WORKER_CAPACITY_def sample_worker_def)
qed

theorem worker_invariant_witness:
  "let s = snd (serve_forever (snd (worker_task (t_function star_task) PNone example_config sample_worker))) in
     w_pc s = Registering \<and> registry_ok (w_self s) (w_tasks s)"
proof -
  let ?s1 = "snd (worker_task (t_function star_task) PNone example_config sample_worker)"
  have "w_pc ?s1 = Off" by (auto simp: worker_task_def sample_worker_def split: sum.split)
  then have "w_pc (snd (serve_forever ?s1)) = Registering" by (simp add: serve_forever_def)
  moreover have "worker_reachable plain_web 40 (\<lambda>_. []) desc sample_worker (snd (serve_forever ?s1))" for desc
    by (rule reaches.next_step [OF reaches.next_step [OF reaches.start [of "worker_step plain_web 40 (\<lambda>_. []) desc"] worker_step.new_task] worker_step.serves])
  ultimately show ?thesis using worker_invariant [OF sample_worker_init] unfolding Let_def by blast
qed

text \<open>C6: an execution is fenced by its session. Whatever it sends, announcing its start or its completion,
  carries the token of the session that claimed it, and is sent only while that session is the
  current one; once the worker is closing it sends no completion.\<close>

theorem worker_executions_fenced:
  assumes "dget (w_runs s) k = Some r" and "x_token r = Some token"
  shows "sends_as token s (execute_begin k s) \<and> sends_as token s (execute_settle desc outcome k s)
     \<and> (w_closing s \<longrightarrow> h_log (w_http (execute_settle desc outcome k s)) = h_log (w_http s))"
  using execute_begin_sends [OF assms] execute_settle_sends [OF assms] by blast

definition sample_claimed :: worker where
  "sample_claimed = sample_worker\<lparr>w_token := Some (replicate 43 65), w_executions := [(str ''e'', 0)],
     w_runs := [(0, \<lparr>x_execution = str ''e'', x_message = [(skey ''reservation_id'', skey ''v''), (skey ''execution_id'', skey ''e''),
        (skey ''task'', skey ''m.f'')], x_token = Some (replicate 43 65), x_phase = Running, x_cancel = False\<rparr>)]\<rparr>"

theorem worker_executions_fenced_witness:
  "sends_as (replicate 43 65) sample_claimed (execute_settle (\<lambda>_. \<lparr>f_type = [], f_message = None, f_traceback = None\<rparr>) (Inr PNone) 0 sample_claimed)
   \<and> length (h_log (w_http (execute_settle (\<lambda>_. \<lparr>f_type = [], f_message = None, f_traceback = None\<rparr>) (Inr PNone) 0 sample_claimed))) = 1"
proof -
  let ?body = "[(skey ''reservation_id'', skey ''v''), (skey ''execution_id'', skey ''e''), (skey ''outcome'', skey ''success''),
    (skey ''result'', PNone)]"
  have "is_ok (json_bytes (PDict ?body))" by (simp add: json_bytes_def json_eval)
  then obtain b where "json_bytes (PDict ?body) = Inr b" by (auto simp: is_ok_iff)
  then have "length (h_log (w_http (execute_settle (\<lambda>_. \<lparr>f_type = [], f_message = None, f_traceback = None\<rparr>) (Inr PNone) 0 sample_claimed))) = 1"
    by (simp add: execute_settle_def sample_claimed_def sample_worker_def completion_context_def has_field_def get_field_def
        completion_of_def session_of_def worker_request_def worker_send_def http_send_def await_answer_def)
  moreover have "dget (w_runs sample_claimed) 0 = Some \<lparr>x_execution = str ''e'', x_message = [(skey ''reservation_id'', skey ''v''),
      (skey ''execution_id'', skey ''e''), (skey ''task'', skey ''m.f'')], x_token = Some (replicate 43 65), x_phase = Running, x_cancel = False\<rparr>"
    by (simp add: sample_claimed_def)
  ultimately show ?thesis using worker_executions_fenced [of sample_claimed 0 _ "replicate 43 65"] by simp
qed

text \<open>Registration installs a session or leaves none behind. On success the worker has a token of the
  expected length and is not closing. On failure no token is installed, and if the server had
  issued one, the last request revokes it.\<close>

theorem register_session_outcome:
  assumes "w_token s = None" and "register_session web rl sha events s = (r, s')"
  shows "case r of
       Inr _ \<Rightarrow> (\<exists>t. w_token s' = Some t \<and> length t = 43) \<and> \<not> w_closing s'
     | Inl e \<Rightarrow> w_token s' = None \<and>
         (\<forall>reply t token. \<not> w_closing s \<and> w_tasks s \<noteq> [] \<and> \<not> w_closing t \<and> length token = 43 \<and>
            get_field reply ''worker_token'' = PStr token \<and>
            registration_request web rl (events 0) ''POST'' (str ''/workers'') (Some (registration_body s)) [] s = (Inr reply, t) \<longrightarrow>
            (\<exists>out m. h_log (w_http s') = out @ [m] \<and> m_method m = ''DELETE''
               \<and> m_url m = base_url (h_cfg (w_http s')) @ str ''/workers''
               \<and> dget (m_headers m) ''Authorization'' = Some (str ''Bearer '' @ token)))"
proof -
  let ?post = "registration_request web rl (events 0) ''POST'' (str ''/workers'') (Some (registration_body s)) [] s"
  obtain x t where t: "?post = (x, t)" by fastforce
  then have "registering s t" using registering_request [of s web rl "events 0"] by (metis snd_conv)
  then have tt: "w_token t = None" using assms(1) registering_fields(2) by blast
  obtain y u events' where u: "reconcile_schedules web rl sha (events \<circ> Suc) (map snd (w_tasks t)) t = (y, u, events')"
    by (metis prod_cases3)
  have ut: "w_token u = None" using registering_fields(2) [OF registering_reconcile [OF u]] tt by blast
  let ?del = "\<lambda>token. snd (registration_request web rl (events' 0) ''DELETE'' (str ''/workers'') None (bearer token) u)"
  have del: "w_token (?del token) = None" for token
    using registering_fields(2) [OF registering_request] ut by blast
  have revoked: "\<exists>out m. h_log (w_http (?del token)) = out @ [m] \<and> m_method m = ''DELETE''
      \<and> m_url m = base_url (h_cfg (w_http (?del token))) @ str ''/workers''
      \<and> dget (m_headers m) ''Authorization'' = Some (str ''Bearer '' @ token)" for token
    by (simp add: registration_request_def worker_send_def http_send_def bearer_def)
  show ?thesis
    using assms t u tt ut del revoked
    by (auto simp: register_session_def WORKER_TOKEN_LENGTH_def split: sum.splits pyval.splits option.splits if_splits)
qed

definition token_reply :: pydict where
  "token_reply = [(skey ''worker_token'', PStr (replicate 43 65))]"

definition token_bytes :: bytes where
  "token_bytes = map byte_of (str ''{\"worker_token\":\"'' @ replicate 43 65 @ str ''\"}'')"

lemma token_reply_bytes: "json_bytes (PDict token_reply) = Inr token_bytes"
  by (simp add: token_reply_def token_bytes_def json_bytes_def json_eval numeral_nat)

definition sample_ready :: worker where
  "sample_ready = sample_worker\<lparr>w_tasks := [(str ''m.f'', star_task\<lparr>t_config := example_config\<lparr>tc_cron := PNone\<rparr>\<rparr>)]\<rparr>"

definition sample_events :: events where
  "sample_events = (\<lambda>_. (Answered 200 token_bytes, False))"

lemma sample_receive: "http_receive plain_web 40 (Answered 200 token_bytes) = Inr token_reply"
  by (rule http_receive_json [OF token_reply_bytes])
    (simp_all add: token_reply_def plain_web_def token_bytes_def MAX_HTTP_RESPONSE_BYTES_def sort_items_def get_field_def)

theorem register_session_outcome_witness:
  "\<exists>s'. register_session plain_web 40 (\<lambda>_. []) sample_events sample_ready = (Inr (), s') \<and> \<not> w_closing s'
     \<and> (\<exists>t. w_token s' = Some t \<and> length t = 43)"
proof -
  have "is_ok (json_bytes (PDict (registration_body sample_ready)))"
    by (simp add: registration_body_def sample_ready_def sample_worker_def json_bytes_def json_eval)
  then obtain b where b: "json_bytes (PDict (registration_body sample_ready)) = Inr b" by (auto simp: is_ok_iff)
  have "fst (register_session plain_web 40 (\<lambda>_. []) sample_events sample_ready) = Inr ()"
    using b sample_receive
    by (simp add: register_session_def sample_events_def registration_request_def worker_send_def http_send_def get_field_def
        WORKER_TOKEN_LENGTH_def token_reply_def)
      (simp add: sample_ready_def sample_worker_def static_schedule_declaration_def has_schedule_def example_config_def)
  then obtain s' where s': "register_session plain_web 40 (\<lambda>_. []) sample_events sample_ready = (Inr (), s')"
    by (metis prod.collapse)
  have "w_token sample_ready = None" by (simp add: sample_ready_def sample_worker_def)
  from register_session_outcome [OF this s'] s' show ?thesis by auto
qed

lemma worker_send_delete:
  "\<exists>m. h_log (w_http (snd (worker_send ''DELETE'' path None (bearer t) s))) = h_log (w_http s) @ [m] \<and> m_method m = ''DELETE''
     \<and> dget (m_headers m) ''Authorization'' = Some (str ''Bearer '' @ t)"
  by (simp add: worker_send_def http_send_def bearer_def)

lemma fold_finished_ended:
  assumes "dget (w_runs s) k = Some r" and "k \<in> set ks \<or> x_phase r = Ended"
  shows "\<exists>r'. dget (w_runs (fold worker_finished ks s)) k = Some r' \<and> x_phase r' = Ended"
  using assms
proof (induction ks arbitrary: s r)
  case (Cons j ks)
  have "\<exists>r'. dget (w_runs (worker_finished j s)) k = Some r' \<and> (k = j \<or> x_phase r = Ended \<longrightarrow> x_phase r' = Ended)"
    using Cons.prems(1) by (cases "j = k") (auto simp: worker_finished_def split: option.split)
  then obtain r' where "dget (w_runs (worker_finished j s)) k = Some r'" "k = j \<or> x_phase r = Ended \<longrightarrow> x_phase r' = Ended" by blast
  with Cons.IH [of "worker_finished j s" r'] Cons.prems(2) show ?case by auto
qed simp

lemma fold_cancel_present:
  "dget (w_runs s) k = Some r \<Longrightarrow> \<exists>r'. dget (w_runs (fold worker_cancel ks s)) k = Some r'"
proof (induction ks arbitrary: s r)
  case (Cons j ks)
  have "\<exists>r'. dget (w_runs (worker_cancel j s)) k = Some r'"
    using Cons.prems by (auto simp: worker_cancel_def split: option.split)
  with Cons.IH [of "worker_cancel j s"] show ?case by auto
qed simp



end
