(* ===== verification/WorkerRuns.thy ===== *)
theory WorkerRuns
  imports HttpWorker
begin

section \<open>Executions of the HTTP worker over time\<close>

text \<open>
  What holds of the worker's executions along a whole execution of its transition system: an
  asyncio task only moves forward through its phases, keeps its message and its session, and one
  that has ended stays ended; and no execution id ever has two unfinished tasks.
\<close>

subsection \<open>Phases\<close>

fun xphase_rank :: "xphase \<Rightarrow> nat" where
  "xphase_rank Fresh = 0"
| "xphase_rank Announced = 1"
| "xphase_rank Running = 2"
| "xphase_rank Settling = 3"
| "xphase_rank Ended = 4"

lemma xphase_rank_inject: "xphase_rank p = xphase_rank q \<longleftrightarrow> p = q"
  by (cases p; cases q) simp_all

instantiation xphase :: linorder
begin

definition less_eq_xphase :: "xphase \<Rightarrow> xphase \<Rightarrow> bool" where
  "less_eq_xphase p q \<longleftrightarrow> xphase_rank p \<le> xphase_rank q"

definition less_xphase :: "xphase \<Rightarrow> xphase \<Rightarrow> bool" where
  "less_xphase p q \<longleftrightarrow> xphase_rank p < xphase_rank q"

instance
  by standard (auto simp: less_eq_xphase_def less_xphase_def xphase_rank_inject)

end

lemma xphase_le [simp]: "p \<le> Ended" "Fresh \<le> p" "p \<le> Settling \<longleftrightarrow> p \<noteq> Ended"
  by (cases p; simp add: less_eq_xphase_def)+

lemma xphase_order [simp]: "Announced \<le> Running" "Running \<le> Settling"
  by (simp_all add: less_eq_xphase_def)

lemma Ended_le [simp]: "Ended \<le> p \<longleftrightarrow> p = Ended"
  by (cases p) (simp_all add: less_eq_xphase_def)

text \<open>The same asyncio task at the same or a later phase, cancelled if it was, of the same session.\<close>

definition xrun_later :: "xrun \<Rightarrow> xrun \<Rightarrow> bool" where
  "xrun_later r r' \<longleftrightarrow> x_execution r' = x_execution r \<and> x_message r' = x_message r \<and> x_phase r \<le> x_phase r'
     \<and> (x_cancel r \<longrightarrow> x_cancel r') \<and> (x_token r = None \<or> x_token r' = x_token r)"

interpretation xrun_stages: stages xrun_later
  by unfold_locales (auto simp: xrun_later_def)

abbreviation xruns_later :: "worker \<Rightarrow> worker \<Rightarrow> bool" where
  "xruns_later s t \<equiv> table_later xrun_later (w_runs s) (w_runs t)"

declare xrun_stages.stage_refl [simp] xrun_stages.table_refl [simp]

lemmas xfold_later = xrun_stages.table_fold [where g = w_runs]

subsection \<open>Every operation moves forward\<close>

lemma worker_cancel_later: "xruns_later s (worker_cancel k s)"
  by (auto simp: worker_cancel_def xrun_later_def intro: xrun_stages.table_set split: option.splits)

lemma worker_cancel_async_later: "xruns_later s (worker_cancel_async k s)"
  by (auto simp: worker_cancel_async_def Let_def worker_cancel_later split: option.splits)

lemma worker_finished_later: "xruns_later s (worker_finished k s)"
  by (auto simp: worker_finished_def xrun_later_def intro: xrun_stages.table_set split: option.splits)

lemma retire_later: "xruns_later s (retire_executions s)"
  unfolding retire_executions_def Let_def
  by (rule xrun_stages.table_trans [OF xfold_later [OF worker_cancel_async_later] xfold_later [OF worker_finished_later]])

lemma worker_send_runs [simp]: "w_runs (snd (worker_send verb path body headers s)) = w_runs s"
  using worker_send_state [of verb path body headers s] by auto

lemma worker_request_runs [simp]: "w_runs (snd (worker_request verb path body t s)) = w_runs s"
  using worker_request_state [of verb path body t s] by auto

lemma worker_close_later: "xruns_later s (worker_close s)"
proof -
  let ?s1 = "s\<lparr>w_closing := True, w_token := None\<rparr>" and ?ks = "map snd (w_executions s)"
  have "xruns_later ?s1 (fold worker_finished ?ks (fold worker_cancel ?ks ?s1))"
    by (rule xrun_stages.table_trans [OF xfold_later [OF worker_cancel_later] xfold_later [OF worker_finished_later]])
  then show ?thesis by (simp add: worker_close_def Let_def split: option.split)
qed

lemma leave_loop_later: "xruns_later s (leave_loop s)"
  using worker_close_later by (simp add: leave_loop_def)

lemma turn_failed_later: "xruns_later s (turn_failed e s)"
  by (simp add: turn_failed_def leave_loop_later split: exn.split)

lemma register_session_runs [simp]: "w_runs (snd (register_session web rl sha events s)) = w_runs s"
proof -
  let ?post = "registration_request web rl (events 0) ''POST'' (str ''/workers'') (Some (registration_body s)) [] s"
  obtain r t where t: "?post = (r, t)" by fastforce
  then have rt: "w_runs t = w_runs s" using registering_request [of s web rl "events 0" "''POST''" "str ''/workers''" "Some (registration_body s)" "[]"]
    by (simp add: registering_def)
  obtain x u events' where u: "reconcile_schedules web rl sha (events \<circ> Suc) (map snd (w_tasks t)) t = (x, u, events')"
    by (metis prod_cases3)
  have ru: "w_runs u = w_runs t" using registering_reconcile [OF u] by (simp add: registering_def)
  have last: "w_runs (snd (registration_request web rl (events' 0) ''DELETE'' (str ''/workers'') None (bearer token) u)) = w_runs u" for token
    using registering_request [of u web rl "events' 0"] by (simp add: registering_def)
  show ?thesis
    using rt ru last t u by (auto simp: register_session_def split: sum.splits pyval.splits option.splits)
qed

lemma register_later: "xruns_later s (snd (register web rl sha stopped events s))"
  using retire_later by (simp add: register_def Let_def)

lemma turn_begin_later: "xruns_later s (turn_begin web rl sha stopped events s)"
proof -
  obtain r t where t: "register web rl sha stopped events s = (r, t)" by fastforce
  then have st: "xruns_later s t" using register_later [of s web rl sha stopped events] by simp
  obtain x u where u: "worker_request ''POST'' (str ''/queues/'' @ w_queue t @ str ''/claim'') None None t = (x, u)" by fastforce
  then have "w_runs u = w_runs t" using worker_request_runs [of "''POST''" "str ''/queues/'' @ w_queue t @ str ''/claim''" None None t] by simp
  then have "xruns_later s u" "xruns_later s (turn_failed e u)" "xruns_later s (turn_failed e t)" for e
    using st turn_failed_later [of u e] turn_failed_later [of t e] by (auto intro: xrun_stages.table_trans)
  with t u leave_loop_later show ?thesis by (auto simp: turn_begin_def split: sum.splits)
qed

lemma start_execution_later:
  assumes "worker_ok s"
  shows "xruns_later s (start_execution e name m s)"
proof -
  have "dget (w_runs s) (length (w_runs s)) = None" using worker_okD(1) [OF assms] by (simp add: xtable_ok_def numbered_None)
  then show ?thesis by (simp add: start_execution_def Let_def xrun_stages.table_fresh)
qed

lemma handle_claim_later: "worker_ok s \<Longrightarrow> xruns_later s (snd (handle_claim m s))"
  by (auto simp: handle_claim_def Let_def start_execution_later worker_cancel_async_later split: pyval.splits)

lemma claim_reply_later: "worker_ok s \<Longrightarrow> xruns_later s (claim_reply web rl answer s)"
proof -
  assume ok: "worker_ok s"
  have "xruns_later s (leave_loop t)" if "xruns_later s t" for t
    by (rule xrun_stages.table_trans [OF that leave_loop_later])
  with handle_claim_later [OF ok] show ?thesis
    by (auto simp: claim_reply_def leave_loop_later turn_failed_later split: sum.splits prod.splits) (metis snd_conv)+
qed

lemma await_answer_later:
  assumes "dget (w_runs s) k = Some r" and "xrun_later r r'"
  shows "xruns_later s (await_answer k r' (worker_request verb path body t s))"
proof -
  obtain x u where u: "worker_request verb path body t s = (x, u)" by fastforce
  then have "w_runs u = w_runs s" using worker_request_runs [of verb path body t s] by simp
  with u assms worker_finished_later [of u k] show ?thesis
    by (auto simp: await_answer_def xrun_stages.table_set split: sum.split)
qed

lemma execute_begin_later: "xruns_later s (execute_begin k s)"
  by (auto simp: execute_begin_def worker_finished_later xrun_later_def session_of_def intro!: await_answer_later
      split: option.splits sum.splits pyval.splits)

lemma execute_started_later: "xruns_later s (execute_started web rl answer k s)"
  by (auto simp: execute_started_def worker_finished_later xrun_later_def intro: xrun_stages.table_set split: option.splits)

lemma execute_settle_later: "xruns_later s (execute_settle desc outcome k s)"
  by (auto simp: execute_settle_def worker_finished_later xrun_later_def session_of_def intro!: await_answer_later
      split: option.splits sum.splits)

lemma execute_end_later: "xruns_later s (execute_end k s)"
  by (auto simp: execute_end_def worker_finished_later split: option.split)

lemma worker_step_later: "worker_step web rl sha desc s s' \<Longrightarrow> worker_ok s \<Longrightarrow> xruns_later s s'"
  by (induction rule: worker_step.induct)
    (simp_all add: worker_task_def register_later serve_forever_def turn_begin_later claim_reply_later execute_begin_later
      execute_started_later worker_awaitable_started_def Let_def execute_settle_later execute_end_later worker_close_later
      leave_loop_later split: sum.split)

interpretation worker_runs: ascending_steps "worker_step web rl sha desc" worker_ok xruns_later for web rl sha desc
  by unfold_locales (use worker_step_ok worker_step_later xrun_stages.table_trans in \<open>blast | simp\<close>)+

subsection \<open>One unfinished task per execution id\<close>

text \<open>Every unfinished asyncio task is the entry of its execution id.\<close>

definition live_ok :: "worker \<Rightarrow> bool" where
  "live_ok s \<longleftrightarrow> (\<forall>k r. dget (w_runs s) k = Some r \<and> x_phase r \<noteq> Ended \<longrightarrow> dget (w_executions s) (x_execution r) = Some k)"

definition all_ended :: "worker \<Rightarrow> bool" where
  "all_ended s \<longleftrightarrow> (\<forall>k r. dget (w_runs s) k = Some r \<longrightarrow> x_phase r = Ended)"

lemma all_ended_live: "all_ended s \<Longrightarrow> live_ok s"
  by (auto simp: all_ended_def live_ok_def)

lemma live_same: "live_ok s \<Longrightarrow> w_runs t = w_runs s \<Longrightarrow> w_executions t = w_executions s \<Longrightarrow> live_ok t"
  by (simp add: live_ok_def)

lemma live_set:
  "live_ok s \<Longrightarrow> dget (w_runs s) k = Some r \<Longrightarrow> x_execution r' = x_execution r \<Longrightarrow> x_phase r \<noteq> Ended \<or> x_phase r' = Ended \<Longrightarrow>
   live_ok (s\<lparr>w_runs := dset (w_runs s) k r'\<rparr>)"
  by (auto simp: live_ok_def split: if_splits)

lemma live_finished:
  assumes "live_ok s" and "dget (w_runs s) k = Some r" and "x_phase r \<noteq> Ended"
  shows "live_ok (worker_finished k s)"
proof -
  have entry: "dget (w_executions s) (x_execution r) = Some k" using assms by (simp add: live_ok_def)
  have "dget (dpop (w_executions s) (x_execution r)) (x_execution r') = Some j"
    if "dget (w_runs s) j = Some r'" "x_phase r' \<noteq> Ended" "j \<noteq> k" for j r'
  proof -
    have j: "dget (w_executions s) (x_execution r') = Some j" using assms(1) that(1,2) by (simp add: live_ok_def)
    then have "x_execution r' \<noteq> x_execution r" using entry that(3) by auto
    with j show ?thesis by simp
  qed
  then show ?thesis using assms(2) by (auto simp: live_ok_def worker_finished_def split: if_splits)
qed

lemma live_cancel: "live_ok s \<Longrightarrow> live_ok (worker_cancel k s)"
  by (auto simp: worker_cancel_def intro: live_set split: option.splits)

lemma live_cancel_async: "live_ok s \<Longrightarrow> live_ok (worker_cancel_async k s)"
  by (auto simp: worker_cancel_async_def Let_def live_cancel split: option.splits)

lemma live_fold: "(\<And>x s. live_ok s \<Longrightarrow> live_ok (f x s)) \<Longrightarrow> live_ok s \<Longrightarrow> live_ok (fold f xs s)"
  by (induction xs arbitrary: s) simp_all

lemma finished_unfinished:
  "dget (w_runs (worker_finished j t)) k = Some r \<Longrightarrow> x_phase r \<noteq> Ended \<Longrightarrow> dget (w_runs t) k = Some r \<and> k \<noteq> j"
  by (auto simp: worker_finished_def split: option.splits if_splits)

lemma fold_finished_unfinished:
  "dget (w_runs (fold worker_finished ks t)) k = Some r \<Longrightarrow> x_phase r \<noteq> Ended \<Longrightarrow> dget (w_runs t) k = Some r \<and> k \<notin> set ks"
  by (induction ks arbitrary: t) (auto dest: finished_unfinished)

lemma finish_all_ended:
  assumes "live_ok s" and "w_executions s = es"
  shows "all_ended (fold worker_finished (map snd es) s)"
  unfolding all_ended_def
proof (intro allI impI, rule ccontr)
  fix k r
  assume "dget (w_runs (fold worker_finished (map snd es) s)) k = Some r" "x_phase r \<noteq> Ended"
  then have "dget (w_runs s) k = Some r" "k \<notin> set (map snd es)" "x_phase r \<noteq> Ended" using fold_finished_unfinished by blast+
  moreover from this assms have "dget es (x_execution r) = Some k" by (simp add: live_ok_def)
  ultimately show False using map_of_SomeD by force
qed

lemma live_retire: "live_ok s \<Longrightarrow> all_ended (retire_executions s)"
  unfolding retire_executions_def Let_def
  by (rule finish_all_ended) (simp_all add: live_fold live_cancel_async fold_keeps [of w_executions])

lemma live_close: "live_ok s \<Longrightarrow> all_ended (worker_close s)"
proof -
  assume live: "live_ok s"
  let ?s1 = "s\<lparr>w_closing := True, w_token := None\<rparr>" and ?ks = "map snd (w_executions s)"
  have "live_ok (fold worker_cancel ?ks ?s1)" using live by (intro live_fold live_cancel) (simp_all add: live_ok_def)
  then have "all_ended (fold worker_finished ?ks (fold worker_cancel ?ks ?s1))"
    by (rule finish_all_ended) (simp add: fold_keeps [of w_executions])
  then show ?thesis by (simp add: worker_close_def Let_def all_ended_def split: option.split)
qed

lemma live_leave: "live_ok s \<Longrightarrow> live_ok (leave_loop s)"
  using all_ended_live [OF live_close] by (simp add: leave_loop_def live_ok_def)

lemma live_turn_failed: "live_ok s \<Longrightarrow> live_ok (turn_failed e s)"
  using live_leave by (auto simp: turn_failed_def intro: live_same split: exn.split)

lemma register_session_executions:
  "w_executions (snd (register_session web rl sha events s)) = w_executions s"
proof -
  let ?post = "registration_request web rl (events 0) ''POST'' (str ''/workers'') (Some (registration_body s)) [] s"
  obtain r t where t: "?post = (r, t)" by fastforce
  then have rt: "w_executions t = w_executions s"
    using registering_fields(1) [OF registering_request [of s web rl "events 0" "''POST''" "str ''/workers''" "Some (registration_body s)" "[]"]] by simp
  obtain x u events' where u: "reconcile_schedules web rl sha (events \<circ> Suc) (map snd (w_tasks t)) t = (x, u, events')"
    by (metis prod_cases3)
  note ru = registering_fields(1) [OF registering_reconcile [OF u]]
  have last: "w_executions (snd (registration_request web rl (events' 0) ''DELETE'' (str ''/workers'') None (bearer token) u)) = w_executions u" for token
    by (rule registering_fields(1) [OF registering_request])
  show ?thesis
    using rt ru last t u by (auto simp: register_session_def split: sum.splits pyval.splits option.splits)
qed

lemma live_register: "live_ok s \<Longrightarrow> live_ok (snd (register web rl sha stopped events s))"
proof -
  assume live: "live_ok s"
  have "live_ok (if w_token s = None then (let s = retire_executions s in if stopped then s\<lparr>w_closing := True\<rparr> else s) else s)"
    using live all_ended_live [OF live_retire [OF live]] by (auto simp: Let_def live_ok_def)
  then show ?thesis unfolding register_def by (rule live_same) (simp_all add: register_session_executions)
qed

lemma live_request: "live_ok s \<Longrightarrow> worker_request verb path body t s = (x, u) \<Longrightarrow> live_ok u"
  using worker_request_state [of verb path body t s] by (auto simp: live_ok_def)

lemma live_turn_begin: "live_ok s \<Longrightarrow> live_ok (turn_begin web rl sha stopped events s)"
proof -
  assume live: "live_ok s"
  obtain r t where t: "register web rl sha stopped events s = (r, t)" by fastforce
  then have lt: "live_ok t" using live_register [OF live, of web rl sha stopped events] by simp
  obtain x u where u: "worker_request ''POST'' (str ''/queues/'' @ w_queue t @ str ''/claim'') None None t = (x, u)" by fastforce
  have "live_ok (u\<lparr>w_pc := Claiming\<rparr>)" using live_request [OF lt u] by (simp add: live_ok_def)
  with t u live lt live_request [OF lt u] show ?thesis
    by (auto simp: turn_begin_def live_leave live_turn_failed split: sum.splits)
qed

lemma live_start:
  assumes "worker_ok s" and "live_ok s" and "dget (w_executions s) e = None"
  shows "live_ok (start_execution e name m s)"
proof -
  have "x_execution r \<noteq> e" if "dget (w_runs s) k = Some r" "x_phase r \<noteq> Ended" for k r
    using assms(2,3) that by (auto simp: live_ok_def)
  then show ?thesis using assms(2) by (auto simp: live_ok_def start_execution_def Let_def split: if_splits)
qed

lemma live_claim: "worker_ok s \<Longrightarrow> live_ok s \<Longrightarrow> live_ok (snd (handle_claim m s))"
  by (auto simp: handle_claim_def Let_def live_start live_cancel_async split: pyval.splits)

lemma live_claim_reply: "worker_ok s \<Longrightarrow> live_ok s \<Longrightarrow> live_ok (claim_reply web rl answer s)"
proof -
  assume ok: "worker_ok s" "live_ok s"
  have pc: "live_ok (t\<lparr>w_pc := Registering\<rparr>)" if "live_ok t" for t using that by (simp add: live_ok_def)
  show ?thesis
  proof (cases "http_receive web rl answer")
    case (Inr m)
    obtain x t where t: "handle_claim m s = (x, t)" by fastforce
    then have "live_ok t" using live_claim [OF ok, of m] by simp
    with t Inr ok(2) pc show ?thesis by (auto simp: claim_reply_def live_leave split: sum.split)
  qed (use ok in \<open>simp add: claim_reply_def live_turn_failed\<close>)
qed

lemma live_await:
  assumes "live_ok s" and "dget (w_runs s) k = Some r" and "x_phase r \<noteq> Ended" and "x_execution r' = x_execution r"
  shows "live_ok (await_answer k r' (worker_request verb path body t s))"
proof -
  obtain x u where u: "worker_request verb path body t s = (x, u)" by fastforce
  then have lu: "live_ok u" "dget (w_runs u) k = Some r"
    using live_request [OF assms(1) u] worker_request_runs [of verb path body t s] assms(2) by simp_all
  with u assms(3,4) show ?thesis by (auto simp: await_answer_def intro: live_set live_finished split: sum.split)
qed

lemma live_execute:
  "live_ok s \<Longrightarrow> live_ok (execute_begin k s)"
  "live_ok s \<Longrightarrow> live_ok (execute_started web rl answer k s)"
  "live_ok s \<Longrightarrow> live_ok (execute_settle desc outcome k s)"
  "live_ok s \<Longrightarrow> live_ok (execute_end k s)"
  by (auto simp: execute_begin_def execute_started_def execute_settle_def execute_end_def live_finished live_await
      intro: live_set split: option.splits sum.splits pyval.splits)

lemma worker_step_live: "worker_step web rl sha desc s s' \<Longrightarrow> worker_ok s \<and> live_ok s \<Longrightarrow> worker_ok s' \<and> live_ok s'"
proof (rule conjI)
  assume step: "worker_step web rl sha desc s s'" and ok: "worker_ok s \<and> live_ok s"
  then show "worker_ok s'" using worker_step_ok by blast
  from step ok show "live_ok s'"
    by (induction rule: worker_step.induct)
      (auto simp: live_register live_turn_begin live_claim_reply live_execute live_leave all_ended_live live_close
        worker_task_def serve_forever_def worker_awaitable_started_def Let_def intro: live_same split: sum.splits)
qed

interpretation worker_live: kept_by_steps "worker_step web rl sha desc" "\<lambda>s. worker_ok s \<and> live_ok s" for web rl sha desc
  by unfold_locales (rule worker_step_live)

subsection \<open>A worker that has claimed an execution\<close>

lemma sample_config: "post_init (example_config\<lparr>tc_cron := PNone\<rparr>) = Inr (example_config\<lparr>tc_cron := PNone\<rparr>)"
  by (simp add: post_init_def example_config_def validate_execution_options_exact execution_options_def optional_def get_field_def
      validate_schedule_options_exact schedule_options_spec_def timezone_match_def hour_digits_def is_decimal_def
      decimal_zeros_def text_eval)

lemma sample_declared: "snd (worker_task (t_function star_task) PNone (example_config\<lparr>tc_cron := PNone\<rparr>) sample_worker) = sample_ready"
  using sample_config
  by (simp add: worker_task_def register_task_def star_task_def default_task_name_def validate_task_name_def make_task_def
      text_eval DEFAULT_MAX_TASK_NAME_BYTES_def sample_ready_def sample_worker_def Let_def)

definition sample_serving :: worker where
  "sample_serving = snd (serve_forever sample_ready)"

definition sample_claiming :: worker where
  "sample_claiming = turn_begin plain_web 40 (\<lambda>_. []) False sample_events sample_serving"

definition execute_message :: pydict where
  "execute_message = [(skey ''execution_id'', skey ''e''), (skey ''task'', skey ''m.f''), (skey ''type'', skey ''execute'')]"

definition execute_bytes :: bytes where
  "execute_bytes = map byte_of (str ''{\"execution_id\":\"e\",\"task\":\"m.f\",\"type\":\"execute\"}'')"

definition sample_executing :: worker where
  "sample_executing = claim_reply plain_web 40 (Answered 200 execute_bytes) sample_claiming"

lemma sample_reached: "worker_reachable plain_web 40 (\<lambda>_. []) desc sample_worker sample_executing"
proof -
  let ?step = "worker_step plain_web 40 (\<lambda>_. []) desc"
  have "reaches ?step sample_worker sample_ready"
    using reaches.next_step [OF reaches.start [of ?step] worker_step.new_task] sample_declared by metis
  then have "reaches ?step sample_worker sample_serving"
    unfolding sample_serving_def by (rule reaches.next_step) (rule worker_step.serves)
  then have "reaches ?step sample_worker sample_claiming"
    unfolding sample_claiming_def by (rule reaches.next_step) (rule worker_step.turn)
  then show ?thesis unfolding sample_executing_def by (rule reaches.next_step) (rule worker_step.claimed)
qed

lemma execute_message_bytes: "json_bytes (PDict execute_message) = Inr execute_bytes"
  by (simp add: execute_message_def execute_bytes_def json_bytes_def json_eval)

lemma execute_receive: "http_receive plain_web 40 (Answered 200 execute_bytes) = Inr execute_message"
  by (rule http_receive_json [OF execute_message_bytes])
    (simp_all add: execute_message_def plain_web_def execute_bytes_def MAX_HTTP_RESPONSE_BYTES_def sort_items_def get_field_def text_eval)

lemma sample_claiming_fields:
  "w_pc sample_claiming = Claiming" "w_token sample_claiming = Some (replicate 43 65)" "\<not> w_closing sample_claiming"
  "w_executions sample_claiming = []" "w_runs sample_claiming = []"
proof -
  have "is_ok (json_bytes (PDict (registration_body sample_serving)))"
    by (simp add: registration_body_def sample_serving_def serve_forever_def sample_ready_def sample_worker_def json_bytes_def json_eval)
  then obtain b where b: "json_bytes (PDict (registration_body sample_serving)) = Inr b" by (auto simp: is_ok_iff)
  then have "\<exists>h. register plain_web 40 (\<lambda>_. []) False sample_events sample_serving
      = (Inr (), sample_serving\<lparr>w_http := h, w_token := Some (replicate 43 65)\<rparr>)"
    using sample_receive
    by (simp add: register_def Let_def retire_executions_def)
      (simp add: sample_serving_def serve_forever_def sample_ready_def sample_worker_def register_session_def sample_events_def
        registration_request_def worker_send_def http_send_def get_field_def WORKER_TOKEN_LENGTH_def token_reply_def
        static_schedule_declaration_def has_schedule_def example_config_def)
  then obtain h where h: "register plain_web 40 (\<lambda>_. []) False sample_events sample_serving
      = (Inr (), sample_serving\<lparr>w_http := h, w_token := Some (replicate 43 65)\<rparr>)" ..
  have "\<exists>h'. sample_claiming = sample_serving\<lparr>w_http := h', w_token := Some (replicate 43 65), w_pc := Claiming\<rparr>"
    unfolding sample_claiming_def turn_begin_def h
    by (simp add: sample_serving_def serve_forever_def sample_ready_def sample_worker_def worker_request_def worker_send_def http_send_def)
  then obtain h' where c: "sample_claiming = sample_serving\<lparr>w_http := h', w_token := Some (replicate 43 65), w_pc := Claiming\<rparr>" ..
  show "w_pc sample_claiming = Claiming" "w_token sample_claiming = Some (replicate 43 65)" "\<not> w_closing sample_claiming"
    "w_executions sample_claiming = []" "w_runs sample_claiming = []"
    by (simp_all add: c sample_serving_def serve_forever_def sample_ready_def sample_worker_def)
qed

lemma sample_executing_runs:
  "w_executions sample_executing = [(str ''e'', 0)]"
  "w_runs sample_executing = [(0, \<lparr>x_execution = str ''e'', x_message = execute_message, x_token = Some (replicate 43 65),
     x_phase = Fresh, x_cancel = False\<rparr>)]"
  using sample_claiming_fields execute_receive
  by (simp_all add: sample_executing_def claim_reply_def handle_claim_def start_execution_def Let_def execute_message_def get_field_def)

section \<open>Properties\<close>





end
