(* ===== verification/Credentials.thy ===== *)
theory Credentials
  imports Validation
begin

section \<open>PKCS\#12 credentials (\<^verbatim>\<open>tay/http.py\<close>, \<^verbatim>\<open>_load_pkcs12\<close>)\<close>

text \<open>
  What the HTTP client takes from a PKCS\#12 bundle: the certificates it trusts and the files from
  which the TLS context loads its own key and certificate. Decoding the bundle is the parameter
  \<open>decode\<close> (\<^verbatim>\<open>pkcs12.load_key_and_certificates\<close> on the file's bytes), with PEM texts for keys and
  certificates; the basic constraints of an additional certificate are \<open>None\<close> where the extension
  is missing; its \<^verbatim>\<open>UnsupportedAlgorithm\<close> is a \<open>ValueError\<close> here, both being mapped alike. \<open>verify\<close> and \<open>chain\<close> are the two loads of the TLS context.
  Shown: exactly the certificates marked as CA become trusted, and a bundle without key,
  certificate or CA is refused.
\<close>

datatype bundle_password = NoPassword | TextPassword pystr | BytesPassword bytes | OtherPassword

record key_bundle =
  b_key :: "bytes option"
  b_cert :: "bytes option"
  b_additional :: "(bytes \<times> bool option) list"

text \<open>A file written below the temporary directory: its name, its permissions and its contents.\<close>

record secret_file =
  f_name :: string
  f_mode :: nat
  f_data :: bytes

definition password_bytes :: "bundle_password \<Rightarrow> bytes option res" where
  "password_bytes p =
     (case p of
        NoPassword \<Rightarrow> Inr None
      | TextPassword s \<Rightarrow> rbind (utf8_encode s) (\<lambda>b. Inr (Some b))
      | BytesPassword b \<Rightarrow> Inr (Some b)
      | OtherPassword \<Rightarrow> Inl ValidationError)"

definition decode_bundle :: "(bytes option \<Rightarrow> key_bundle res) \<Rightarrow> bytes option \<Rightarrow> key_bundle res" where
  "decode_bundle decode password =
     (case decode password of Inl e \<Rightarrow> Inl (if is_ValueError e then ValidationError else e) | Inr b \<Rightarrow> Inr b)"

definition bundle_roots :: "key_bundle \<Rightarrow> bytes list" where
  "bundle_roots b = map fst (filter (\<lambda>c. snd c = Some True) (b_additional b))"

definition load_pkcs12 ::
  "bool \<Rightarrow> (bytes option \<Rightarrow> key_bundle res) \<Rightarrow> (bytes \<Rightarrow> unit res) \<Rightarrow> (secret_file \<Rightarrow> secret_file \<Rightarrow> unit res) \<Rightarrow> bundle_password
   \<Rightarrow> (bytes \<times> secret_file list) res" where
  "load_pkcs12 has_cryptography decode verify chain password =
     rbind (ensure has_cryptography RuntimeError) (\<lambda>_.
     rbind (password_bytes password) (\<lambda>p.
     rbind (decode_bundle decode p) (\<lambda>b.
     case (b_key b, b_cert b) of
       (Some key, Some cert) \<Rightarrow>
         let roots = bundle_roots b;
             key_file = \<lparr>f_name = ''client.key'', f_mode = 384, f_data = key\<rparr>;
             cert_file = \<lparr>f_name = ''client.pem'', f_mode = 384, f_data = cert\<rparr> in
         rbind (ensure (roots \<noteq> []) ValidationError) (\<lambda>_.
         rbind (verify (concat roots)) (\<lambda>_.
         rbind (chain cert_file key_file) (\<lambda>_.
         Inr (concat roots, [key_file, cert_file]))))
     | _ \<Rightarrow> Inl ValidationError)))"

section \<open>Properties\<close>

text \<open>C40: what a loaded bundle establishes: the key and the certificate of the bundle were loaded, from files
  only their owner can read (mode \<^verbatim>\<open>0o600\<close>), and the trusted certificates are exactly the
  bundle's CA certificates, of which there is at least one.\<close>

theorem pkcs12_trust_exact:
  assumes "load_pkcs12 has_cryptography decode verify chain password = Inr (trusted, written_files)"
  shows "\<exists>p b key cert. password_bytes password = Inr p \<and> decode p = Inr b \<and> b_key b = Some key \<and> b_cert b = Some cert
     \<and> bundle_roots b \<noteq> [] \<and> trusted = concat (bundle_roots b) \<and> verify trusted = Inr ()
     \<and> (\<forall>c. c \<in> set (bundle_roots b) \<longleftrightarrow> (c, Some True) \<in> set (b_additional b))
     \<and> map f_data written_files = [key, cert] \<and> list_all (\<lambda>f. f_mode f = 384) written_files"
proof -
  obtain p b key cert where p: "password_bytes password = Inr p" "decode_bundle decode p = Inr b" "b_key b = Some key" "b_cert b = Some cert"
    and rest: "bundle_roots b \<noteq> []" "verify (concat (bundle_roots b)) = Inr ()" "trusted = concat (bundle_roots b)"
      "written_files = [\<lparr>f_name = ''client.key'', f_mode = 384, f_data = key\<rparr>, \<lparr>f_name = ''client.pem'', f_mode = 384, f_data = cert\<rparr>]"
    using assms by (auto simp: load_pkcs12_def rbind_eq_Inr Let_def split: option.splits)
  have "decode p = Inr b" using p(2) by (auto simp: decode_bundle_def split: sum.splits)
  moreover have "c \<in> set (bundle_roots b) \<longleftrightarrow> (c, Some True) \<in> set (b_additional b)" for c
    by (force simp: bundle_roots_def)
  ultimately show ?thesis using p rest by simp
qed

theorem pkcs12_trust_exact_witness:
  "\<exists>written_files. load_pkcs12 True (\<lambda>_. Inr \<lparr>b_key = Some [1], b_cert = Some [2], b_additional = [([3], Some False), ([4], Some True), ([5], None)]\<rparr>)
       (\<lambda>_. Inr ()) (\<lambda>_ _. Inr ()) NoPassword = Inr ([4], written_files) \<and> map f_data written_files = [[1], [2]]"
proof -
  let ?d = "\<lambda>_ :: bytes option. Inr \<lparr>b_key = Some [1], b_cert = Some [2], b_additional = [([3], Some False), ([4], Some True), ([5], None)]\<rparr> :: key_bundle res"
  obtain files where l: "load_pkcs12 True ?d (\<lambda>_. Inr ()) (\<lambda>_ _. Inr ()) NoPassword = Inr ([4], files)"
    by (simp add: load_pkcs12_def password_bytes_def decode_bundle_def bundle_roots_def)
  from pkcs12_trust_exact [OF l] l show ?thesis by auto
qed

end
