(* ===== verification/Numbers.thy ===== *)
theory Numbers
  imports PyFloat
begin

section \<open>Arithmetic on Python numbers\<close>

text \<open>
  What the release benchmarks compute with: \<^verbatim>\<open>+\<close>, \<^verbatim>\<open>-\<close>, \<^verbatim>\<open>*\<close>, \<^verbatim>\<open>/\<close> and \<^verbatim>\<open>abs\<close>
  on ints and floats in any combination, and \<^verbatim>\<open>statistics.median\<close>. Ints are exact and become
  doubles where an operand is a float, which raises \<^verbatim>\<open>OverflowError\<close> when the int is too large; float
  operations round to the nearest double and overflow to an infinity, as IEEE 754 has it.
\<close>

named_theorems num_simps \<open>arithmetic on Python numbers\<close>

subsection \<open>Floats\<close>

fun float_neg :: "pyfloat \<Rightarrow> pyfloat" where
  "float_neg (Flt q) = (if q = 0 then NegZero else Flt (- q))"
| "float_neg NegZero = Flt 0"
| "float_neg PosInf = NegInf"
| "float_neg NegInf = PosInf"
| "float_neg NaN = NaN"

definition float_add :: "pyfloat \<Rightarrow> pyfloat \<Rightarrow> pyfloat" where
  "float_add x y =
     (if x = NaN \<or> y = NaN then NaN
      else if isfinite x \<and> isfinite y then
        (if x = NegZero \<and> y = NegZero then NegZero else to_double (float_value x + float_value y))
      else if isfinite x then y
      else if isfinite y \<or> x = y then x
      else NaN)"

definition float_sub :: "pyfloat \<Rightarrow> pyfloat \<Rightarrow> pyfloat" where
  "float_sub x y = float_add x (float_neg y)"

definition float_abs :: "pyfloat \<Rightarrow> pyfloat" where
  "float_abs x = (if signbit x then float_neg x else x)"

definition float_div :: "pyfloat \<Rightarrow> pyfloat \<Rightarrow> pyfloat res" where
  "float_div x y =
     (let neg = (signbit x \<noteq> signbit y); q = float_value x / float_value y in
      if isfinite y \<and> float_value y = 0 then Inl ZeroDivisionError
      else if x = NaN \<or> y = NaN \<or> (\<not> isfinite x \<and> \<not> isfinite y) then Inr NaN
      else if \<not> isfinite x then Inr (if neg then NegInf else PosInf)
      else if \<not> isfinite y \<or> q = 0 then Inr (if neg then NegZero else Flt 0)
      else Inr (to_double q))"

subsection \<open>Ints and floats\<close>

fun num_float :: "pyval \<Rightarrow> pyfloat res" where
  "num_float (PInt i) = float_of_int i"
| "num_float (PFloat x) = Inr x"
| "num_float _ = Inl TypeError"

definition on_floats :: "(pyfloat \<Rightarrow> pyfloat \<Rightarrow> pyfloat res) \<Rightarrow> pyval \<Rightarrow> pyval \<Rightarrow> pyval res" where
  "on_floats f a b = rbind (num_float a) (\<lambda>x. rbind (num_float b) (\<lambda>y. rbind (f x y) (\<lambda>z. Inr (PFloat z))))"

fun num_add :: "pyval \<Rightarrow> pyval \<Rightarrow> pyval res" where
  "num_add (PInt i) (PInt j) = Inr (PInt (i + j))"
| "num_add a b = on_floats (\<lambda>x y. Inr (float_add x y)) a b"

fun num_sub :: "pyval \<Rightarrow> pyval \<Rightarrow> pyval res" where
  "num_sub (PInt i) (PInt j) = Inr (PInt (i - j))"
| "num_sub a b = on_floats (\<lambda>x y. Inr (float_sub x y)) a b"

fun num_mul :: "pyval \<Rightarrow> pyval \<Rightarrow> pyval res" where
  "num_mul (PInt i) (PInt j) = Inr (PInt (i * j))"
| "num_mul a b = on_floats (\<lambda>x y. Inr (float_mul x y)) a b"

fun num_div :: "pyval \<Rightarrow> pyval \<Rightarrow> pyval res" where
  "num_div (PInt i) (PInt j) =
     (if j = 0 then Inl ZeroDivisionError else rbind (int_truediv i j) (\<lambda>z. Inr (PFloat z)))"
| "num_div a b = on_floats float_div a b"

fun num_abs :: "pyval \<Rightarrow> pyval" where
  "num_abs (PInt i) = PInt \<bar>i\<bar>"
| "num_abs (PFloat x) = PFloat (float_abs x)"
| "num_abs v = v"

subsection \<open>The median\<close>

text \<open>\<^verbatim>\<open>sorted\<close> is stable; on numbers other than NaN their exact order is total.\<close>

fun num_insert :: "pyval \<Rightarrow> pyval list \<Rightarrow> pyval list" where
  "num_insert x [] = [x]"
| "num_insert x (y # ys) = (if num_le x y then x # y # ys else y # num_insert x ys)"

definition num_sorted :: "pyval list \<Rightarrow> pyval list" where
  "num_sorted xs = foldr num_insert xs []"

definition median :: "pyval list \<Rightarrow> pyval res" where
  "median xs =
     (let data = num_sorted xs; n = length data; i = n div 2 in
      if n = 0 then Inl ValueError
      else if odd n then Inr (data ! i)
      else rbind (num_add (data ! (i - 1)) (data ! i)) (\<lambda>t. num_div t (PInt 2)))"

subsection \<open>Lemmas\<close>

text \<open>A measured value: an int or a float that is positive and finite (as a double).\<close>

definition positive_number :: "pyval \<Rightarrow> bool" where
  "positive_number v \<longleftrightarrow> (case v of
       PInt i \<Rightarrow> 0 < i \<and> is_ok (float_of_int i)
     | PFloat (Flt q) \<Rightarrow> 0 < q
     | _ \<Rightarrow> False)"

lemma set_num_insert [simp]: "set (num_insert x ys) = insert x (set ys)"
  by (induction ys) auto

lemma length_num_insert [simp]: "length (num_insert x ys) = Suc (length ys)"
  by (induction ys) simp_all

lemma set_num_sorted [simp]: "set (num_sorted xs) = set xs"
  by (induction xs) (simp_all add: num_sorted_def)

lemma length_num_sorted [simp]: "length (num_sorted xs) = length xs"
  by (induction xs) (simp_all add: num_sorted_def)

lemma to_double_1 [simp]: "to_double 1 = Flt 1"
  using float_of_int_small [of 1] by (auto simp: float_of_int_def finite_or_overflow_def split: if_splits)

lemma is_double_1 [simp]: "is_double 1"
  by (simp add: is_double_def)

lemma to_double_le_1: "0 < q \<Longrightarrow> q \<le> 1 \<Longrightarrow> \<exists>v. to_double q = Flt v \<and> 0 \<le> v \<and> v \<le> 1"
  using round_le_double [of 1 q] round_pos_nonneg [of q] by (auto simp: to_double_def Let_def)

lemma to_double_nonpos: "q \<le> 0 \<Longrightarrow> to_double q = NegZero \<or> to_double q = NegInf \<or> (\<exists>v. to_double q = Flt v \<and> v \<le> 0)"
  using round_pos_nonneg [of "- q"] by (auto simp: to_double_def Let_def)

lemma num_div_float: "num_div a b = Inr v \<Longrightarrow> \<exists>x. v = PFloat x"
  by (cases "(a, b)" rule: num_div.cases) (auto simp: on_floats_def rbind_eq_Inr split: if_splits)

lemma num_div_self: "num_div v v = Inr r \<Longrightarrow> r = PFloat (Flt 1) \<or> r = PFloat NaN"
proof (cases v)
  case (PInt i)
  assume "num_div v v = Inr r"
  with PInt show ?thesis by (auto simp: int_truediv_def finite_or_overflow_def rbind_eq_Inr split: if_splits)
next
  case (PFloat x)
  assume "num_div v v = Inr r"
  with PFloat show ?thesis by (cases x) (auto simp: on_floats_def float_div_def rbind_eq_Inr split: if_splits)
qed (auto simp: on_floats_def)

text \<open>A ratio that is at most one, or not a number.\<close>

definition not_above_one :: "pyfloat \<Rightarrow> bool" where
  "not_above_one x \<longleftrightarrow> (case x of Flt q \<Rightarrow> 0 \<le> q \<and> q \<le> 1 | NegZero \<Rightarrow> True | NaN \<Rightarrow> True | _ \<Rightarrow> False)"

text \<open>A ratio of positive doubles or ints, the smaller over the larger.\<close>

definition positive_double :: "pyval \<Rightarrow> bool" where
  "positive_double v \<longleftrightarrow> positive_number v \<and> (case v of PFloat x \<Rightarrow> float_ok x | _ \<Rightarrow> True)"

lemmas positive_double_defs = positive_double_def positive_number_def

lemma float_div_le_1:
  assumes "0 < p" and "p \<le> q"
  shows "\<exists>x. float_div (Flt p) (Flt q) = Inr x \<and> not_above_one x"
proof -
  have "0 < p / q" "p / q \<le> 1" using assms by (auto simp: divide_le_eq)
  then obtain v where "to_double (p / q) = Flt v" "0 \<le> v" "v \<le> 1" using to_double_le_1 by blast
  with assms show ?thesis by (auto simp: float_div_def not_above_one_def)
qed

lemma float_of_int_pos:
  assumes "0 < i" and "float_of_int i = Inr x"
  shows "x = Flt (round_pos (of_int i))"
  using assms by (auto simp: float_of_int_def finite_or_overflow_def to_double_def Let_def split: if_splits)

lemma round_pos_ge_1: "1 \<le> q \<Longrightarrow> 1 \<le> round_pos q"
  using double_le_round [of 1 q] by simp

lemma num_div_le_1:
  assumes "positive_double a" and "positive_double b" and "num_le a b" and "num_div a b = Inr v"
  shows "\<exists>x. v = PFloat x \<and> not_above_one x"
proof (cases a)
  case a: (PInt i)
  then have i: "0 < i" "is_ok (float_of_int i)" using assms(1) by (simp_all add: positive_double_defs)
  show ?thesis
  proof (cases b)
    case (PInt j)
    have "0 < (of_int i :: rat) / of_int j" "(of_int i :: rat) / of_int j \<le> 1"
      using i assms(2,3) by (auto simp: a PInt num_le_def positive_double_defs)
    then obtain w where "to_double (of_int i / of_int j) = Flt w" "0 \<le> w" "w \<le> 1" using to_double_le_1 by blast
    with assms(2,4) show ?thesis
      by (auto simp: a PInt int_truediv_def finite_or_overflow_def not_above_one_def rbind_eq_Inr split: if_splits)
  next
    case (PFloat y)
    then obtain q where q: "y = Flt q" "0 < q" "is_double q" using assms(2) by (cases y) (auto simp: positive_double_defs)
    obtain x where x: "float_of_int i = Inr x" using i(2) by (auto simp: is_ok_iff)
    have "round_pos (of_int i) \<le> q" using assms(3) i(1) q by (intro round_le_double) (simp_all add: a PFloat num_le_def)
    moreover have "1 \<le> round_pos (of_int i)" using i(1) by (intro round_pos_ge_1) simp
    ultimately show ?thesis
      using float_div_le_1 [of "round_pos (of_int i)" q] float_of_int_pos [OF i(1) x] assms(4) x
      by (auto simp: a PFloat q(1) on_floats_def rbind_eq_Inr)
  qed (use assms(2) in \<open>simp_all add: positive_double_defs\<close>)
next
  case a: (PFloat x)
  then obtain p where p: "x = Flt p" "0 < p" "is_double p" using assms(1) by (cases x) (auto simp: positive_double_defs)
  show ?thesis
  proof (cases b)
    case (PInt j)
    then have j: "0 < j" "is_ok (float_of_int j)" using assms(2) by (simp_all add: positive_double_defs)
    then obtain y where y: "float_of_int j = Inr y" by (auto simp: is_ok_iff)
    have "p \<le> round_pos (of_int j)" using assms(3) p by (intro double_le_round) (simp_all add: a PInt num_le_def)
    then show ?thesis
      using float_div_le_1 [OF p(2), of "round_pos (of_int j)"] float_of_int_pos [OF j(1) y] assms(4) y
      by (auto simp: a PInt p(1) on_floats_def rbind_eq_Inr)
  next
    case (PFloat y)
    then obtain q where q: "y = Flt q" using assms(2) by (cases y) (auto simp: positive_double_defs)
    with assms(3,4) show ?thesis
      using float_div_le_1 [OF p(2), of q] by (auto simp: a PFloat p(1) num_le_def on_floats_def rbind_eq_Inr)
  qed (use assms(2) in \<open>simp_all add: positive_double_defs\<close>)
qed (use assms(1) in \<open>simp_all add: positive_double_defs\<close>)

end
