(* ===== verification/Compare.thy ===== *)
theory Compare
  imports Numbers Responses
begin

section \<open>The release gate (\<^verbatim>\<open>bench/compare.py\<close>)\<close>

text \<open>
  The decision whether a candidate release is slower than its baseline: two benchmark reports are
  compared metric by metric and the exit code is the release gate. A report is the dictionary
  \<^verbatim>\<open>json.loads\<close> makes of the file; samples may be ints or floats, medians and percentages are
  computed in the arithmetic of theory \<open>Numbers\<close>. The Markdown summary is theory \<open>Summary\<close>.
  Shown: a passing gate means that every sample of every metric was a positive finite number and
  every percentage is within its limit; a report compared with itself never regresses; an
  improvement is never flagged.
\<close>

subsection \<open>Equality of decoded JSON\<close>

text \<open>\<^verbatim>\<open>==\<close> compares numbers by value, lists element by element and dictionaries without regard to order;
  \<open>comparable\<close> maps equal values to one representative. The decoder makes one NaN object, which a
  container comparison identifies with itself and a direct comparison does not.\<close>

fun comparable :: "pyval \<Rightarrow> pyval" where
  "comparable (PBool b) = PFloat (Flt (if b then 1 else 0))"
| "comparable (PInt i) = PFloat (Flt (of_int i))"
| "comparable (PFloat x) = PFloat (if x = NegZero then Flt 0 else x)"
| "comparable (PList xs) = PList (map comparable xs)"
| "comparable (PTuple xs) = PTuple (map comparable xs)"
| "comparable (PDict d) = PDict (sort_items (map (\<lambda>(k, v). (k, comparable v)) d))"
| "comparable v = v"

definition py_eq :: "pyval \<Rightarrow> pyval \<Rightarrow> bool" where
  "py_eq a b = (a \<noteq> PFloat NaN \<and> comparable a = comparable b)"

subsection \<open>Access to a report\<close>

definition item :: "pydict \<Rightarrow> string \<Rightarrow> pyval res" where
  "item d name = (case dget d (skey name) of None \<Rightarrow> Inl KeyError | Some v \<Rightarrow> Inr v)"

text \<open>\<^verbatim>\<open>v[name]\<close>, \<^verbatim>\<open>v.get(name)\<close> and \<^verbatim>\<open>len(v)\<close> on a decoded value.\<close>

fun value_item :: "pyval \<Rightarrow> string \<Rightarrow> pyval res" where
  "value_item (PDict d) name = item d name"
| "value_item _ name = Inl TypeError"

fun value_get :: "pyval \<Rightarrow> string \<Rightarrow> pyval res" where
  "value_get (PDict d) name = Inr (get_field d name)"
| "value_get _ name = Inl AttributeError"

fun value_len :: "pyval \<Rightarrow> nat res" where
  "value_len (PList xs) = Inr (length xs)"
| "value_len (PDict d) = Inr (length d)"
| "value_len (PStr s) = Inr (length s)"
| "value_len _ = Inl TypeError"

text \<open>The elements a comprehension iterates over: of a string its characters, of a dictionary its keys.\<close>

fun elements :: "pyval \<Rightarrow> pyval list" where
  "elements (PList xs) = xs"
| "elements (PDict d) = map fst d"
| "elements (PStr s) = map (\<lambda>c. PStr [c]) s"
| "elements _ = []"

subsection \<open>\<^verbatim>\<open>compare\<close>\<close>

definition METRICS :: "(string \<times> string) list" where
  "METRICS =
     [(''completed_jobs_per_second'', ''higher''), (''enqueue_ack_p95_us'', ''lower''), (''callback_latency_p95_us'', ''lower''),
      (''compaction_us'', ''lower''), (''peak_rss_bytes'', ''lower''), (''peak_beam_bytes'', ''lower'')]"

definition compared_keys :: "string list" where
  "compared_keys =
     [''report_schema'', ''benchmark'', ''harness_sha256'', ''workload'', ''environment'', ''comparison_protocol'',
      ''orchestrator_sha256'', ''trial_order'']"

definition bad_threshold :: "pyfloat \<Rightarrow> bool" where
  "bad_threshold t = (\<not> isfinite t \<or> num_less (PFloat t) (PInt 0))"

fun hashable :: "pyval \<Rightarrow> bool" where
  "hashable (PList _) = False"
| "hashable (PDict _) = False"
| "hashable _ = True"

definition check_reports :: "pydict \<Rightarrow> pydict \<Rightarrow> unit res" where
  "check_reports base cand =
     rbind (ensure (list_all (\<lambda>key. py_eq (get_field base key) (get_field cand key)) compared_keys) ValueError) (\<lambda>_.
     rbind (ensure (equals_int (get_field base ''report_schema'') 1) ValueError) (\<lambda>_.
     rbind (ensure (hashable (get_field base ''benchmark'')) TypeError) (\<lambda>_.
     ensure (get_field base ''benchmark'' \<in> {skey ''tay-release-v1'', skey ''tay-release-v2''}) ValueError)))"

text \<open>One sample's value is valid if it is an int or a float, finite and positive; \<^verbatim>\<open>math.isfinite\<close>
  converts an int to a float.\<close>

definition valid_value :: "pyval \<Rightarrow> bool res" where
  "valid_value v =
     (case v of
        PInt i \<Rightarrow> rbind (float_of_int i) (\<lambda>_. Inr (0 < i))
      | PFloat x \<Rightarrow> Inr (isfinite x \<and> num_less (PInt 0) v)
      | _ \<Rightarrow> Inr False)"

record cohort =
  c_median :: "pyval option"
  c_dispersion :: "pyval option"
  c_count :: nat

definition samples_of :: "pydict \<Rightarrow> pyval list res" where
  "samples_of report =
     (let samples = get_default report ''measurements'' (PList []) in
      rbind (value_len samples) (\<lambda>n.
      rbind (rbind (item report ''workload'') (\<lambda>w. value_item w ''trials'')) (\<lambda>trials.
      rbind (ensure (equals_int trials (int n) \<and> n \<noteq> 0) ValueError) (\<lambda>_.
      Inr (elements samples)))))"

definition dispersion_of :: "pyval \<Rightarrow> pyval list \<Rightarrow> pyval res" where
  "dispersion_of m valid =
     rbind (rmap (\<lambda>v. rbind (num_sub v m) (\<lambda>d. Inr (num_abs d))) valid) (\<lambda>ds.
     rbind (median ds) (\<lambda>mad. rbind (num_mul (PInt 100) mad) (\<lambda>p. num_div p m)))"

definition cohort_of :: "string \<Rightarrow> pydict \<Rightarrow> cohort res" where
  "cohort_of name report =
     rbind (samples_of report) (\<lambda>samples.
     rbind (rmap (\<lambda>sample. value_get sample name) samples) (\<lambda>values.
     rbind (rmap (\<lambda>v. rbind (valid_value v) (\<lambda>b. Inr (v, b))) values) (\<lambda>marked.
     let valid = map fst (filter snd marked) in
     if length valid \<noteq> length values then Inr \<lparr>c_median = None, c_dispersion = None, c_count = length valid\<rparr>
     else
       rbind (median valid) (\<lambda>m.
       rbind (dispersion_of m valid) (\<lambda>d.
       Inr \<lparr>c_median = Some m, c_dispersion = Some d, c_count = length valid\<rparr>)))))"

record row =
  metric :: string
  baseline_median :: "pyval option"
  candidate_median :: "pyval option"
  baseline_samples :: nat
  candidate_samples :: nat
  direction :: string
  regression_percent :: "pyval option"
  row_regressed :: bool
  baseline_mad :: "pyval option"
  candidate_mad :: "pyval option"
  row_noisy :: bool

definition regression_of :: "string \<Rightarrow> pyval option \<Rightarrow> pyval option \<Rightarrow> pyval option res" where
  "regression_of dir before after =
     (case (before, after) of
        (Some b, Some a) \<Rightarrow>
          rbind (if dir = ''higher'' then num_div b a else num_div a b) (\<lambda>q.
          rbind (num_sub q (PInt 1)) (\<lambda>d. rbind (num_mul d (PInt 100)) (\<lambda>r. Inr (Some r))))
      | _ \<Rightarrow> Inr None)"

definition exceeds :: "pyval option \<Rightarrow> pyfloat \<Rightarrow> bool" where
  "exceeds v limit = (case v of None \<Rightarrow> False | Some x \<Rightarrow> num_less (PFloat limit) x)"

definition row_of :: "pydict \<Rightarrow> pydict \<Rightarrow> pyfloat \<Rightarrow> pyfloat \<Rightarrow> string \<times> string \<Rightarrow> row res" where
  "row_of base cand threshold max_relative_mad nd =
     rbind (cohort_of (fst nd) base) (\<lambda>b.
     rbind (cohort_of (fst nd) cand) (\<lambda>a.
     rbind (regression_of (snd nd) (c_median b) (c_median a)) (\<lambda>r.
     Inr \<lparr>metric = fst nd, baseline_median = c_median b, candidate_median = c_median a, baseline_samples = c_count b,
          candidate_samples = c_count a, direction = snd nd, regression_percent = r,
          row_regressed = exceeds r threshold, baseline_mad = c_dispersion b, candidate_mad = c_dispersion a,
          row_noisy = (exceeds (c_dispersion b) max_relative_mad \<or> exceeds (c_dispersion a) max_relative_mad)\<rparr>)))"

record comparison =
  identities :: pydict
  max_regression_percent :: pyfloat
  max_relative_mad_percent :: pyfloat
  metrics :: "row list"
  regressed :: bool
  noisy :: bool
  complete :: bool

definition revision_fields :: "pydict \<Rightarrow> pydict \<Rightarrow> pydict res" where
  "revision_fields base cand =
     rbind (item base ''revision'') (\<lambda>br. rbind (item cand ''revision'') (\<lambda>cr.
     rbind (item base ''version'') (\<lambda>bv. rbind (item cand ''version'') (\<lambda>cv.
     rbind (item cand ''workload'') (\<lambda>w. rbind (item cand ''environment'') (\<lambda>e.
     Inr [(skey ''baseline_revision'', br), (skey ''candidate_revision'', cr), (skey ''baseline_version'', bv),
          (skey ''candidate_version'', cv), (skey ''workload'', w), (skey ''environment'', e)]))))))"

definition compare_reports :: "pydict \<Rightarrow> pydict \<Rightarrow> pyfloat \<Rightarrow> pyfloat \<Rightarrow> comparison res" where
  "compare_reports base cand threshold max_relative_mad =
     rbind (ensure (\<not> bad_threshold threshold) ValueError) (\<lambda>_.
     rbind (ensure (\<not> bad_threshold max_relative_mad) ValueError) (\<lambda>_.
     rbind (check_reports base cand) (\<lambda>_.
     rbind (rmap (row_of base cand threshold max_relative_mad) METRICS) (\<lambda>rows.
     rbind (revision_fields base cand) (\<lambda>ids.
     Inr \<lparr>identities = ids, max_regression_percent = threshold, max_relative_mad_percent = max_relative_mad,
          metrics = rows, regressed = list_ex row_regressed rows, noisy = list_ex row_noisy rows,
          complete = list_all (\<lambda>r. baseline_median r \<noteq> None \<and> candidate_median r \<noteq> None) rows\<rparr>)))))"

text \<open>\<^verbatim>\<open>json.dump(..., allow_nan=False)\<close> refuses infinities and NaN.\<close>

fun finite_value :: "pyval \<Rightarrow> bool" where
  "finite_value (PFloat x) = isfinite x"
| "finite_value (PList xs) = list_all finite_value xs"
| "finite_value (PTuple xs) = list_all finite_value xs"
| "finite_value (PDict d) = list_all (\<lambda>(k, v). finite_value v) d"
| "finite_value v = True"

definition finite_opt :: "pyval option \<Rightarrow> bool" where
  "finite_opt v = (case v of None \<Rightarrow> True | Some x \<Rightarrow> finite_value x)"

definition finite_row :: "row \<Rightarrow> bool" where
  "finite_row r = list_all finite_opt
     [baseline_median r, candidate_median r, regression_percent r, baseline_mad r, candidate_mad r]"

definition dump_report :: "comparison \<Rightarrow> unit res" where
  "dump_report c =
     ensure (finite_value (PDict (identities c)) \<and> isfinite (max_regression_percent c) \<and>
       isfinite (max_relative_mad_percent c) \<and> list_all finite_row (metrics c)) ValueError"

text \<open>\<^verbatim>\<open>compare\<close> on what the files hold, which need not be objects.\<close>

definition compare_values :: "pyval \<Rightarrow> pyval \<Rightarrow> pyfloat \<Rightarrow> pyfloat \<Rightarrow> comparison res" where
  "compare_values b c threshold max_relative_mad =
     (case (b, c) of
        (PDict base, PDict cand) \<Rightarrow> compare_reports base cand threshold max_relative_mad
      | _ \<Rightarrow> Inl (if bad_threshold threshold \<or> bad_threshold max_relative_mad then ValueError else AttributeError))"

text \<open>\<^verbatim>\<open>main\<close> after its arguments are parsed and the two files decoded: the exit code, 2 from
  \<^verbatim>\<open>parser.error\<close>, or an exception it does not catch. \<open>opened\<close> says what opening the new JSON file
  yields and what opening and writing the summary does.\<close>

definition compare_main ::
  "pyval res \<Rightarrow> pyval res \<Rightarrow> pyfloat \<Rightarrow> pyfloat \<Rightarrow> bool \<Rightarrow> unit res \<times> (comparison \<Rightarrow> unit res) \<Rightarrow> int res" where
  "compare_main base cand threshold max_relative_mad fail_on_regression opened =
     (case
        rbind base (\<lambda>b.
        rbind cand (\<lambda>c.
        rbind (compare_values b c threshold max_relative_mad) (\<lambda>report.
        rbind (fst opened) (\<lambda>_.
        rbind (dump_report report) (\<lambda>_.
        rbind (snd opened report) (\<lambda>_.
        Inr report)))))) of
        Inl e \<Rightarrow> if is_ValueError e \<or> e = KeyError \<or> is_OSError e \<or> e = TypeError then Inr 2 else Inl e
      | Inr report \<Rightarrow>
          Inr (if fail_on_regression \<and> (regressed report \<or> noisy report \<or> \<not> complete report) then 1 else 0))"

subsection \<open>Samples and cohorts\<close>

definition metric_values :: "string \<Rightarrow> pyval list \<Rightarrow> pyval list" where
  "metric_values name samples = map (\<lambda>s. case s of PDict d \<Rightarrow> get_field d name | _ \<Rightarrow> PNone) samples"

lemma value_get_all:
  "rmap (\<lambda>s. value_get s name) ss = Inr vs \<Longrightarrow> list_all is_dict ss \<and> vs = metric_values name ss"
proof (induction ss arbitrary: vs)
  case (Cons s ss)
  then show ?case by (cases s) (auto simp: rbind_eq_Inr metric_values_def)
qed (simp add: metric_values_def)

lemma valid_value_True: "valid_value v = Inr True \<Longrightarrow> positive_number v"
  by (auto simp: valid_value_def positive_number_def num_less_def rbind_eq_Inr is_ok_iff split: pyval.splits pyfloat.splits)

lemma marked_values:
  "rmap (\<lambda>v. rbind (valid_value v) (\<lambda>b. Inr (v, b))) vs = Inr marked \<Longrightarrow>
   map fst marked = vs \<and> list_all (\<lambda>x. snd x \<longrightarrow> positive_number (fst x)) marked"
  by (induction vs arbitrary: marked) (auto simp: rbind_eq_Inr valid_value_True)

lemma all_marked:
  assumes "length (filter snd xs) = length xs"
  shows "filter snd xs = xs" and "x \<in> set xs \<Longrightarrow> snd x"
  using assms by (metis filter_cong length_filter_less filter_id_conv order_less_irrefl)+

lemma cohort_of_complete:
  assumes "cohort_of name report = Inr co" and "c_median co = Some m"
  obtains ss d where "samples_of report = Inr ss" and "list_all is_dict ss"
    and "list_all positive_number (metric_values name ss)" and "median (metric_values name ss) = Inr m"
    and "dispersion_of m (metric_values name ss) = Inr d" and "c_dispersion co = Some d" and "c_count co = length ss"
proof -
  obtain ss vs marked where ss: "samples_of report = Inr ss"
    and vs: "rmap (\<lambda>s. value_get s name) ss = Inr vs"
    and marked: "rmap (\<lambda>v. rbind (valid_value v) (\<lambda>b. Inr (v, b))) vs = Inr marked"
    using assms(1) by (auto simp: cohort_of_def rbind_eq_Inr)
  note got = value_get_all [OF vs] and m = marked_values [OF marked]
  have len: "length (filter snd marked) = length marked"
    using assms ss vs marked m by (auto simp: cohort_of_def Let_def split: if_splits)
  note full = all_marked [OF len]
  have "list_all positive_number vs" using m full(2) by (auto simp: list_all_iff)
  with that [OF ss] got assms ss vs marked m full(1) show ?thesis
    by (auto simp: cohort_of_def Let_def rbind_eq_Inr rmap_eq_Inr_length metric_values_def)
qed

subsection \<open>Percentages\<close>

lemma percent_not_positive:
  assumes "not_above_one x" and "num_sub (PFloat x) (PInt 1) = Inr d" and "num_mul d (PInt 100) = Inr r"
    and "\<not> bad_threshold t"
  shows "\<not> num_less (PFloat t) r"
proof -
  have f: "float_of_int 1 = Inr (Flt 1)" "float_of_int 100 = Inr (Flt 100)"
    using float_of_int_small [of 1] float_of_int_small [of 100] by simp_all
  have d: "d = PFloat (float_sub x (Flt 1))" using assms(2) f by (simp add: on_floats_def)
  have r: "r = PFloat (float_mul (float_sub x (Flt 1)) (Flt 100))" using assms(3) f by (simp add: d on_floats_def)
  have s: "float_sub x (Flt 1) \<in> {NaN, NegZero, NegInf} \<or> (\<exists>v. float_sub x (Flt 1) = Flt v \<and> v \<le> 0)"
    using assms(1) to_double_nonpos [of "float_value x - 1"]
    by (auto simp: not_above_one_def float_sub_def float_add_def split: pyfloat.splits)
  then have "float_mul (float_sub x (Flt 1)) (Flt 100) \<in> {NaN, NegZero, NegInf}
      \<or> (\<exists>v. float_mul (float_sub x (Flt 1)) (Flt 100) = Flt v \<and> v \<le> 0)"
  proof (elim disjE exE conjE)
    fix v
    assume "float_sub x (Flt 1) = Flt v" "v \<le> 0"
    then show ?thesis using to_double_nonpos [of "v * 100"] by (auto simp: float_mul_def Let_def)
  qed (auto simp: float_mul_def)
  then show ?thesis using assms(4) unfolding r by (cases t) (auto simp: bad_threshold_def num_less_def)
qed

definition within_limit :: "pyval \<Rightarrow> pyfloat \<Rightarrow> bool" where
  "within_limit v limit \<longleftrightarrow> finite_value v \<and> num_le v (PFloat limit)"

lemma not_exceeds_within_limit:
  "isfinite x \<Longrightarrow> isfinite limit \<Longrightarrow> \<not> exceeds (Some (PFloat x)) limit \<Longrightarrow> within_limit (PFloat x) limit"
  by (cases x; cases limit) (auto simp: exceeds_def within_limit_def num_less_def num_le_def)

lemma num_mul_float: "num_mul (PFloat x) b = Inr v \<Longrightarrow> \<exists>y. v = PFloat y"
  by (auto simp: on_floats_def rbind_eq_Inr)

lemma num_sub_float: "num_sub (PFloat x) b = Inr v \<Longrightarrow> \<exists>y. v = PFloat y"
  by (auto simp: on_floats_def rbind_eq_Inr)

lemma regression_of_float:
  assumes "regression_of dir (Some b) (Some a) = Inr r"
  obtains x where "r = Some (PFloat x)"
proof -
  obtain q d y where "(if dir = ''higher'' then num_div b a else num_div a b) = Inr q" "num_sub q (PInt 1) = Inr d"
    "num_mul d (PInt 100) = Inr y" "r = Some y"
    using assms by (auto simp: regression_of_def rbind_eq_Inr)
  then show ?thesis using that by (metis num_div_float num_sub_float num_mul_float)
qed

lemma dispersion_of_float: "dispersion_of m vs = Inr d \<Longrightarrow> \<exists>x. d = PFloat x"
  by (auto simp: dispersion_of_def rbind_eq_Inr dest: num_div_float)

lemma samples_of_nonempty: "samples_of report = Inr ss \<Longrightarrow> ss \<noteq> []"
  by (cases "get_default report ''measurements'' (PList [])")
    (auto simp: samples_of_def Let_def rbind_eq_Inr)

text \<open>A metric that neither regressed nor was noisy or incomplete.\<close>

definition metric_holds :: "pyval list \<Rightarrow> pyval list \<Rightarrow> pyfloat \<Rightarrow> pyfloat \<Rightarrow> string \<times> string \<Rightarrow> bool" where
  "metric_holds bs cs t mad nd \<longleftrightarrow>
     list_all positive_number (metric_values (fst nd) bs) \<and> list_all positive_number (metric_values (fst nd) cs)
     \<and> (\<exists>mb mc r db dc. median (metric_values (fst nd) bs) = Inr mb \<and> median (metric_values (fst nd) cs) = Inr mc
          \<and> regression_of (snd nd) (Some mb) (Some mc) = Inr (Some r) \<and> within_limit r t
          \<and> dispersion_of mb (metric_values (fst nd) bs) = Inr db \<and> within_limit db mad
          \<and> dispersion_of mc (metric_values (fst nd) cs) = Inr dc \<and> within_limit dc mad)"

lemma row_of_holds:
  assumes "row_of base cand t mad nd = Inr r" and "\<not> row_regressed r" and "\<not> row_noisy r" and "finite_row r"
    and "baseline_median r \<noteq> None" and "candidate_median r \<noteq> None" and "isfinite t" and "isfinite mad"
  shows "\<exists>bs cs. samples_of base = Inr bs \<and> samples_of cand = Inr cs \<and> metric_holds bs cs t mad nd"
proof -
  obtain b c g where b: "cohort_of (fst nd) base = Inr b" and c: "cohort_of (fst nd) cand = Inr c"
    and g: "regression_of (snd nd) (c_median b) (c_median c) = Inr g"
    and r: "baseline_median r = c_median b" "candidate_median r = c_median c" "regression_percent r = g"
      "baseline_mad r = c_dispersion b" "candidate_mad r = c_dispersion c" "row_regressed r = exceeds g t"
      "row_noisy r \<longleftrightarrow> exceeds (c_dispersion b) mad \<or> exceeds (c_dispersion c) mad"
    using assms(1) by (auto simp: row_of_def rbind_eq_Inr)
  obtain mb mc where m: "c_median b = Some mb" "c_median c = Some mc" using assms(5,6) r(1,2) by auto
  obtain bs db where bs: "samples_of base = Inr bs" "list_all positive_number (metric_values (fst nd) bs)"
    "median (metric_values (fst nd) bs) = Inr mb" "dispersion_of mb (metric_values (fst nd) bs) = Inr db" "c_dispersion b = Some db"
    using cohort_of_complete [OF b m(1)] by metis
  obtain cs dc where cs: "samples_of cand = Inr cs" "list_all positive_number (metric_values (fst nd) cs)"
    "median (metric_values (fst nd) cs) = Inr mc" "dispersion_of mc (metric_values (fst nd) cs) = Inr dc" "c_dispersion c = Some dc"
    using cohort_of_complete [OF c m(2)] by metis
  obtain x where x: "g = Some (PFloat x)" using regression_of_float g unfolding m by metis
  obtain y z where yz: "db = PFloat y" "dc = PFloat z" using dispersion_of_float [OF bs(4)] dispersion_of_float [OF cs(4)] by blast
  have fin: "isfinite x" "isfinite y" "isfinite z"
    using assms(4) by (simp_all add: finite_row_def finite_opt_def r x bs(5) cs(5) yz)
  have "within_limit (PFloat x) t" "within_limit db mad" "within_limit dc mad"
    using assms(2,3) fin not_exceeds_within_limit assms(7,8) by (simp_all add: r x bs(5) cs(5) yz)
  with bs cs g show ?thesis unfolding m x metric_holds_def by blast
qed

section \<open>Properties\<close>

text \<open>C18: the release gate is sound. It passes (exit code 0 with \<^verbatim>\<open>--fail-on-regression\<close>) only if both files
  hold report objects that agree on everything a comparison needs, both have their samples, and
  for every metric each sample of both is a positive finite number, the regression of the medians
  is a finite number within the threshold and both relative deviations are within theirs.\<close>

theorem release_gate_sound:
  assumes "compare_main base cand t mad True opened = Inr 0"
  shows "\<exists>b c bs cs. base = Inr (PDict b) \<and> cand = Inr (PDict c)
     \<and> (\<forall>key\<in>set compared_keys. py_eq (get_field b key) (get_field c key))
     \<and> samples_of b = Inr bs \<and> samples_of c = Inr cs \<and> bs \<noteq> [] \<and> cs \<noteq> []
     \<and> (\<forall>nd\<in>set METRICS. metric_holds bs cs t mad nd)"
proof -
  obtain x y rep where xy: "base = Inr x" "cand = Inr y" "compare_values x y t mad = Inr rep" "dump_report rep = Inr ()"
    and good: "\<not> regressed rep" "\<not> noisy rep" "complete rep"
    using assms by (auto simp: compare_main_def rbind_eq_Inr split: sum.splits if_splits)
  obtain b c where bc: "x = PDict b" "y = PDict c" "compare_reports b c t mad = Inr rep"
    using xy(3) by (auto simp: compare_values_def split: pyval.splits)
  obtain rows where rows: "rmap (row_of b c t mad) METRICS = Inr rows" "metrics rep = rows" "regressed rep = list_ex row_regressed rows"
      "noisy rep = list_ex row_noisy rows" "complete rep = list_all (\<lambda>r. baseline_median r \<noteq> None \<and> candidate_median r \<noteq> None) rows"
    and keys: "check_reports b c = Inr ()" and limits: "\<not> bad_threshold t" "\<not> bad_threshold mad"
    using bc(3) by (auto simp: compare_reports_def rbind_eq_Inr)
  have row: "\<exists>bs cs. samples_of b = Inr bs \<and> samples_of c = Inr cs \<and> metric_holds bs cs t mad nd" if nd: "nd \<in> set METRICS" for nd
  proof -
    obtain r where r: "r \<in> set rows" "row_of b c t mad nd = Inr r" using rmap_eq_Inr_all [OF rows(1) nd] by blast
    have "\<not> row_regressed r" "\<not> row_noisy r" "baseline_median r \<noteq> None" "candidate_median r \<noteq> None"
      using good r(1) by (auto simp: rows list_ex_iff list_all_iff)
    moreover have "finite_row r" using xy(4) r(1) by (auto simp: dump_report_def rows(2) list_all_iff)
    ultimately show ?thesis using row_of_holds [OF r(2)] limits by (simp add: bad_threshold_def)
  qed
  have "METRICS \<noteq> []" by (simp add: METRICS_def)
  then obtain bs cs where s: "samples_of b = Inr bs" "samples_of c = Inr cs" using row last_in_set by blast
  have "\<forall>nd\<in>set METRICS. metric_holds bs cs t mad nd" using row s by fastforce
  moreover have "\<forall>key\<in>set compared_keys. py_eq (get_field b key) (get_field c key)"
    using keys by (simp add: check_reports_def rbind_eq_Inr list_all_iff)
  ultimately show ?thesis using xy bc s samples_of_nonempty by blast
qed

subsection \<open>A sample report\<close>

definition sample_report :: pydict where
  "sample_report =
     [(skey ''report_schema'', PInt 1), (skey ''benchmark'', skey ''tay-release-v2''), (skey ''revision'', skey ''r''),
      (skey ''version'', skey ''v''), (skey ''environment'', PDict []), (skey ''workload'', PDict [(skey ''trials'', PInt 1)]),
      (skey ''measurements'', PList [PDict (map (\<lambda>(n, _). (skey n, PInt 100)) METRICS)])]"

lemma py_eq_refl: "v \<noteq> PFloat NaN \<Longrightarrow> py_eq v v"
  by (simp add: py_eq_def)

lemma sample_samples: "samples_of sample_report = Inr [PDict (map (\<lambda>(n, _). (skey n, PInt 100)) METRICS)]"
  by (simp add: samples_of_def sample_report_def get_default_def item_def METRICS_def)

lemma sample_check: "check_reports sample_report sample_report = Inr ()"
  by (simp add: check_reports_def list_all_iff compared_keys_def sample_report_def get_field_def py_eq_refl)

lemma float_100: "float_of_int 100 = Inr (Flt 100)" "float_of_int 1 = Inr (Flt 1)"
  using float_of_int_small [of 100] float_of_int_small [of 1] by simp_all

lemma sample_cohort:
  "nd \<in> set METRICS \<Longrightarrow>
   cohort_of (fst nd) sample_report = Inr \<lparr>c_median = Some (PInt 100), c_dispersion = Some (PFloat (Flt 0)), c_count = 1\<rparr>"
  by (auto simp: cohort_of_def sample_samples METRICS_def get_field_def valid_value_def float_100 median_def num_sorted_def
      dispersion_of_def int_truediv_def finite_or_overflow_def to_double_def)

definition sample_row :: "string \<times> string \<Rightarrow> row" where
  "sample_row nd = \<lparr>metric = fst nd, baseline_median = Some (PInt 100), candidate_median = Some (PInt 100), baseline_samples = 1,
     candidate_samples = 1, direction = snd nd, regression_percent = Some (PFloat (Flt 0)), row_regressed = False,
     baseline_mad = Some (PFloat (Flt 0)), candidate_mad = Some (PFloat (Flt 0)), row_noisy = False\<rparr>"

lemma sample_row_of:
  assumes "nd \<in> set METRICS"
  shows "row_of sample_report sample_report (Flt 20) (Flt 10) nd = Inr (sample_row nd)"
proof -
  have "regression_of dir (Some (PInt 100)) (Some (PInt 100)) = Inr (Some (PFloat (Flt 0)))" for dir
    by (simp add: regression_of_def int_truediv_def finite_or_overflow_def on_floats_def float_100 float_sub_def float_add_def
        float_mul_def to_double_def [of 0])
  then show ?thesis
    by (simp add: row_of_def sample_cohort [OF assms] exceeds_def num_less_def sample_row_def)
qed

lemma sample_compare:
  "\<exists>c. compare_reports sample_report sample_report (Flt 20) (Flt 10) = Inr c \<and> dump_report c = Inr () \<and> \<not> regressed c \<and> \<not> noisy c \<and> complete c"
proof -
  have rows: "rmap (row_of sample_report sample_report (Flt 20) (Flt 10)) METRICS = Inr (map sample_row METRICS)"
    by (rule rmap_all_Inr) (rule sample_row_of)
  have "revision_fields sample_report sample_report = Inr [(skey ''baseline_revision'', skey ''r''), (skey ''candidate_revision'', skey ''r''),
      (skey ''baseline_version'', skey ''v''), (skey ''candidate_version'', skey ''v''), (skey ''workload'', PDict [(skey ''trials'', PInt 1)]),
      (skey ''environment'', PDict [])]"
    by (simp add: revision_fields_def item_def sample_report_def)
  with rows show ?thesis
    by (simp add: compare_reports_def sample_check bad_threshold_def num_less_def dump_report_def list_all_iff list_ex_iff
        finite_row_def finite_opt_def sample_row_def)
qed

lemma sample_main:
  "compare_main (Inr (PDict sample_report)) (Inr (PDict sample_report)) (Flt 20) (Flt 10) True (Inr (), \<lambda>_. Inr ()) = Inr 0"
  using sample_compare by (auto simp: compare_main_def compare_values_def)

theorem release_gate_sound_witness:
  "\<exists>bs. samples_of sample_report = Inr bs \<and> (\<forall>nd\<in>set METRICS. metric_holds bs bs (Flt 20) (Flt 10) nd)"
  using release_gate_sound [OF sample_main] by auto

text \<open>A report compared with itself never counts as regressed, whatever its numbers and the thresholds.\<close>

theorem self_comparison_passes:
  assumes "compare_reports report report t mad = Inr c"
  shows "\<not> regressed c"
proof -
  obtain rows where rows: "rmap (row_of report report t mad) METRICS = Inr rows" "regressed c = list_ex row_regressed rows"
    and t: "\<not> bad_threshold t"
    using assms by (auto simp: compare_reports_def rbind_eq_Inr)
  have "\<not> row_regressed r" if r: "r \<in> set rows" for r
  proof -
    obtain nd g and co :: cohort where g: "row_regressed r = exceeds g t" "regression_of (snd nd) (c_median co) (c_median co) = Inr g"
      using rmap_eq_Inr_set [OF rows(1) r] by (auto simp: row_of_def rbind_eq_Inr)
    show ?thesis
    proof (cases "c_median co")
      case None
      with g show ?thesis by (simp add: regression_of_def exceeds_def)
    next
      case (Some m)
      then obtain q d y where q: "num_div m m = Inr q" "num_sub q (PInt 1) = Inr d" "num_mul d (PInt 100) = Inr y" "g = Some y"
        using g(2) by (auto simp: regression_of_def rbind_eq_Inr)
      moreover have "\<exists>x. q = PFloat x \<and> not_above_one x" using num_div_self [OF q(1)] by (auto simp: not_above_one_def)
      ultimately show ?thesis using percent_not_positive t g(1) by (auto simp: exceeds_def)
    qed
  qed
  then show ?thesis by (auto simp: rows(2) list_ex_iff)
qed

theorem self_comparison_passes_witness:
  "\<exists>c. compare_reports sample_report sample_report (Flt 20) (Flt 10) = Inr c \<and> \<not> regressed c"
  using sample_compare self_comparison_passes by blast

text \<open>An improvement is never flagged: if the candidate's median is at least as good as the baseline's in
  the direction of the metric, its regression does not exceed any threshold, rounding included.\<close>

theorem improvement_not_flagged:
  assumes "positive_double b" and "positive_double a" and "if dir = ''higher'' then num_le b a else num_le a b"
    and "regression_of dir (Some b) (Some a) = Inr r" and "\<not> bad_threshold t"
  shows "\<not> exceeds r t"
proof -
  obtain q d y where q: "(if dir = ''higher'' then num_div b a else num_div a b) = Inr q" "num_sub q (PInt 1) = Inr d"
    "num_mul d (PInt 100) = Inr y" "r = Some y"
    using assms(4) by (auto simp: regression_of_def rbind_eq_Inr)
  have "\<exists>x. q = PFloat x \<and> not_above_one x"
    using num_div_le_1 [OF assms(1,2)] num_div_le_1 [OF assms(2,1)] assms(3) q(1) by (auto split: if_splits)
  with q(2-4) assms(5) percent_not_positive show ?thesis by (auto simp: exceeds_def)
qed

theorem improvement_not_flagged_witness:
  "\<exists>r. regression_of ''lower'' (Some (PInt 100)) (Some (PInt 50)) = Inr r \<and> \<not> exceeds r (Flt 20)"
proof -
  have d: "to_double (50 / 100) = Flt (1 / 2)"
    using is_double_pos [of "1 / 2" 1 "-1"] by (simp add: ipow_def is_double_def)
  have "is_ok (regression_of ''lower'' (Some (PInt 100)) (Some (PInt 50)))"
    using d by (simp add: regression_of_def int_truediv_def finite_or_overflow_def on_floats_def float_100)
  then obtain r where r: "regression_of ''lower'' (Some (PInt 100)) (Some (PInt 50)) = Inr r" by (auto simp: is_ok_iff)
  have p: "positive_double (PInt 100)" "positive_double (PInt 50)" "num_le (PInt 50) (PInt 100)" "\<not> bad_threshold (Flt 20)"
    using float_of_int_small [of 50] by (simp_all add: positive_double_defs num_le_def float_100 bad_threshold_def num_less_def)
  show ?thesis using improvement_not_flagged [OF p(1,2) _ r p(4)] p(3) r by simp
qed

end
