(* ===== verification/ReleaseRun.thy ===== *)
theory ReleaseRun
  imports Compare SocketPath
begin

section \<open>Measuring two checkouts (\<^verbatim>\<open>bench/release_compare.py\<close>)\<close>

text \<open>
  The benchmark driver: it runs the two checkouts in ABBA order, one fresh VM and one data
  directory per trial, and merges the trials of each checkout into one report for \<open>Compare\<close>.
  The subprocesses and the file system are arguments; what the driver does is a list of actions.
\<close>

subsection \<open>\<^verbatim>\<open>release_compare\<close>\<close>

definition trial_order :: "int \<Rightarrow> string list res" where
  "trial_order trials =
     (if trials \<in> {2, 4, 6, 8, 10}
      then Inr (concat (replicate (nat (trials div 2)) [''baseline'', ''candidate'', ''candidate'', ''baseline'']))
      else Inl ValueError)"

definition IDENTITY :: "string list" where
  "IDENTITY = [''report_schema'', ''benchmark'', ''harness_sha256'', ''workload'', ''environment'', ''revision'', ''version'',
     ''working_tree_dirty'']"

definition COMPARISON_PROTOCOL :: pystr where
  "COMPARISON_PROTOCOL = str ''balanced-abba-v2; warmed fresh VM; bounded in-flight jobs; syncfs before Linux sync trials''"

text \<open>The checks on one trial's report.\<close>

definition check_trial :: "pydict \<Rightarrow> pydict \<Rightarrow> unit res" where
  "check_trial first report =
     rbind (ensure (list_all (\<lambda>key. py_eq (get_field report key) (get_field first key)) IDENTITY) ValueError) (\<lambda>_.
     rbind (value_get (get_default report ''workload'' (PDict [])) ''trials'') (\<lambda>trials.
     if \<not> equals_int trials 1 then Inl ValueError
     else rbind (value_len (get_default report ''measurements'' (PList []))) (\<lambda>n. ensure (n = 1) ValueError)))"

text \<open>\<^verbatim>\<open>report["measurements"][0]\<close> of a sized value.\<close>

fun first_element :: "pyval \<Rightarrow> pyval res" where
  "first_element (PList (x # _)) = Inr x"
| "first_element (PStr (c # _)) = Inr (PStr [c])"
| "first_element (PDict _) = Inl KeyError"
| "first_element _ = Inl TypeError"

fun as_mapping :: "pyval \<Rightarrow> pydict res" where
  "as_mapping (PDict d) = Inr d"
| "as_mapping _ = Inl TypeError"

definition aggregate :: "pydict list \<Rightarrow> string list \<Rightarrow> pystr \<Rightarrow> pydict res" where
  "aggregate reports order orchestrator =
     (case reports of
        [] \<Rightarrow> Inl ValueError
      | first # _ \<Rightarrow>
          rbind (ensure (length reports = length order div 2) ValueError) (\<lambda>_.
          rbind (rmap (check_trial first) reports) (\<lambda>_.
          rbind (item first ''workload'') (\<lambda>w.
          rbind (as_mapping w) (\<lambda>workload.
          rbind (rmap (\<lambda>r. rbind (item r ''measurements'') first_element) reports) (\<lambda>ms.
          Inr (dupdate first
            [(skey ''workload'', PDict (dset workload (skey ''trials'') (PInt (int (length reports))))),
             (skey ''measurements'', PList ms), (skey ''comparison_protocol'', PStr COMPARISON_PROTOCOL),
             (skey ''orchestrator_sha256'', PStr orchestrator), (skey ''trial_order'', PList (map skey order))])))))))"

text \<open>\<^verbatim>\<open>run\<close>: the commands it starts and the files it writes, in order. The paths are resolved ones;
  \<open>trial i\<close> is what running the \<open>i\<close>-th command and reading its report yields.\<close>

record bench_args =
  b_baseline :: pystr
  b_candidate :: pystr
  b_harness :: pystr
  b_data_root :: pystr
  b_output_dir :: pystr
  b_build_root :: "pystr option"
  b_deps_root :: "pystr option"
  b_mode :: pystr
  b_validated :: bool
  b_jobs :: int
  b_clients :: int
  b_trials :: int

datatype action =
    SyncFilesystem pystr
  | RunTrial pystr "(string \<times> pystr option) list" "pystr list"
  | WriteReport pystr pydict

definition trial_name :: "nat \<Rightarrow> string \<Rightarrow> pystr" where
  "trial_name index cohort =
     (let ds = dec_digits index in digit_text (if length ds < 2 then 0 # ds else ds)) @ str ''-'' @ str cohort"

definition trial_target :: "bench_args \<Rightarrow> nat \<Rightarrow> string \<Rightarrow> pystr" where
  "trial_target a index cohort = path_join (b_output_dir a) [str ''trial-'' @ trial_name index cohort @ str ''.json'']"

definition trial_data :: "bench_args \<Rightarrow> nat \<Rightarrow> string \<Rightarrow> pystr" where
  "trial_data a index cohort = path_join (b_data_root a) [trial_name index cohort]"

definition trial_environment :: "bench_args \<Rightarrow> string \<Rightarrow> (string \<times> pystr option) list" where
  "trial_environment a cohort =
     [(''MIX_BUILD_PATH'', map_option (\<lambda>root. path_join root [str cohort]) (b_build_root a)),
      (''MIX_DEPS_PATH'', map_option (\<lambda>root. path_join root [str cohort]) (b_deps_root a))]"

definition int_text :: "int \<Rightarrow> pystr" where
  "int_text i = (if i < 0 then str ''-'' else []) @ digit_text (dec_digits (nat \<bar>i\<bar>))"

definition trial_command :: "bench_args \<Rightarrow> nat \<Rightarrow> string \<Rightarrow> pystr list" where
  "trial_command a index cohort =
     [str ''mix'', str ''run'', str ''--no-start'', str ''--no-compile'', b_harness a, str ''--mode'', b_mode a,
      str ''--path'', trial_data a index cohort, str ''--output'', trial_target a index cohort,
      str ''--jobs'', int_text (b_jobs a), str ''--clients'', int_text (b_clients a), str ''--trials'', str ''1'']
     @ (if b_validated a then [str ''--validated-filesystem''] else [])"

definition cwd_of :: "bench_args \<Rightarrow> string \<Rightarrow> pystr" where
  "cwd_of a cohort = (if cohort = ''baseline'' then b_baseline a else b_candidate a)"

definition trial_actions :: "bench_args \<Rightarrow> bool \<Rightarrow> nat \<Rightarrow> string \<Rightarrow> action list" where
  "trial_actions a linux index cohort =
     (if b_mode a = str ''sync'' \<and> linux then [SyncFilesystem (b_data_root a)] else [])
     @ [RunTrial (cwd_of a cohort) (trial_environment a cohort) (trial_command a index cohort)]"

definition add_report :: "string \<Rightarrow> pydict \<Rightarrow> (string, pydict list) dict \<Rightarrow> (string, pydict list) dict" where
  "add_report cohort report reports =
     dset reports cohort ((case dget reports cohort of Some rs \<Rightarrow> rs | None \<Rightarrow> []) @ [report])"

fun trial_loop ::
  "bench_args \<Rightarrow> bool \<Rightarrow> (nat \<Rightarrow> pydict res) \<Rightarrow> (nat \<times> string) list \<Rightarrow> (string, pydict list) dict
   \<Rightarrow> action list \<times> (string, pydict list) dict res" where
  "trial_loop a linux trial [] reports = ([], Inr reports)"
| "trial_loop a linux trial ((i, cohort) # rest) reports =
     (case trial i of
        Inl e \<Rightarrow> (trial_actions a linux i cohort, Inl e)
      | Inr report \<Rightarrow>
          (case trial_loop a linux trial rest (add_report cohort report reports) of
             (acts, r) \<Rightarrow> (trial_actions a linux i cohort @ acts, r)))"

fun write_reports ::
  "bench_args \<Rightarrow> string list \<Rightarrow> pystr \<Rightarrow> (string \<times> pydict list) list \<Rightarrow> action list \<times> unit res" where
  "write_reports a order digest [] = ([], Inr ())"
| "write_reports a order digest ((cohort, samples) # rest) =
     (case aggregate samples order digest of
        Inl e \<Rightarrow> ([], Inl e)
      | Inr report \<Rightarrow>
          (case write_reports a order digest rest of
             (acts, r) \<Rightarrow> (WriteReport (path_join (b_output_dir a) [str cohort @ str ''.json'']) report # acts, r)))"

definition release_run ::
  "bench_args \<Rightarrow> bool \<Rightarrow> bool \<Rightarrow> bool \<Rightarrow> (nat \<Rightarrow> pydict res) \<Rightarrow> pystr \<Rightarrow> action list \<times> unit res" where
  "release_run a linux data_exists has_reports trial digest =
     (case
        rbind (trial_order (b_trials a)) (\<lambda>order.
        rbind (ensure (b_mode a \<noteq> str ''sync'' \<or> b_validated a) ValueError) (\<lambda>_.
        rbind (ensure (1 \<le> b_jobs a \<and> b_jobs a \<le> 100000 \<and> 1 \<le> b_clients a \<and> b_clients a \<le> 32) ValueError) (\<lambda>_.
        rbind (ensure (\<not> data_exists) ValueError) (\<lambda>_.
        rbind (ensure (\<not> has_reports) ValueError) (\<lambda>_.
        Inr order))))) of
        Inl e \<Rightarrow> ([], Inl e)
      | Inr order \<Rightarrow>
          (case trial_loop a linux trial (zip [0..<length order] order) [(''baseline'', []), (''candidate'', [])] of
             (acts, Inl e) \<Rightarrow> (acts, Inl e)
           | (acts, Inr reports) \<Rightarrow>
               (case write_reports a order digest reports of (writes, r) \<Rightarrow> (acts @ writes, r))))"

definition positions :: "string \<Rightarrow> string list \<Rightarrow> nat list" where
  "positions c order = map fst (filter (\<lambda>p. snd p = c) (zip [0..<length order] order))"

subsection \<open>Merging trials\<close>

lemma item_dset [simp]: "item (dset d (skey n) v) m = (if m = n then Inr v else item d m)"
  by (simp add: item_def)

lemma get_default_dset [simp]: "get_default (dset d (skey n) v) m w = (if m = n then v else get_default d m w)"
  by (simp add: get_default_def)

lemma aggregate_samples:
  assumes "aggregate reports order digest = Inr r"
  obtains ms where "samples_of r = Inr ms" and "length ms = length reports" and "length reports = length order div 2"
    and "rmap (\<lambda>x. rbind (item x ''measurements'') first_element) reports = Inr ms"
    and "get_field r ''trial_order'' = PList (map skey order)" and "get_field r ''orchestrator_sha256'' = PStr digest"
    and "get_field r ''comparison_protocol'' = PStr COMPARISON_PROTOCOL"
proof -
  obtain first rest where cons: "reports = first # rest" using assms by (cases reports) (auto simp: aggregate_def)
  then obtain workload ms where f: "length reports = length order div 2"
    and ms: "rmap (\<lambda>x. rbind (item x ''measurements'') first_element) reports = Inr ms"
    and r: "r = dupdate first
            [(skey ''workload'', PDict (dset workload (skey ''trials'') (PInt (int (length reports))))),
             (skey ''measurements'', PList ms), (skey ''comparison_protocol'', PStr COMPARISON_PROTOCOL),
             (skey ''orchestrator_sha256'', PStr digest), (skey ''trial_order'', PList (map skey order))]"
    using assms unfolding aggregate_def cons list.case rbind_eq_Inr ensure_eq_Inr sum.inject by blast
  have "length ms = length reports" using rmap_eq_Inr_length [OF ms] .
  moreover have "samples_of r = Inr ms"
    using cons \<open>length ms = length reports\<close> by (simp add: r samples_of_def dupdate_def Let_def)
  ultimately show ?thesis using that f ms by (simp add: r dupdate_def)
qed

subsection \<open>The sequence of trials\<close>

lemma dget_add_report:
  "dget (add_report c r reports) d =
     (if d = c then Some ((case dget reports c of Some rs \<Rightarrow> rs | None \<Rightarrow> []) @ [r]) else dget reports d)"
  by (simp add: add_report_def)

lemma dkeys_add_report: "c \<in> set (dkeys reports) \<Longrightarrow> dkeys (add_report c r reports) = dkeys reports"
  by (simp add: add_report_def dkeys_dset_present)

lemma trial_loop_Cons:
  assumes "trial_loop a linux trial ((i, c) # ics) reports = (acts, Inr out)"
  obtains r acts' where "trial_loop a linux trial ics (add_report c r reports) = (acts', Inr out)"
    and "acts = trial_actions a linux i c @ acts'"
proof (cases "trial i")
  case (Inr r)
  obtain acts' x where "trial_loop a linux trial ics (add_report c r reports) = (acts', x)" by fastforce
  with assms Inr that show ?thesis by simp
qed (use assms in simp)

lemma trial_loop_actions:
  "trial_loop a linux trial ics reports = (acts, Inr out) \<Longrightarrow> snd ` set ics \<subseteq> set (dkeys reports) \<Longrightarrow>
   acts = concat (map (\<lambda>(i, c). trial_actions a linux i c) ics) \<and> dkeys out = dkeys reports"
proof (induction ics arbitrary: reports acts)
  case (Cons p ics)
  obtain i c where p: "p = (i, c)" by fastforce
  from Cons.prems(1) obtain r acts' where t: "trial_loop a linux trial ics (add_report c r reports) = (acts', Inr out)"
    "acts = trial_actions a linux i c @ acts'" unfolding p by (rule trial_loop_Cons)
  have keys: "dkeys (add_report c r reports) = dkeys reports" using Cons.prems(2) by (simp add: p dkeys_add_report)
  with Cons.IH [OF t(1)] Cons.prems(2) t(2) show ?case by (simp add: p)
qed simp

lemma trial_loop_reports:
  "trial_loop a linux trial ics reports = (acts, Inr out) \<Longrightarrow> dget reports c = Some old \<Longrightarrow>
   \<exists>new. length new = length (filter (\<lambda>p. snd p = c) ics) \<and> dget out c = Some (old @ new)"
proof (induction ics arbitrary: reports acts old)
  case (Cons p ics)
  obtain i d where p: "p = (i, d)" by fastforce
  from Cons.prems(1) obtain r acts' where t: "trial_loop a linux trial ics (add_report d r reports) = (acts', Inr out)"
    unfolding p by (rule trial_loop_Cons)
  show ?case
  proof (cases "c = d")
    case True
    then have "dget (add_report d r reports) c = Some (old @ [r])" using Cons.prems(2) by (simp add: dget_add_report)
    from Cons.IH [OF t this] obtain new where "length new = length (filter (\<lambda>p. snd p = c) ics)" "dget out c = Some ((old @ [r]) @ new)"
      by blast
    then show ?thesis using True by (intro exI [of _ "r # new"]) (simp add: p)
  next
    case False
    then have "dget (add_report d r reports) c = Some old" using Cons.prems(2) by (simp add: dget_add_report)
    from Cons.IH [OF t this] False show ?thesis by (simp add: p)
  qed
qed simp

lemma trial_name_index:
  assumes "trial_name i c = trial_name j d"
  shows "i = j"
proof -
  let ?f = "\<lambda>n. let ds = dec_digits n in if length ds < 2 then 0 # ds else ds"
  have t: "takeWhile (\<lambda>x. x \<noteq> 45) (trial_name n s) = digit_text (?f n)" for n s
    unfolding trial_name_def Let_def by (subst takeWhile_append2) (auto simp: digit_text_def str_Cons)
  have "digit_text (?f i) = digit_text (?f j)" using assms t by metis
  then have "?f i = ?f j" unfolding digit_text_def by (rule inj_map_eq_map [THEN iffD1, rotated]) (simp add: inj_on_def)
  moreover have "dec_value (?f n) = n" for n by (simp add: Let_def)
  ultimately show ?thesis by metis
qed

lemma path_join_inject: "\<not> isabs x \<Longrightarrow> \<not> isabs y \<Longrightarrow> path_join dir [x] = path_join dir [y] \<Longrightarrow> x = y"
  by (auto split: if_splits)

lemma not_isabs_trial_name: "\<not> isabs (trial_name i c)"
proof -
  let ?t = "digit_text (let ds = dec_digits i in if length ds < 2 then 0 # ds else ds)"
  have "?t \<noteq> []" by (simp add: digit_text_def Let_def)
  moreover have "x \<in> set ?t \<Longrightarrow> 48 \<le> x" for x by (auto simp: digit_text_def)
  ultimately have "48 \<le> hd ?t" using list.set_sel(1) by blast
  with \<open>?t \<noteq> []\<close> show ?thesis by (simp add: isabs_def slash_def trial_name_def Let_def hd_append)
qed

lemma distinct_trials:
  assumes "\<And>i c j d. f i c = f j d \<Longrightarrow> i = j"
  shows "distinct (map (\<lambda>(i, c). f i c) (zip [0..<length order] order))"
  unfolding distinct_map
proof
  show "distinct (zip [0..<length order] order)" by (simp add: distinct_zipI1)
  show "inj_on (\<lambda>(i, c). f i c) (set (zip [0..<length order] order))"
    using assms by (auto simp: inj_on_def in_set_zip) metis
qed

lemma trial_data_distinct: "distinct (map (\<lambda>(i, c). trial_data a i c) (zip [0..<length order] order))"
  by (rule distinct_trials) (metis trial_data_def path_join_inject not_isabs_trial_name trial_name_index)

lemma trial_target_distinct: "distinct (map (\<lambda>(i, c). trial_target a i c) (zip [0..<length order] order))"
proof (rule distinct_trials)
  fix i c j d
  assume "trial_target a i c = trial_target a j d"
  moreover have "\<not> isabs (str ''trial-'' @ x)" for x by (simp add: isabs_def slash_def str_Cons)
  ultimately have e: "trial_name i c @ str ''.json'' = trial_name j d @ str ''.json''"
    unfolding trial_target_def using path_join_inject by blast
  then show "i = j" using trial_name_index by simp
qed

lemma write_reports_pair:
  assumes "write_reports a order digest [(x, xs), (y, ys)] = (acts, Inr ())"
  obtains b c where "aggregate xs order digest = Inr b" and "aggregate ys order digest = Inr c"
    and "acts = [WriteReport (path_join (b_output_dir a) [str x @ str ''.json'']) b,
                 WriteReport (path_join (b_output_dir a) [str y @ str ''.json'']) c]"
  using assms by (auto split: sum.splits)

section \<open>Properties\<close>

text \<open>The trial order is balanced: each checkout is measured \<open>trials\<close> times, and the positions of
  both sum to the same, so a linear drift of the machine affects both alike.\<close>

theorem trial_order_balanced:
  assumes "trial_order trials = Inr order"
  shows "length order = 2 * nat trials \<and> set order = {''baseline'', ''candidate''}
     \<and> length (positions ''baseline'' order) = nat trials \<and> length (positions ''candidate'' order) = nat trials
     \<and> sum_list (positions ''baseline'' order) = sum_list (positions ''candidate'' order)"
proof -
  have "trials = 2 \<or> trials = 4 \<or> trials = 6 \<or> trials = 8 \<or> trials = 10"
    and o: "order = concat (replicate (nat (trials div 2)) [''baseline'', ''candidate'', ''candidate'', ''baseline''])"
    using assms by (auto simp: trial_order_def split: if_splits)
  then show ?thesis by (elim disjE) (simp_all add: numeral_nat positions_def insert_commute)
qed

theorem trial_order_balanced_witness:
  "\<exists>order. trial_order 8 = Inr order \<and> sum_list (positions ''baseline'' order) = sum_list (positions ''candidate'' order)"
proof -
  obtain order where "trial_order 8 = Inr order" by (simp add: trial_order_def)
  then show ?thesis using trial_order_balanced by blast
qed


definition sample_bench :: bench_args where
  "sample_bench = \<lparr>b_baseline = str ''/old'', b_candidate = str ''/new'', b_harness = str ''/h.exs'', b_data_root = str ''/data'',
     b_output_dir = str ''/out'', b_build_root = None, b_deps_root = None, b_mode = str ''write'', b_validated = False, b_jobs = 10000,
     b_clients = 8, b_trials = 2\<rparr>"

lemma sample_trial: "check_trial sample_report sample_report = Inr ()"
  by (simp add: check_trial_def list_all_iff IDENTITY_def py_eq_refl sample_report_def get_field_def get_default_def METRICS_def)


end
