(* ===== verification/Qualification.thy ===== *)
theory Qualification
  imports Compare Http
begin

section \<open>Release qualification (\<^verbatim>\<open>.github/scripts/check_release_qualification.py\<close>)\<close>

text \<open>
  The last check before a release: some run of the qualification workflow for exactly this commit,
  started by hand, must have succeeded together with its gate job. The GitHub command-line tool
  is the parameter \<open>gh\<close> (the text it prints for an endpoint, or its failure) and \<^verbatim>\<open>git\<close> the
  parameter \<open>git_head\<close>; \<open>repr\<close> is Python's \<^verbatim>\<open>str()\<close> of a value that is not a string.
  Shown: the search returns the first qualifying run and none if there is none, and the check
  exits with 0 only for a qualified commit.
\<close>

subsection \<open>Reading the API\<close>

type_synonym fetch = "pystr \<Rightarrow> pydict list res"

fun dict_of :: "pyval \<Rightarrow> pydict" where
  "dict_of (PDict d) = d"
| "dict_of _ = []"

definition pages :: "nat \<Rightarrow> (pystr \<Rightarrow> pystr res) \<Rightarrow> fetch" where
  "pages rl gh endpoint =
     rbind (gh endpoint) (\<lambda>out.
     rbind (json_loads plain_pairs plain_constant rl out) (\<lambda>v.
     case v of
       PList ps \<Rightarrow> if list_all is_dict ps then Inr (map dict_of ps) else Inl ValueError
     | _ \<Rightarrow> Inl ValueError))"

text \<open>A \<^verbatim>\<open>for\<close> loop over a decoded value.\<close>

definition iterate :: "pyval \<Rightarrow> pyval list res" where
  "iterate v = rbind (value_len v) (\<lambda>_. Inr (elements v))"

subsection \<open>\<^verbatim>\<open>qualified_run\<close>\<close>

definition runs_endpoint :: "pystr \<Rightarrow> pystr \<Rightarrow> pystr" where
  "runs_endpoint repository commit =
     str ''repos/'' @ repository @ str ''/actions/workflows/qualification.yml/runs?head_sha='' @ commit @ str ''&status=success&per_page=100''"

definition jobs_endpoint :: "pystr \<Rightarrow> pystr \<Rightarrow> pystr" where
  "jobs_endpoint repository run_id = str ''repos/'' @ repository @ str ''/actions/runs/'' @ run_id @ str ''/jobs?per_page=100''"

definition wanted_run :: "pystr \<Rightarrow> pydict \<Rightarrow> bool" where
  "wanted_run commit run =
     (get_field run ''head_sha'' = PStr commit \<and> get_field run ''conclusion'' = skey ''success'' \<and>
      get_field run ''event'' = skey ''workflow_dispatch'')"

definition gate_job :: "pydict \<Rightarrow> bool" where
  "gate_job job =
     (get_field job ''name'' = skey ''Release qualification gate'' \<and> get_field job ''conclusion'' = skey ''success'')"

text \<open>\<^verbatim>\<open>any(...)\<close> stops at the first match.\<close>

fun any_job :: "pyval list \<Rightarrow> bool res" where
  "any_job [] = Inr False"
| "any_job (PDict job # jobs) = (if gate_job job then Inr True else any_job jobs)"
| "any_job (_ # jobs) = Inl AttributeError"

fun any_group :: "pydict list \<Rightarrow> bool res" where
  "any_group [] = Inr False"
| "any_group (g # groups) =
     rbind (iterate (get_default g ''jobs'' (PList []))) (\<lambda>jobs.
     rbind (any_job jobs) (\<lambda>found. if found then Inr True else any_group groups))"

definition run_url :: "(pyval \<Rightarrow> pystr) \<Rightarrow> pystr \<Rightarrow> pystr \<Rightarrow> pydict \<Rightarrow> pystr" where
  "run_url repr repository run_id run =
     py_str repr (get_default run ''html_url'' (PStr (str ''https://github.com/'' @ repository @ str ''/actions/runs/'' @ run_id)))"

definition positive_id :: "pydict \<Rightarrow> int option" where
  "positive_id run = (case get_field run ''id'' of PInt n \<Rightarrow> if n \<le> 0 then None else Some n | _ \<Rightarrow> None)"

text \<open>One run: its address if it qualifies.\<close>

definition check_run :: "fetch \<Rightarrow> (pyval \<Rightarrow> pystr) \<Rightarrow> pystr \<Rightarrow> pystr \<Rightarrow> pydict \<Rightarrow> pystr option res" where
  "check_run fetch repr repository commit run =
     (if \<not> wanted_run commit run then Inr None
      else
        (case positive_id run of
           None \<Rightarrow> Inr None
         | Some n \<Rightarrow>
             rbind (int_repr n) (\<lambda>run_id.
             rbind (fetch (jobs_endpoint repository run_id)) (\<lambda>groups.
             rbind (any_group groups) (\<lambda>found.
             Inr (if found then Some (run_url repr repository run_id run) else None))))))"

fun find_run :: "fetch \<Rightarrow> (pyval \<Rightarrow> pystr) \<Rightarrow> pystr \<Rightarrow> pystr \<Rightarrow> pyval list \<Rightarrow> pystr option res" where
  "find_run fetch repr repository commit [] = Inr None"
| "find_run fetch repr repository commit (PDict run # runs) =
     rbind (check_run fetch repr repository commit run) (\<lambda>url.
     case url of Some u \<Rightarrow> Inr (Some u) | None \<Rightarrow> find_run fetch repr repository commit runs)"
| "find_run fetch repr repository commit (_ # runs) = Inl AttributeError"

fun find_page :: "fetch \<Rightarrow> (pyval \<Rightarrow> pystr) \<Rightarrow> pystr \<Rightarrow> pystr \<Rightarrow> pydict list \<Rightarrow> pystr option res" where
  "find_page fetch repr repository commit [] = Inr None"
| "find_page fetch repr repository commit (page # rest) =
     rbind (iterate (get_default page ''workflow_runs'' (PList []))) (\<lambda>runs.
     rbind (find_run fetch repr repository commit runs) (\<lambda>url.
     case url of Some u \<Rightarrow> Inr (Some u) | None \<Rightarrow> find_page fetch repr repository commit rest))"

definition qualified_run :: "fetch \<Rightarrow> (pyval \<Rightarrow> pystr) \<Rightarrow> pystr \<Rightarrow> pystr \<Rightarrow> pystr option res" where
  "qualified_run fetch repr repository commit =
     rbind (fetch (runs_endpoint repository commit)) (find_page fetch repr repository commit)"

subsection \<open>\<^verbatim>\<open>main\<close>\<close>

definition name_char :: "codepoint \<Rightarrow> bool" where
  "name_char c = ((65 \<le> c \<and> c \<le> 90) \<or> (97 \<le> c \<and> c \<le> 122) \<or> (48 \<le> c \<and> c \<le> 57) \<or> c \<in> {95, 46, 45})"

text \<open>\<^verbatim>\<open>[A-Za-z0-9_.-]+/[A-Za-z0-9_.-]+\<close>.\<close>

definition repository_shape :: "pystr \<Rightarrow> bool" where
  "repository_shape repository =
     (case split_on 47 repository of
        [owner, name] \<Rightarrow> owner \<noteq> [] \<and> name \<noteq> [] \<and> list_all name_char owner \<and> list_all name_char name
      | _ \<Rightarrow> False)"

definition full_sha :: "pystr \<Rightarrow> bool" where
  "full_sha commit = (list_all is_lower_hex commit \<and> (length commit = 40 \<or> length commit = 64))"

text \<open>\<open>git_head\<close> is what \<^verbatim>\<open>git rev-parse HEAD\<close> prints, stripped.\<close>

definition commit_of :: "pystr option \<Rightarrow> pystr res \<Rightarrow> pystr res" where
  "commit_of commit_argument git_head =
     (case commit_argument of Some c \<Rightarrow> (if c = [] then git_head else Inr c) | None \<Rightarrow> git_head)"

text \<open>The exit code: 2 from \<^verbatim>\<open>parser.error\<close>, 1 from \<^verbatim>\<open>SystemExit\<close> with a message.\<close>

definition verdict :: "fetch \<Rightarrow> (pyval \<Rightarrow> pystr) \<Rightarrow> pystr \<Rightarrow> pystr \<Rightarrow> int res" where
  "verdict fetch repr repository commit =
     (case qualified_run fetch repr repository commit of
        Inl e \<Rightarrow> if e = CalledProcessError \<or> is_ValueError e then Inr 1 else Inl e
      | Inr None \<Rightarrow> Inr 1
      | Inr (Some url) \<Rightarrow> Inr 0)"

definition qualification_main ::
  "fetch \<Rightarrow> (pyval \<Rightarrow> pystr) \<Rightarrow> pystr option \<Rightarrow> pystr option \<Rightarrow> pystr res \<Rightarrow> int res" where
  "qualification_main fetch repr repository commit_argument git_head =
     (case repository of
        None \<Rightarrow> Inr 2
      | Some repo \<Rightarrow>
          if repo = [] \<or> \<not> repository_shape repo then Inr 2
          else if list_ex (\<lambda>part. part \<in> {str ''.'', str ''..''}) (split_on 47 repo) then Inr 2
          else
            rbind (commit_of commit_argument git_head) (\<lambda>commit.
            if \<not> full_sha commit then Inr 2 else verdict fetch repr repo commit))"

subsection \<open>The first qualifying run\<close>

text \<open>The specification: a run qualifies if it ran for this commit, was dispatched by hand, succeeded, and
  has a positive id under which the API lists a successful job with the name of the gate.\<close>

definition jobs_of :: "pydict list \<Rightarrow> pyval list" where
  "jobs_of groups = concat (map (\<lambda>g. elements (get_default g ''jobs'' (PList []))) groups)"

definition runs_of :: "pydict list \<Rightarrow> pyval list" where
  "runs_of ps = concat (map (\<lambda>p. elements (get_default p ''workflow_runs'' (PList []))) ps)"

fun is_gate :: "pyval \<Rightarrow> bool" where
  "is_gate (PDict job) = (dget job (skey ''name'') = Some (skey ''Release qualification gate'')
     \<and> dget job (skey ''conclusion'') = Some (skey ''success''))"
| "is_gate _ = False"

definition run_qualifies :: "fetch \<Rightarrow> pystr \<Rightarrow> pystr \<Rightarrow> pydict \<Rightarrow> bool" where
  "run_qualifies fetch repository commit run \<longleftrightarrow>
     dget run (skey ''head_sha'') = Some (PStr commit) \<and> dget run (skey ''conclusion'') = Some (skey ''success'') \<and>
     dget run (skey ''event'') = Some (skey ''workflow_dispatch'') \<and>
     (\<exists>n i groups. dget run (skey ''id'') = Some (PInt n) \<and> 0 < n \<and> int_repr n = Inr i \<and>
        fetch (jobs_endpoint repository i) = Inr groups \<and> list_ex is_gate (jobs_of groups))"

text \<open>Answers that have the documented shape.\<close>

definition listed :: "string \<Rightarrow> pydict \<Rightarrow> bool" where
  "listed name d \<longleftrightarrow> is_ok (value_len (get_default d name (PList []))) \<and> list_all is_dict (elements (get_default d name (PList [])))"

definition readable_run :: "fetch \<Rightarrow> pystr \<Rightarrow> pydict \<Rightarrow> bool" where
  "readable_run fetch repository run \<longleftrightarrow>
     (case positive_id run of
        None \<Rightarrow> True
      | Some n \<Rightarrow>
          (case rbind (int_repr n) (\<lambda>i. fetch (jobs_endpoint repository i)) of
             Inr groups \<Rightarrow> list_all (listed ''jobs'') groups
           | Inl _ \<Rightarrow> False))"

definition url_of :: "(pyval \<Rightarrow> pystr) \<Rightarrow> pystr \<Rightarrow> pydict \<Rightarrow> pystr" where
  "url_of repr repository run =
     (case positive_id run of
        Some n \<Rightarrow> (case int_repr n of Inr i \<Rightarrow> run_url repr repository i run | Inl _ \<Rightarrow> [])
      | None \<Rightarrow> [])"

lemma get_field_str: "get_field d k = PStr v \<longleftrightarrow> dget d (skey k) = Some (PStr v)"
  by (simp add: get_field_def split: option.split)

lemma wanted_run_iff:
  "wanted_run commit run \<longleftrightarrow> dget run (skey ''head_sha'') = Some (PStr commit) \<and>
     dget run (skey ''conclusion'') = Some (skey ''success'') \<and> dget run (skey ''event'') = Some (skey ''workflow_dispatch'')"
  by (simp add: wanted_run_def get_field_str)

lemma positive_id_iff: "positive_id run = Some n \<longleftrightarrow> dget run (skey ''id'') = Some (PInt n) \<and> 0 < n"
  by (auto simp: positive_id_def get_field_def split: option.splits pyval.splits)

lemma is_gate_PDict [simp]: "is_gate (PDict job) = gate_job job"
  by (simp add: gate_job_def get_field_str)

declare is_gate.simps(1) [simp del]

lemma any_job_exact:
  "list_all is_dict jobs \<Longrightarrow> any_job jobs = Inr (list_ex is_gate jobs)"
  by (induction jobs rule: any_job.induct) simp_all

lemma any_job_True: "any_job jobs = Inr True \<Longrightarrow> list_ex is_gate jobs"
  by (induction jobs rule: any_job.induct) (simp_all split: if_splits)

lemma iterate_Inr: "iterate v = Inr xs \<longleftrightarrow> is_ok (value_len v) \<and> xs = elements v"
  by (cases "value_len v") (auto simp: iterate_def)

lemma any_group_exact:
  "list_all (listed ''jobs'') groups \<Longrightarrow>
   any_group groups = Inr (list_ex is_gate (jobs_of groups))"
proof (induction groups)
  case (Cons g gs)
  then have "iterate (get_default g ''jobs'' (PList [])) = Inr (elements (get_default g ''jobs'' (PList [])))"
    by (simp add: iterate_Inr listed_def)
  with Cons show ?case by (auto simp: any_job_exact jobs_of_def listed_def)
qed (simp add: jobs_of_def)

lemma any_group_True:
  "any_group groups = Inr True \<Longrightarrow> list_ex is_gate (jobs_of groups)"
  by (induction groups) (auto simp: jobs_of_def rbind_eq_Inr iterate_Inr any_job_True split: if_splits)

lemma check_run_exact:
  assumes "readable_run fetch repository run"
  shows "check_run fetch repr repository commit run =
     Inr (if run_qualifies fetch repository commit run then Some (url_of repr repository run) else None)"
proof (cases "positive_id run")
  case (Some n)
  with assms obtain i groups where "int_repr n = Inr i" "fetch (jobs_endpoint repository i) = Inr groups" "list_all (listed ''jobs'') groups"
    by (auto simp: readable_run_def rbind_eq_Inr split: sum.splits)
  moreover have "dget run (skey ''id'') = Some (PInt n)" "0 < n" using Some by (simp_all add: positive_id_iff)
  ultimately show ?thesis
    using Some by (simp add: check_run_def run_qualifies_def wanted_run_iff url_of_def any_group_exact)
next
  case None
  then have "\<not> (dget run (skey ''id'') = Some (PInt n) \<and> 0 < n)" for n using positive_id_iff [of run n] by simp
  with None show ?thesis by (auto simp: check_run_def run_qualifies_def)
qed

lemma check_run_Some:
  "check_run fetch repr repository commit run = Inr (Some u) \<Longrightarrow> run_qualifies fetch repository commit run"
  by (auto simp: check_run_def run_qualifies_def wanted_run_iff positive_id_iff rbind_eq_Inr any_group_True split: option.splits if_splits)

lemma find_run_exact:
  assumes "list_all (\<lambda>v. is_dict v \<and> readable_run fetch repository (dict_of v)) runs"
  shows "find_run fetch repr repository commit runs =
     Inr (map_option (url_of repr repository) (find (run_qualifies fetch repository commit) (map dict_of runs)))"
  using assms
proof (induction runs)
  case (Cons v runs)
  then obtain d where "v = PDict d" by (cases v) simp_all
  with Cons show ?case by (simp add: check_run_exact)
qed simp

lemma find_run_Some:
  "find_run fetch repr repository commit runs = Inr (Some u) \<Longrightarrow> \<exists>d. PDict d \<in> set runs \<and> run_qualifies fetch repository commit d"
proof (induction runs)
  case (Cons v runs)
  then obtain d where d: "v = PDict d" by (cases v) simp_all
  obtain x where "check_run fetch repr repository commit d = Inr x" "x \<noteq> None \<or> find_run fetch repr repository commit runs = Inr (Some u)"
    using Cons.prems by (auto simp: d rbind_eq_Inr split: option.splits)
  with Cons.IH check_run_Some show ?case by (fastforce simp: d)
qed simp

lemma find_append: "find P (xs @ ys) = (case find P xs of None \<Rightarrow> find P ys | Some x \<Rightarrow> Some x)"
  by (induction xs) simp_all

lemma find_page_exact:
  assumes "list_all (\<lambda>p. listed ''workflow_runs'' p) ps"
    and "list_all (readable_run fetch repository) (map dict_of (runs_of ps))"
  shows "find_page fetch repr repository commit ps =
     Inr (map_option (url_of repr repository) (find (run_qualifies fetch repository commit) (map dict_of (runs_of ps))))"
  using assms
proof (induction ps)
  case (Cons p ps)
  let ?runs = "elements (get_default p ''workflow_runs'' (PList []))"
  have i: "iterate (get_default p ''workflow_runs'' (PList [])) = Inr ?runs" using Cons.prems(1) by (simp add: iterate_Inr listed_def)
  have "list_all (\<lambda>v. is_dict v \<and> readable_run fetch repository (dict_of v)) ?runs"
    using Cons.prems by (auto simp: listed_def runs_of_def list_all_iff)
  from find_run_exact [OF this] Cons i show ?case
    by (auto simp: runs_of_def find_append split: option.split)
qed (simp add: runs_of_def)

lemma find_page_Some:
  "find_page fetch repr repository commit ps = Inr (Some u) \<Longrightarrow>
   \<exists>d. PDict d \<in> set (runs_of ps) \<and> run_qualifies fetch repository commit d"
proof (induction ps)
  case (Cons p ps)
  then obtain x where "find_run fetch repr repository commit (elements (get_default p ''workflow_runs'' (PList []))) = Inr x"
    "x \<noteq> None \<or> find_page fetch repr repository commit ps = Inr (Some u)"
    by (auto simp: rbind_eq_Inr iterate_Inr split: option.splits)
  with Cons.IH find_run_Some show ?case by (fastforce simp: runs_of_def)
qed simp

section \<open>Properties\<close>

text \<open>The search finds the first qualifying run. If the answers have the documented shape, it returns the
  address of the first run, in the order of the pages, that is for this commit, was dispatched by
  hand, succeeded, and has a successful gate job; and nothing if there is no such run.\<close>

theorem qualified_run_exact:
  assumes "fetch (runs_endpoint repository commit) = Inr ps" and "list_all (listed ''workflow_runs'') ps"
    and "list_all (readable_run fetch repository) (map dict_of (runs_of ps))"
  shows "qualified_run fetch repr repository commit =
     Inr (map_option (url_of repr repository) (find (run_qualifies fetch repository commit) (map dict_of (runs_of ps))))"
  using assms by (simp add: qualified_run_def find_page_exact)

definition sample_sha :: pystr where "sample_sha = replicate 40 97"

definition sample_gh :: fetch where
  "sample_gh endpoint =
     Inr (if endpoint = runs_endpoint (str ''o/r'') sample_sha then
       [[(skey ''workflow_runs'', PList [
          PDict [(skey ''id'', PInt 7), (skey ''head_sha'', PStr sample_sha), (skey ''conclusion'', skey ''success''), (skey ''event'', skey ''push'')],
          PDict [(skey ''id'', PInt 8), (skey ''head_sha'', PStr sample_sha), (skey ''conclusion'', skey ''success''),
            (skey ''event'', skey ''workflow_dispatch''), (skey ''html_url'', skey ''u'')]])]]
     else [[(skey ''jobs'', PList [PDict [(skey ''name'', skey ''Release qualification gate''), (skey ''conclusion'', skey ''success'')]])]])"

lemma jobs_not_runs: "jobs_endpoint (str ''o/r'') i \<noteq> runs_endpoint (str ''o/r'') sample_sha"
  by (simp add: jobs_endpoint_def runs_endpoint_def str_Cons str_Nil)

lemma sample_ids: "int_repr 7 = Inr [55]" "int_repr 8 = Inr [56]"
  by (simp_all add: int_repr_def dec_digits.simps digit_text_def max_str_digits_def)

lemma sample_qualified: "qualified_run sample_gh (\<lambda>_. []) (str ''o/r'') sample_sha = Inr (Some (str ''u''))"
  using sample_ids jobs_not_runs
  by (simp add: qualified_run_def sample_gh_def get_default_def iterate_def check_run_def wanted_run_def positive_id_def get_field_def
      gate_job_def run_url_def py_str_def)

theorem qualified_run_exact_witness:
  "\<exists>ps. sample_gh (runs_endpoint (str ''o/r'') sample_sha) = Inr ps
     \<and> map_option (url_of (\<lambda>_. []) (str ''o/r'')) (find (run_qualifies sample_gh (str ''o/r'') sample_sha) (map dict_of (runs_of ps)))
       = Some (str ''u'')"
proof -
  obtain ps where ps: "sample_gh (runs_endpoint (str ''o/r'') sample_sha) = Inr ps" by (simp add: sample_gh_def)
  have "list_all (listed ''workflow_runs'') ps"
    using ps by (auto simp: sample_gh_def listed_def get_default_def)
  moreover have "list_all (readable_run sample_gh (str ''o/r'')) (map dict_of (runs_of ps))"
    using ps sample_ids jobs_not_runs
    by (auto simp: sample_gh_def listed_def get_default_def runs_of_def readable_run_def positive_id_def get_field_def)
  ultimately show ?thesis using qualified_run_exact [of sample_gh "str ''o/r''" sample_sha ps "\<lambda>_. []"] sample_qualified ps by simp
qed

text \<open>C17: the check refuses unqualified commits: it exits with 0 only for a repository of the form owner/name
  without dot segments and a full commit hash for which the API listed a qualifying run.\<close>

theorem qualification_sound:
  assumes "qualification_main fetch repr repository commit_argument git_head = Inr 0"
  shows "\<exists>repo owner name commit ps d. repository = Some repo \<and> split_on 47 repo = [owner, name]
     \<and> list_all name_char (owner @ name) \<and> {owner, name} \<inter> {[], str ''.'', str ''..''} = {}
     \<and> (commit_argument = Some commit \<or> git_head = Inr commit) \<and> full_sha commit
     \<and> fetch (runs_endpoint repo commit) = Inr ps \<and> PDict d \<in> set (runs_of ps) \<and> run_qualifies fetch repo commit d"
proof -
  obtain repo where repo: "repository = Some repo" "repository_shape repo" "\<not> list_ex (\<lambda>part. part \<in> {str ''.'', str ''..''}) (split_on 47 repo)"
    using assms by (auto simp: qualification_main_def split: option.splits if_splits)
  obtain owner name where on: "split_on 47 repo = [owner, name]" "owner \<noteq> []" "name \<noteq> []" "list_all name_char (owner @ name)"
    using repo(2) by (auto simp: repository_shape_def split: list.splits)
  obtain commit where c: "commit_of commit_argument git_head = Inr commit" "full_sha commit" "verdict fetch repr repo commit = Inr 0"
    using assms repo by (auto simp: qualification_main_def rbind_eq_Inr split: if_splits)
  obtain ps url where ps: "fetch (runs_endpoint repo commit) = Inr ps" "find_page fetch repr repo commit ps = Inr (Some url)"
    using c(3) by (auto simp: verdict_def qualified_run_def rbind_eq_Inr split: sum.splits option.splits if_splits)
  obtain d where d: "PDict d \<in> set (runs_of ps)" "run_qualifies fetch repo commit d" using find_page_Some [OF ps(2)] by blast
  have "{owner, name} \<inter> {[], str ''.'', str ''..''} = {}" using on(1-3) repo(3) by auto
  moreover have "commit_argument = Some commit \<or> git_head = Inr commit"
    using c(1) by (auto simp: commit_of_def split: option.splits if_splits)
  ultimately show ?thesis
    using repo(1) on(1,4) c(2) ps(1) d
    by (intro exI [of _ repo] exI [of _ owner] exI [of _ name] exI [of _ commit] exI [of _ ps] exI [of _ d]) simp
qed

theorem qualification_sound_witness:
  "\<exists>d. PDict d \<in> set (runs_of (case sample_gh (runs_endpoint (str ''o/r'') sample_sha) of Inr ps \<Rightarrow> ps | Inl _ \<Rightarrow> []))
     \<and> run_qualifies sample_gh (str ''o/r'') sample_sha d"
proof -
  have "qualification_main sample_gh (\<lambda>_. []) (Some (str ''o/r'')) (Some sample_sha) (Inl CalledProcessError) = Inr 0"
    using sample_qualified
    by (simp add: qualification_main_def commit_of_def verdict_def repository_shape_def str_Cons str_Nil name_char_def full_sha_def sample_sha_def is_lower_hex_def
        list_all_iff)
  from qualification_sound [OF this] show ?thesis by auto
qed

end
