(* ===== verification/Doctor.thy ===== *)
theory Doctor
  imports Http SocketPath
begin

section \<open>Transport diagnostics (\<^verbatim>\<open>tay/doctor.py\<close>)\<close>

text \<open>
  The two read-only probes behind \<^verbatim>\<open>tay doctor\<close>. What the operating system answers is the record
  \<open>probe\<close>; \<open>type_name\<close> is the name of an exception's class. Shown: a report is \<open>ok\<close> exactly
  if the transport answered, the HTTP probe sends one \<^verbatim>\<open>GET /health\<close> and nothing else, and its
  report does not depend on the credentials.
\<close>

subsection \<open>The socket\<close>

text \<open>\<^verbatim>\<open>st_mode\<close> as the kernel encodes it: \<^verbatim>\<open>stat.S_IMODE\<close> is its low 12 bits, \<^verbatim>\<open>stat.S_ISSOCK\<close> compares
  the file type above them with \<^verbatim>\<open>0o140000\<close>.\<close>

record file_info =
  st_uid :: int
  st_gid :: int
  st_mode :: nat

record probe =
  euid :: int
  egid :: int
  user_groups :: "int list"
  os_stat :: "pystr \<Rightarrow> file_info res"
  parent_searchable :: "pystr \<Rightarrow> bool"
  socket_writable :: "pystr \<Rightarrow> bool"
  open_connection :: "pystr \<Rightarrow> unit res"
  type_name :: "exn \<Rightarrow> pystr"

definition S_IMODE :: "nat \<Rightarrow> nat" where
  "S_IMODE mode = mode mod 4096"

definition S_ISSOCK :: "nat \<Rightarrow> bool" where
  "S_ISSOCK mode = (mode div 4096 mod 16 = 12)"

fun oct_digits :: "nat \<Rightarrow> nat list" where
  "oct_digits n = (if n < 8 then [n] else oct_digits (n div 8) @ [n mod 8])"

declare oct_digits.simps [simp del]

definition py_oct :: "nat \<Rightarrow> pystr" where
  "py_oct n = str ''0o'' @ digit_text (oct_digits n)"

definition socket_report :: "probe \<Rightarrow> pystr \<Rightarrow> string \<Rightarrow> pydict" where
  "socket_report os resolved source =
     [(skey ''transport'', skey ''socket''), (skey ''path'', PStr resolved), (skey ''source'', skey source), (skey ''uid'', PInt (euid os)),
      (skey ''gid'', PInt (egid os)), (skey ''groups'', PList (map PInt (user_groups os))), (skey ''ok'', PBool False)]"

definition socket_details :: "probe \<Rightarrow> pystr \<Rightarrow> file_info \<Rightarrow> pydict" where
  "socket_details os resolved info =
     [(skey ''socket_uid'', PInt (st_uid info)), (skey ''socket_gid'', PInt (st_gid info)),
      (skey ''socket_mode'', PStr (py_oct (S_IMODE (st_mode info)))),
      (skey ''parent_searchable'', PBool (parent_searchable os resolved)), (skey ''socket_writable'', PBool (socket_writable os resolved))]"

definition failed_report :: "pydict \<Rightarrow> pyval \<Rightarrow> string \<Rightarrow> pydict" where
  "failed_report report err hint = dset (dset report (skey ''error'') err) (skey ''hint'') (skey hint)"

definition socket_hint :: string where
  "socket_hint = ''check listener, shared socket volume, UID/GID and directory search/socket write permissions''"

definition diagnose_socket :: "probe \<Rightarrow> surroundings \<Rightarrow> pyval \<Rightarrow> pyval \<Rightarrow> pydict res" where
  "diagnose_socket os env path timeout =
     rbind (positive_finite timeout) (\<lambda>_.
     rbind (discover_socket_path env path) (\<lambda>(resolved, source).
     let report = socket_report os resolved source in
     case os_stat os resolved of
       Inl e \<Rightarrow> if is_OSError e then Inr (failed_report report (PStr (type_name os e)) socket_hint) else Inl e
     | Inr info \<Rightarrow>
         let report = dupdate report (socket_details os resolved info) in
         if \<not> S_ISSOCK (st_mode info) then Inr (dset report (skey ''error'') (skey ''selected path is not a Unix socket''))
         else
           (case open_connection os resolved of
              Inl e \<Rightarrow> if is_OSError e then Inr (failed_report report (PStr (type_name os e)) socket_hint) else Inl e
            | Inr _ \<Rightarrow> Inr (dset report (skey ''ok'') (PBool True)))))"

subsection \<open>HTTP\<close>

text \<open>An exception's entry in the report: the code of a server error, the class name of any other.\<close>

definition error_field :: "(exn \<Rightarrow> pystr) \<Rightarrow> exn \<Rightarrow> pyval" where
  "error_field name e =
     (case e of ServerExn _ _ code _ \<Rightarrow> (case code of None \<Rightarrow> PNone | Some c \<Rightarrow> PStr c) | _ \<Rightarrow> PStr (name e))"

definition http_hint :: string where
  "http_hint = ''check origin, listener readiness and mTLS credential configuration''"

definition starts_with :: "pystr \<Rightarrow> pystr \<Rightarrow> bool" where
  "starts_with s p = (take (length p) s = p)"

definition healthy :: "pydict \<Rightarrow> bool" where
  "healthy health =
     (get_field health ''type'' = skey ''health'' \<and> get_field health ''state'' \<in> {skey ''ready'', skey ''compacting''})"

text \<open>\<^verbatim>\<open>except Exception\<close>.\<close>

definition caught :: "(exn \<Rightarrow> pystr) \<Rightarrow> pydict \<Rightarrow> exn \<Rightarrow> pydict res" where
  "caught name report e = (if is_Exception e then Inr (failed_report report (error_field name e) http_hint) else Inl e)"

definition diagnose_http ::
  "web \<Rightarrow> nat \<Rightarrow> (exn \<Rightarrow> pystr) \<Rightarrow> http_answer \<Rightarrow> http_args \<Rightarrow> pyval \<Rightarrow> pydict res \<times> http_message list" where
  "diagnose_http web rl name answer a timeout =
     (case positive_finite timeout of
        Inl e \<Rightarrow> (Inl e, [])
      | Inr t \<Rightarrow>
          let report = [(skey ''transport'', skey ''http''), (skey ''ok'', PBool False)] in
          (case http_init web (a\<lparr>h_request_timeout := PFloat t\<rparr>) of
             Inl e \<Rightarrow> (caught name report e, [])
           | Inr c \<Rightarrow>
               let report = report @ [(skey ''origin'', PStr (base_url c)), (skey ''tls'', PBool (starts_with (base_url c) (str ''https://'')))];
                   (r, s) = http_request web rl answer ''GET'' (str ''/health'') None [] \<lparr>h_cfg = c, h_withdrawn = [], h_log = []\<rparr>
               in (case r of
                     Inl e \<Rightarrow> caught name report e
                   | Inr health \<Rightarrow>
                       if healthy health then
                         Inr (dset (dset report (skey ''state'') (get_field health ''state'')) (skey ''ok'') (PBool True))
                       else Inr (dset report (skey ''error'') (skey ''invalid_health_response'')),
                   h_log s)))"

subsection \<open>Lemmas\<close>

lemma get_field_failed: "get_field (failed_report r e h) ''ok'' = get_field r ''ok''"
  by (simp add: failed_report_def)

lemma caught_ok: "caught name r e = Inr report \<Longrightarrow> get_field report ''ok'' = get_field r ''ok''"
  by (auto simp: caught_def get_field_failed split: if_splits)

section \<open>Properties\<close>

text \<open>The socket probe's verdict: with a usable path and timeout a report has \<open>ok\<close> true exactly if the path
  is a socket that accepted a connection; every \<^verbatim>\<open>OSError\<close> becomes a report, with \<open>ok\<close> false.\<close>

theorem diagnose_socket_verdict:
  assumes "positive_finite timeout = Inr t" and "discover_socket_path env path = Inr (resolved, source)"
  shows "case diagnose_socket os env path timeout of
       Inr report \<Rightarrow> get_field report ''ok'' = PBool (\<exists>info. os_stat os resolved = Inr info \<and> S_ISSOCK (st_mode info)
          \<and> open_connection os resolved = Inr ())
     | Inl e \<Rightarrow> \<not> is_OSError e"
proof -
  have base: "get_field (socket_report os resolved source) ''ok'' = PBool False"
    "get_field (dupdate (socket_report os resolved source) (socket_details os resolved info)) ''ok'' = PBool False" for info
    by (simp_all add: socket_report_def socket_details_def dupdate_def get_field_def)
  show ?thesis
  proof (cases "os_stat os resolved")
    case (Inl e)
    with assms base show ?thesis by (simp add: diagnose_socket_def get_field_failed)
  next
    case (Inr info)
    with assms base show ?thesis
      by (auto simp: diagnose_socket_def get_field_failed Let_def split: sum.split)
  qed
qed

definition sample_probe :: probe where
  "sample_probe = \<lparr>euid = 1000, egid = 1000, user_groups = [1000], os_stat = (\<lambda>_. Inr \<lparr>st_uid = 0, st_gid = 1000, st_mode = 12 * 4096 + 432\<rparr>),
     parent_searchable = (\<lambda>_. True), socket_writable = (\<lambda>_. True), open_connection = (\<lambda>_. Inr ()), type_name = (\<lambda>_. [])\<rparr>"

definition shared_env :: surroundings where
  "shared_env = \<lparr>environ = [], uid = PInt 1000, cwd = str ''/'', usable = (\<lambda>_. False), exists = (\<lambda>_. True),
     fspath_object = (\<lambda>_. Inl TypeError)\<rparr>"

lemma positive_finite_5: "positive_finite (PFloat (Flt 5)) = Inr (Flt 5)"
  by (simp add: positive_finite_def num_le_def)

theorem diagnose_socket_verdict_witness:
  "\<exists>report. diagnose_socket sample_probe shared_env PNone (PFloat (Flt 5)) = Inr report \<and> get_field report ''ok'' = PBool True"
proof -
  have d: "discover_socket_path shared_env PNone = Inr (str ''/run/tay/tay.sock'', ''shared /run/tay'')"
    by (simp add: discover_socket_path_def shared_env_def getenv_def)
  have "is_ok (diagnose_socket sample_probe shared_env PNone (PFloat (Flt 5)))"
    using d by (simp add: diagnose_socket_def positive_finite_5 sample_probe_def Let_def)
  then obtain report where "diagnose_socket sample_probe shared_env PNone (PFloat (Flt 5)) = Inr report" by (auto simp: is_ok_iff)
  with diagnose_socket_verdict [OF positive_finite_5 d, of sample_probe] show ?thesis
    by (simp add: sample_probe_def S_ISSOCK_def)
qed

text \<open>The HTTP probe's verdict and footprint: it sends at most one request, \<^verbatim>\<open>GET /health\<close> without a body,
  and reports \<open>ok\<close> exactly if the target is acceptable and its answer is a healthy one.\<close>

theorem diagnose_http_verdict:
  assumes "diagnose_http web rl name answer a timeout = (Inr report, out)"
  shows "(\<forall>m\<in>set out. m_method m = ''GET'' \<and> m_data m = None \<and> dget (m_headers m) ''Authorization'' = None) \<and> length out \<le> 1
     \<and> (get_field report ''ok'' = PBool True \<longleftrightarrow>
          (\<exists>t c health. positive_finite timeout = Inr t \<and> http_init web (a\<lparr>h_request_timeout := PFloat t\<rparr>) = Inr c
             \<and> http_receive web rl answer = Inr health \<and> healthy health))"
proof -
  obtain t where t: "positive_finite timeout = Inr t" using assms by (auto simp: diagnose_http_def split: sum.splits)
  show ?thesis
  proof (cases "http_init web (a\<lparr>h_request_timeout := PFloat t\<rparr>)")
    case (Inl e)
    with assms t have "get_field report ''ok'' = PBool False" "out = []"
      by (auto simp: diagnose_http_def get_field_def dest!: caught_ok)
    with t Inl show ?thesis by simp
  next
    case (Inr c)
    then have out: "\<exists>u. out = [\<lparr>m_method = ''GET'', m_url = u,
        m_headers = [(''Content-Type'', str ''application/json''), (''Accept'', str ''application/json'')], m_data = None\<rparr>]"
      using assms t by (auto simp: diagnose_http_def http_request_def http_send_def Let_def dupdate_def)
    have "get_field report ''ok'' = PBool (case http_receive web rl answer of Inr health \<Rightarrow> healthy health | Inl _ \<Rightarrow> False)"
      using assms t Inr
      by (auto simp: diagnose_http_def http_request_def http_send_def Let_def get_field_def dest!: caught_ok split: sum.splits if_splits)
    with t Inr out show ?thesis by (auto split: sum.splits)
  qed
qed

definition health_reply :: pydict where
  "health_reply = [(skey ''state'', skey ''ready''), (skey ''type'', skey ''health'')]"

definition health_bytes :: bytes where
  "health_bytes = map byte_of (str ''{\"state\":\"ready\",\"type\":\"health\"}'')"

lemma health_received: "http_receive plain_web 40 (Answered 200 health_bytes) = Inr health_reply"
proof (rule http_receive_json)
  show "json_bytes (PDict health_reply) = Inr health_bytes"
    by (simp add: health_reply_def health_bytes_def json_bytes_def json_eval)
qed (simp_all add: health_reply_def plain_web_def health_bytes_def MAX_HTTP_RESPONSE_BYTES_def sort_items_def get_field_def str_Cons str_Nil)

lemma remote_accepted:
  "http_init plain_web (remote_args\<lparr>h_request_timeout := PFloat (Flt 5)\<rparr>)
     = Inr \<lparr>base_url = str ''https://tay.example:8443'', http_timeout = Flt 5, uses_tls = True\<rparr>"
  "http_init plain_web (remote_args\<lparr>tls_ca_file := PNone, tls_cert_file := PNone, tls_key_file := PNone,
       tls_pkcs12_file := skey ''bundle'', tls_pkcs12_password := skey ''secret'', h_request_timeout := PFloat (Flt 5)\<rparr>)
     = Inr \<lparr>base_url = str ''https://tay.example:8443'', http_timeout = Flt 5, uses_tls = True\<rparr>"
  by (rule remote_accepts; simp add: remote_args_def positive_finite_5)+

theorem diagnose_http_verdict_witness:
  "\<exists>report out. diagnose_http plain_web 40 (\<lambda>_. []) (Answered 200 health_bytes) remote_args (PFloat (Flt 5)) = (Inr report, out)
     \<and> get_field report ''ok'' = PBool True \<and> length out \<le> 1"
proof -
  have "healthy health_reply" by (simp add: healthy_def health_reply_def get_field_def)
  then have "is_ok (fst (diagnose_http plain_web 40 (\<lambda>_. []) (Answered 200 health_bytes) remote_args (PFloat (Flt 5))))"
    using health_received
    by (simp add: diagnose_http_def positive_finite_5 remote_accepted http_request_def http_send_def Let_def)
  then obtain report out where r: "diagnose_http plain_web 40 (\<lambda>_. []) (Answered 200 health_bytes) remote_args (PFloat (Flt 5)) = (Inr report, out)"
    by (metis is_ok_iff prod.collapse)
  from diagnose_http_verdict [OF r] r \<open>healthy health_reply\<close> health_received positive_finite_5 remote_accepted(1) show ?thesis by blast
qed

text \<open>The HTTP report does not depend on the credentials: two probes of one origin whose credentials are
  both accepted make the same report from the same answer, and send the same request.\<close>

theorem diagnose_http_discloses_nothing:
  assumes "h_base_url a = h_base_url b" and "positive_finite timeout = Inr t"
    and "http_init web (a\<lparr>h_request_timeout := PFloat t\<rparr>) = Inr c"
    and "http_init web (b\<lparr>h_request_timeout := PFloat t\<rparr>) = Inr d"
  shows "diagnose_http web rl name answer a timeout = diagnose_http web rl name answer b timeout"
proof -
  have "c = d" using assms(1,3,4) by (auto simp: http_init_def rbind_eq_Inr Let_def)
  with assms show ?thesis by (simp add: diagnose_http_def)
qed

theorem diagnose_http_discloses_nothing_witness:
  "diagnose_http plain_web 40 (\<lambda>_. []) Unreachable remote_args (PFloat (Flt 5))
     = diagnose_http plain_web 40 (\<lambda>_. []) Unreachable (remote_args\<lparr>tls_ca_file := PNone, tls_cert_file := PNone, tls_key_file := PNone,
         tls_pkcs12_file := skey ''bundle'', tls_pkcs12_password := skey ''secret''\<rparr>) (PFloat (Flt 5))"
  by (rule diagnose_http_discloses_nothing [OF _ positive_finite_5 remote_accepted]) simp

end
