(* ===== verification/Cli.thy ===== *)
theory Cli
  imports Doctor
begin

section \<open>The command line (\<^verbatim>\<open>tay/__main__.py\<close>)\<close>

text \<open>
  \<^verbatim>\<open>tay-worker\<close> and \<^verbatim>\<open>tay doctor\<close> after \<^verbatim>\<open>argparse\<close> has split the arguments: the choice of the
  worker instance in a module, the serving of it until a signal, and the exit code. A module is
  its dictionary of names; an object is its identity and what the command tests of it.
  Shown: an instance is served only if the choice is unambiguous, it is closed and the signal
  handlers are removed however serving ends, and the exit code says what the probe found.
\<close>

subsection \<open>Choosing the worker\<close>

datatype instance_kind = SocketClient pystr | HttpWorkerInstance | OtherObject

record object =
  o_id :: nat
  o_kind :: instance_kind

type_synonym py_module = "(pystr, object) dict"

definition is_worker_instance :: "object \<Rightarrow> bool" where
  "is_worker_instance x = (o_kind x \<noteq> OtherObject)"

definition select_instance :: "(pystr \<Rightarrow> py_module res) \<Rightarrow> pystr \<Rightarrow> object res" where
  "select_instance import_module specification =
     (case partition_at 58 specification of (module_name, separator, attribute) \<Rightarrow>
        rbind (import_module module_name) (\<lambda>m.
        if separator then
          (case dget m attribute of
             None \<Rightarrow> Inl AttributeError
           | Some x \<Rightarrow> if is_worker_instance x then Inr x else Inl TypeError)
        else
          (let candidates = foldl (\<lambda>d x. dset d (o_id x) x) [] (filter is_worker_instance (map snd m)) in
           case candidates of [(_, x)] \<Rightarrow> Inr x | _ \<Rightarrow> Inl RuntimeError)))"

subsection \<open>Serving\<close>

text \<open>What ends the wait: the runner ended, by itself or by raising, or the stop event was set.\<close>

datatype serve_event = RunnerEnded "unit res" | StopSignalled

datatype serve_action = AddSignalHandlers | ServeForever | StartClient | CancelTasks | CloseInstance | RemoveSignalHandlers

definition runner_action :: "object \<Rightarrow> bool \<Rightarrow> serve_action list" where
  "runner_action x already_stopped =
     (if already_stopped then []
      else case o_kind x of HttpWorkerInstance \<Rightarrow> [ServeForever] | _ \<Rightarrow> [StartClient])"

definition serve :: "object \<Rightarrow> bool \<Rightarrow> bool \<Rightarrow> serve_event \<Rightarrow> unit res \<Rightarrow> serve_action list \<times> unit res" where
  "serve x install_signals already_stopped event close_result =
     (if (case o_kind x of SocketClient mode \<Rightarrow> mode \<noteq> str ''worker'' | _ \<Rightarrow> False) then ([], Inl RuntimeError)
      else
        ((if install_signals then [AddSignalHandlers] else []) @ runner_action x already_stopped @ [CancelTasks, CloseInstance]
           @ (if install_signals then [RemoveSignalHandlers] else []),
         case close_result of
           Inl e \<Rightarrow> Inl e
         | Inr _ \<Rightarrow> (case event of RunnerEnded r \<Rightarrow> r | StopSignalled \<Rightarrow> Inr ())))"

subsection \<open>\<^verbatim>\<open>main\<close>\<close>

text \<open>The parsed arguments of \<^verbatim>\<open>doctor\<close>; options that were not given are \<open>None\<close>.\<close>

record doctor_args =
  d_socket_path :: "pystr option"
  d_http_url :: "pystr option"
  d_timeout :: pyfloat
  d_ca_file :: "pystr option"
  d_cert_file :: "pystr option"
  d_key_file :: "pystr option"
  d_pkcs12_file :: "pystr option"
  d_password_env :: "pystr option"

datatype command = WorkerCommand pystr | DoctorCommand doctor_args

definition first_word :: "pystr list \<Rightarrow> pystr list" where
  "first_word values =
     (case values of
        [] \<Rightarrow> []
      | v # _ \<Rightarrow> if v \<in> {str ''worker'', str ''doctor'', str ''-h'', str ''--help''} then values else str ''worker'' # values)"

definition text_or_none :: "pystr option \<Rightarrow> pyval" where
  "text_or_none v = (case v of None \<Rightarrow> PNone | Some s \<Rightarrow> PStr s)"

definition given :: "pystr option \<Rightarrow> bool" where
  "given v = (case v of None \<Rightarrow> False | Some s \<Rightarrow> s \<noteq> [])"

definition uses_tls_options :: "doctor_args \<Rightarrow> bool" where
  "uses_tls_options d = list_ex (\<lambda>v. v \<noteq> None) [d_ca_file d, d_cert_file d, d_key_file d, d_pkcs12_file d]"

definition doctor_http_args :: "doctor_args \<Rightarrow> http_args" where
  "doctor_http_args d =
     \<lparr>h_base_url = (case d_http_url d of None \<Rightarrow> [] | Some u \<Rightarrow> u), h_request_timeout = PFloat (d_timeout d),
      tls_ca_file = text_or_none (d_ca_file d), tls_cert_file = text_or_none (d_cert_file d),
      tls_key_file = text_or_none (d_key_file d), tls_pkcs12_file = text_or_none (d_pkcs12_file d),
      tls_pkcs12_password = (if given (d_pkcs12_file d) then text_or_none (d_password_env d) else PNone)\<rparr>"

text \<open>The exceptions that become \<^verbatim>\<open>parser.error\<close>; \<^verbatim>\<open>RecursionError\<close> is a \<^verbatim>\<open>RuntimeError\<close>.\<close>

definition reported :: "exn \<Rightarrow> bool" where
  "reported e = (e \<in> {ImportError, AttributeError, RuntimeError, RecursionError, TypeError} \<or> is_TayError e \<or> is_OSError e)"

definition exit_code :: "int res \<Rightarrow> int res" where
  "exit_code r = (case r of Inl e \<Rightarrow> if reported e then Inr 2 else Inl e | Inr n \<Rightarrow> Inr n)"

definition doctor_main :: "web \<Rightarrow> nat \<Rightarrow> probe \<Rightarrow> surroundings \<Rightarrow> http_answer \<Rightarrow> doctor_args \<Rightarrow> int res" where
  "doctor_main web rl os env answer d =
     (if uses_tls_options d \<and> \<not> given (d_http_url d) then Inr 2
      else
        exit_code
          (rbind (if given (d_http_url d)
                  then fst (diagnose_http web rl (type_name os) answer (doctor_http_args d) (PFloat (d_timeout d)))
                  else diagnose_socket os env (text_or_none (d_socket_path d)) (PFloat (d_timeout d))) (\<lambda>report.
           Inr (if truthy (get_field report ''ok'') then 0 else 1))))"

definition worker_main ::
  "(pystr \<Rightarrow> py_module res) \<Rightarrow> serve_event \<Rightarrow> unit res \<Rightarrow> pystr \<Rightarrow> serve_action list \<times> int res" where
  "worker_main import_module event close_result application =
     (case select_instance import_module application of
        Inl e \<Rightarrow> ([], exit_code (Inl e))
      | Inr x \<Rightarrow> (case serve x True False event close_result of (acts, r) \<Rightarrow> (acts, exit_code (rbind r (\<lambda>_. Inr 0)))))"

subsection \<open>Lemmas\<close>

text \<open>Objects with one identity are one object.\<close>

definition identities_ok :: "object list \<Rightarrow> bool" where
  "identities_ok xs \<longleftrightarrow> (\<forall>x\<in>set xs. \<forall>y\<in>set xs. o_id x = o_id y \<longrightarrow> x = y)"

lemma dset_same: "dget d k = Some v \<Longrightarrow> dset d k v = d"
  by (induction d) (auto split: if_splits)

lemma by_identity:
  "dict_ok d \<Longrightarrow> \<forall>(i, x)\<in>set d. i = o_id x \<Longrightarrow> identities_ok (map snd d @ xs) \<Longrightarrow>
   dict_ok (foldl (\<lambda>d x. dset d (o_id x) x) d xs)
   \<and> set (foldl (\<lambda>d x. dset d (o_id x) x) d xs) = set d \<union> (\<lambda>x. (o_id x, x)) ` set xs"
proof (induction xs arbitrary: d)
  case (Cons x xs)
  have new: "set (dset d (o_id x) x) = insert (o_id x, x) (set d)"
  proof (cases "o_id x \<in> set (dkeys d)")
    case True
    then obtain y where y: "(o_id x, y) \<in> set d" by auto
    then have "y \<in> set (map snd d)" "o_id x = o_id y" using Cons.prems(2) by (force, fastforce)
    then have "x = y" using Cons.prems(3) by (auto simp: identities_ok_def)
    with y have "dget d (o_id x) = Some x" using Cons.prems(1) by (simp add: dict_ok_def)
    then have "dset d (o_id x) x = d" by (rule dset_same)
    with y \<open>x = y\<close> show ?thesis by auto
  next
    case False
    then show ?thesis by (auto simp: dkeys_dset_fresh)
  qed
  have "dict_ok (dset d (o_id x) x)" "\<forall>(i, x)\<in>set (dset d (o_id x) x). i = o_id x"
    "identities_ok (map snd (dset d (o_id x) x) @ xs)"
    using Cons.prems new by (auto simp: identities_ok_def)
  from Cons.IH [OF this] new show ?case by auto
qed simp

lemma single_entry:
  assumes "dict_ok d" and "\<forall>(i, x)\<in>set d. i = o_id x"
  shows "(case d of [(_, x)] \<Rightarrow> Inr x | _ \<Rightarrow> Inl e) = Inr y \<longleftrightarrow> snd ` set d = {y}"
proof (cases d)
  case (Cons p rest)
  show ?thesis
  proof (cases rest)
    case (Cons q more)
    have "fst p \<noteq> fst q" "fst p = o_id (snd p)" "fst q = o_id (snd q)"
      using assms \<open>d = p # rest\<close> Cons by (auto simp: dict_ok_def)
    then have "snd ` set d \<noteq> {y}" using \<open>d = p # rest\<close> Cons by auto
    then show ?thesis using \<open>d = p # rest\<close> Cons by (simp split: prod.split)
  qed (use Cons in \<open>auto split: prod.split\<close>)
qed simp

section \<open>Properties\<close>

text \<open>Without an attribute, a worker is chosen exactly if it is the only one the module exposes, under
  however many names; otherwise the choice fails with \<^verbatim>\<open>RuntimeError\<close>.\<close>

theorem select_instance_unique:
  assumes "58 \<notin> set specification" and "import_module specification = Inr m" and "identities_ok (map snd m)"
  shows "(select_instance import_module specification = Inr x \<longleftrightarrow> {y \<in> set (map snd m). is_worker_instance y} = {x})
     \<and> ((\<nexists>x. {y \<in> set (map snd m). is_worker_instance y} = {x}) \<longrightarrow> select_instance import_module specification = Inl RuntimeError)"
proof -
  let ?workers = "filter is_worker_instance (map snd m)"
  let ?d = "foldl (\<lambda>d x. dset d (o_id x) x) [] ?workers"
  have p: "partition_at 58 specification = (specification, False, [])"
  proof -
    have "dropWhile (\<lambda>c. c \<noteq> 58) specification = []" "takeWhile (\<lambda>c. c \<noteq> 58) specification = specification"
      using assms(1) by (auto simp: takeWhile_eq_all_conv dropWhile_eq_Nil_conv)
    with assms(1) show ?thesis by (simp only: partition_at_def) simp
  qed
  have "identities_ok (map snd [] @ ?workers)" using assms(3) by (auto simp: identities_ok_def)
  from by_identity [OF _ _ this] have d: "dict_ok ?d" "set ?d = (\<lambda>x. (o_id x, x)) ` set ?workers" by (auto simp: dict_ok_def)
  have e: "select_instance import_module specification = (case ?d of [(_, x)] \<Rightarrow> Inr x | _ \<Rightarrow> Inl RuntimeError)"
    using assms(2) by (simp add: select_instance_def p Let_def)
  have w: "snd ` set ?d = {y \<in> set (map snd m). is_worker_instance y}" unfolding d(2) by force
  have iff: "select_instance import_module specification = Inr y \<longleftrightarrow> {y \<in> set (map snd m). is_worker_instance y} = {y}" for y
    unfolding e w [symmetric] by (rule single_entry) (use d in auto)
  have "select_instance import_module specification = Inl RuntimeError \<or> (\<exists>y. select_instance import_module specification = Inr y)"
    unfolding e by (cases ?d rule: list.exhaust [case_product list.exhaust]) (auto split: list.split)
  then show ?thesis unfolding iff by blast
qed

theorem select_instance_unique_witness:
  "let w = \<lparr>o_id = 1, o_kind = HttpWorkerInstance\<rparr> in
   select_instance (\<lambda>_. Inr [(str ''a'', w), (str ''b'', w), (str ''os'', \<lparr>o_id = 2, o_kind = OtherObject\<rparr>)]) (str ''app'') = Inr w"
proof -
  let ?w = "\<lparr>o_id = 1, o_kind = HttpWorkerInstance\<rparr>" and ?o = "\<lparr>o_id = 2, o_kind = OtherObject\<rparr>"
  let ?m = "[(str ''a'', ?w), (str ''b'', ?w), (str ''os'', ?o)]"
  have m: "58 \<notin> set (str ''app'')" "(\<lambda>_. Inr ?m) (str ''app'') = Inr ?m" "identities_ok (map snd ?m)"
    by (simp_all add: str_Cons str_Nil identities_ok_def)
  have "{y \<in> set (map snd ?m). is_worker_instance y} = {?w}" by (auto simp: is_worker_instance_def)
  with select_instance_unique [OF m, of ?w] show ?thesis unfolding Let_def by iprover
qed

end
