(* ===== verification/Scripts.thy ===== *)
theory Scripts
  imports PyValue
begin

section \<open>Scripts: programs that run commands\<close>

text \<open>
  A script acts on a state and ends by returning or by raising, or it is still running when its
  allowance of loop turns is used up (\<open>Unfinished\<close>): a statement about all outcomes then covers
  every prefix of a script that never ends. \<open>script_ok P m Q R\<close> is the Hoare triple of a script:
  from a state with \<open>P\<close> it returns only in a state with \<open>Q\<close> of the value, and ends or stands
  in any other way only in a state with \<open>R\<close>.
\<close>

datatype 'a outcome = Done 'a | Raised exn | Unfinished

type_synonym ('s, 'a) script = "'s \<Rightarrow> 'a outcome \<times> 's"

definition script_return :: "'a \<Rightarrow> ('s, 'a) script" where
  "script_return x s = (Done x, s)"

definition script_raise :: "exn \<Rightarrow> ('s, 'a) script" where
  "script_raise e s = (Raised e, s)"

definition script_bind :: "('s, 'a) script \<Rightarrow> ('a \<Rightarrow> ('s, 'b) script) \<Rightarrow> ('s, 'b) script" where
  "script_bind m f s =
     (case m s of (Done x, t) \<Rightarrow> f x t | (Raised e, t) \<Rightarrow> (Raised e, t) | (Unfinished, t) \<Rightarrow> (Unfinished, t))"

definition script_lift :: "'a res \<Rightarrow> ('s, 'a) script" where
  "script_lift r s = (case r of Inl e \<Rightarrow> (Raised e, s) | Inr x \<Rightarrow> (Done x, s))"

definition script_modify :: "('s \<Rightarrow> 's) \<Rightarrow> ('s, unit) script" where
  "script_modify f s = (Done (), f s)"

definition script_get :: "('s \<Rightarrow> 'a) \<Rightarrow> ('s, 'a) script" where
  "script_get f s = (Done (f s), s)"

fun script_each :: "('a \<Rightarrow> ('s, unit) script) \<Rightarrow> 'a list \<Rightarrow> ('s, unit) script" where
  "script_each f [] = script_return ()"
| "script_each f (x # xs) = script_bind (f x) (\<lambda>_. script_each f xs)"

lemmas script_defs = script_return_def script_raise_def script_bind_def script_lift_def script_modify_def script_get_def

lemma script_Done_iff [simp]:
  "script_bind m f s = (Done x, t) \<longleftrightarrow> (\<exists>y u. m s = (Done y, u) \<and> f y u = (Done x, t))"
  "script_return y s = (Done x, t) \<longleftrightarrow> x = y \<and> t = s" "script_raise e s \<noteq> (Done x, t)"
  "script_lift r s = (Done x, t) \<longleftrightarrow> r = Inr x \<and> t = s" "script_get g s = (Done x, t) \<longleftrightarrow> x = g s \<and> t = s"
  by (auto simp: script_defs split: prod.splits outcome.splits sum.splits)

subsection \<open>Triples\<close>

definition script_ok :: "('s \<Rightarrow> bool) \<Rightarrow> ('s, 'a) script \<Rightarrow> ('a \<Rightarrow> 's \<Rightarrow> bool) \<Rightarrow> ('s \<Rightarrow> bool) \<Rightarrow> bool" where
  "script_ok P m Q R \<longleftrightarrow> (\<forall>s. P s \<longrightarrow> (case m s of (Done x, t) \<Rightarrow> Q x t | (_, t) \<Rightarrow> R t))"

lemma script_okD: "script_ok P m Q R \<Longrightarrow> P s \<Longrightarrow> m s = (Done x, t) \<Longrightarrow> Q x t"
  unfolding script_ok_def by fastforce

lemma script_okI: "(\<And>s x t. P s \<Longrightarrow> m s = (Done x, t) \<Longrightarrow> Q x t) \<Longrightarrow> (\<And>s e t. P s \<Longrightarrow> m s = (Raised e, t) \<Longrightarrow> R t)
    \<Longrightarrow> (\<And>s t. P s \<Longrightarrow> m s = (Unfinished, t) \<Longrightarrow> R t) \<Longrightarrow> script_ok P m Q R"
  by (auto simp: script_ok_def split: prod.split outcome.split)

lemma script_ok_weaken:
  "script_ok P m Q R \<Longrightarrow> (\<And>s. P' s \<Longrightarrow> P s) \<Longrightarrow> (\<And>x s. Q x s \<Longrightarrow> Q' x s) \<Longrightarrow> (\<And>s. R s \<Longrightarrow> R' s) \<Longrightarrow> script_ok P' m Q' R'"
  unfolding script_ok_def by (fastforce split: prod.splits outcome.splits)

lemma script_ok_bind:
  assumes "script_ok P m Q R" and f: "\<And>x. script_ok (Q x) (f x) Q' R"
  shows "script_ok P (script_bind m f) Q' R"
  unfolding script_ok_def
proof (intro allI impI)
  fix s assume "P s"
  then have m: "case m s of (Done x, t) \<Rightarrow> Q x t | (_, t) \<Rightarrow> R t" using assms(1) by (simp add: script_ok_def)
  obtain y t where t: "m s = (y, t)" by fastforce
  show "case script_bind m f s of (Done x, t) \<Rightarrow> Q' x t | (_, t) \<Rightarrow> R t"
  proof (cases y)
    case (Done x)
    with m t f [of x] show ?thesis by (simp add: script_bind_def script_ok_def)
  qed (use m t in \<open>simp_all add: script_bind_def\<close>)
qed

lemma script_ok_return: "(\<And>s. P s \<Longrightarrow> Q x s) \<Longrightarrow> script_ok P (script_return x) Q R"
  by (simp add: script_ok_def script_return_def)

lemma script_ok_raise: "(\<And>s. P s \<Longrightarrow> R s) \<Longrightarrow> script_ok P (script_raise e) Q R"
  by (simp add: script_ok_def script_raise_def)

lemma script_ok_lift: "(\<And>x s. P s \<Longrightarrow> Q x s) \<Longrightarrow> (\<And>s. P s \<Longrightarrow> R s) \<Longrightarrow> script_ok P (script_lift r) Q R"
  by (simp add: script_ok_def script_lift_def split: sum.split)

lemma script_ok_modify: "(\<And>s. P s \<Longrightarrow> Q () (f s)) \<Longrightarrow> script_ok P (script_modify f) Q R"
  by (simp add: script_ok_def script_modify_def)

lemma script_ok_get: "(\<And>s. P s \<Longrightarrow> Q (f s) s) \<Longrightarrow> script_ok P (script_get f) Q R"
  by (simp add: script_ok_def script_get_def)

lemma script_ok_each:
  "(\<And>x. x \<in> set xs \<Longrightarrow> script_ok P (f x) (\<lambda>_. P) R) \<Longrightarrow> script_ok P (script_each f xs) (\<lambda>_. P) R"
  by (induction xs) (auto intro!: script_ok_return script_ok_bind [where Q = "\<lambda>_. P"])

lemma script_ok_if:
  "(b \<Longrightarrow> script_ok P m Q R) \<Longrightarrow> (\<not> b \<Longrightarrow> script_ok P n Q R) \<Longrightarrow> script_ok P (if b then m else n) Q R"
  by simp

lemma script_ok_fact: "(b \<Longrightarrow> script_ok P m Q R) \<Longrightarrow> script_ok (\<lambda>s. P s \<and> b) m Q R"
  by (cases b) (simp_all add: script_ok_def)

lemma script_ok_ex: "(\<And>a. script_ok (P a) m Q R) \<Longrightarrow> script_ok (\<lambda>s. \<exists>a. P a s) m Q R"
  unfolding script_ok_def by (intro allI impI) (elim exE, simp)

text \<open>A property that every operation keeps, whatever the outcome.\<close>

abbreviation script_keeps :: "('s \<Rightarrow> bool) \<Rightarrow> ('s, 'a) script \<Rightarrow> bool" where
  "script_keeps P m \<equiv> script_ok P m (\<lambda>_. P) P"

lemma script_keepsD: "script_keeps P m \<Longrightarrow> P s \<Longrightarrow> P (snd (m s))"
  unfolding script_ok_def by (cases "m s"; cases "fst (m s)") force+

lemma script_sureD: "script_ok P m Q (\<lambda>_. False) \<Longrightarrow> P s \<Longrightarrow> \<exists>x t. m s = (Done x, t) \<and> Q x t"
  unfolding script_ok_def by (cases "m s"; cases "fst (m s)") force+

lemma script_keeps_bind: "script_keeps P m \<Longrightarrow> (\<And>x. script_keeps P (f x)) \<Longrightarrow> script_keeps P (script_bind m f)"
  by (rule script_ok_bind)

lemmas script_keeps_intros = script_keeps_bind script_ok_return script_ok_raise script_ok_lift script_ok_get script_ok_each script_ok_if

subsection \<open>Logs a specification accepts\<close>

text \<open>A specification of what may happen when is a partial step function on its states.\<close>

fun accepts :: "('q \<Rightarrow> 'c \<Rightarrow> 'q option) \<Rightarrow> 'q \<Rightarrow> 'c list \<Rightarrow> 'q option" where
  "accepts d q [] = Some q"
| "accepts d q (c # cs) = (case d q c of None \<Rightarrow> None | Some q' \<Rightarrow> accepts d q' cs)"

lemma accepts_append: "accepts d q (xs @ ys) = (case accepts d q xs of None \<Rightarrow> None | Some q' \<Rightarrow> accepts d q' ys)"
  by (induction xs arbitrary: q) (simp_all split: option.split)

end
