(* ===== verification/SoakRoles.thy ===== *)
theory SoakRoles
  imports Scripts Compare
begin

section \<open>The workers and producers of the soak test (\<^verbatim>\<open>bench/soak.py\<close>)\<close>

text \<open>
  What runs inside the containers. The task \<^verbatim>\<open>echo\<close> of a worker consists of two atomic sections around
  its pause, on the state its closure keeps. A producer exercises one client: \<open>exercise\<close> is a script
  (theory \<open>Scripts\<close>) whose log pairs every call of the SDK with its answer; the SDK's own behaviour
  is the subject of the other theories, here its answers are the environment's. Coroutines that
  \<^verbatim>\<open>asyncio.gather\<close> runs concurrently share only the client and have a script each.
\<close>

subsection \<open>\<^verbatim>\<open>worker\<close>: the task \<^verbatim>\<open>soak.echo.v1\<close>\<close>

record echo =
  e_failed :: "pystr set"
  e_observed :: bool
  e_emitted :: "pydict list"

definition initial_echo :: echo where
  "initial_echo = \<lparr>e_failed = {}, e_observed = False, e_emitted = []\<rparr>"

definition echo_begin :: "string \<Rightarrow> pystr \<Rightarrow> bool \<Rightarrow> echo \<Rightarrow> unit res \<times> echo" where
  "echo_begin transport token fail_once s =
     (let s = (if e_observed s then s
               else s\<lparr>e_emitted := e_emitted s @ [[(skey ''worker_transport'', skey transport), (skey ''executed'', PBool True)]], e_observed := True\<rparr>)
      in if fail_once \<and> token \<notin> e_failed s then (Inl RuntimeError, s\<lparr>e_failed := insert token (e_failed s)\<rparr>)
         else (Inr (), s))"

definition echo_end :: "pystr \<Rightarrow> echo \<Rightarrow> pyval \<times> echo" where
  "echo_end token s = (PDict [(skey ''token'', PStr token)], s\<lparr>e_failed := e_failed s - {token}\<rparr>)"

text \<open>What happens at the two workers, in any order: an invocation begins, or one that is past its pause ends.\<close>

datatype echo_event = Begins nat pystr bool | Ends nat pystr

definition echo_step :: "echo_event \<Rightarrow> (nat \<Rightarrow> echo) \<Rightarrow> bool \<times> (nat \<Rightarrow> echo)" where
  "echo_step ev ws =
     (case ev of
        Begins w token fail_once \<Rightarrow>
          (case echo_begin (if w = 0 then ''uds'' else ''http'') token fail_once (ws w) of (r, s) \<Rightarrow> (\<not> is_ok r, ws(w := s)))
      | Ends w token \<Rightarrow> (False, ws(w := snd (echo_end token (ws w)))))"

fun begins :: "pystr \<Rightarrow> echo_event \<Rightarrow> bool" where
  "begins token (Begins _ t _) = (t = token)"
| "begins token (Ends _ _) = False"

fun failures :: "pystr \<Rightarrow> echo_event list \<Rightarrow> (nat \<Rightarrow> echo) \<Rightarrow> nat" where
  "failures token [] ws = 0"
| "failures token (ev # evs) ws =
     (let r = echo_step ev ws in
      (if fst r \<and> begins token ev then 1 else 0) + failures token evs (snd r))"

subsection \<open>\<^verbatim>\<open>producer\<close>\<close>

datatype client_call =
    CallOpen
  | CallClose
  | CallEvery pydict
  | CallEnqueue pydict pydict
  | CallStatus pyval
  | CallWaitResult pyval
  | CallResult pyval
  | CallGetSchedule pystr

record producer =
  p_log :: "(client_call \<times> pyval res) list"
  p_sleeps :: nat
  p_answer :: "nat \<Rightarrow> client_call \<Rightarrow> pyval res"
  p_uuid :: "nat \<Rightarrow> pystr"
  p_clock :: "nat \<Rightarrow> pyfloat"

definition ask :: "client_call \<Rightarrow> (producer, pyval) script" where
  "ask c s =
     (let r = p_answer s 0 c; t = s\<lparr>p_log := p_log s @ [(c, r)], p_answer := p_answer s \<circ> Suc\<rparr> in
      case r of Inl e \<Rightarrow> (Raised e, t) | Inr v \<Rightarrow> (Done v, t))"

text \<open>A call within \<^verbatim>\<open>try\<close>: its error is a value.\<close>

definition try_ask :: "client_call \<Rightarrow> (producer, pyval res) script" where
  "try_ask c s =
     (let r = p_answer s 0 c in (Done r, s\<lparr>p_log := p_log s @ [(c, r)], p_answer := p_answer s \<circ> Suc\<rparr>))"

definition new_token :: "(producer, pystr) script" where
  "new_token s = (Done (p_uuid s 0), s\<lparr>p_uuid := p_uuid s \<circ> Suc\<rparr>)"

definition read_clock :: "(producer, pyfloat) script" where
  "read_clock s = (Done (p_clock s 0), s\<lparr>p_clock := p_clock s \<circ> Suc\<rparr>)"

definition nap :: "(producer, unit) script" where
  "nap = script_modify (\<lambda>s. s\<lparr>p_sleeps := Suc (p_sleeps s)\<rparr>)"

definition assert_equal :: "pyval \<Rightarrow> pyval \<Rightarrow> (producer, unit) script" where
  "assert_equal v w = (if py_eq v w then script_return () else script_raise AssertionError)"

definition schedule_id :: "string \<Rightarrow> pystr" where
  "schedule_id transport = str (''soak-'' @ transport)"

definition do_register :: "string \<Rightarrow> (producer, pyval) script" where
  "do_register transport =
     script_bind (ask (CallEvery
       [(skey ''task_name'', skey ''soak.echo.v1''), (skey ''seconds'', PInt 1), (skey ''args'', PDict [(skey ''token'', skey transport)]),
        (skey ''declaration_id'', PStr (schedule_id transport)), (skey ''overlap'', skey ''skip'')]))
       (\<lambda>i. script_return (PDict [(skey ''schedule'', i)]))"

definition seed_job :: "string \<Rightarrow> (producer, pyval) script" where
  "seed_job durability =
     script_bind new_token (\<lambda>token.
     script_bind (ask (CallEnqueue [(skey ''token'', PStr token), (skey ''pause'', PInt 3)]
       [(skey ''submission_id'', PStr token), (skey ''durability'', skey durability), (skey ''retries'', PInt 5)])) (\<lambda>i.
     script_return (PDict [(skey ''id'', i), (skey ''token'', PStr token)])))"

definition executing :: "pyval \<Rightarrow> bool" where
  "executing status =
     (status = skey ''executing'' \<or> (case status of PDict d \<Rightarrow> get_field d ''state'' = skey ''executing'' | _ \<Rightarrow> False))"

fun await_executing :: "nat \<Rightarrow> pyval \<Rightarrow> pyval \<Rightarrow> (producer, pyval) script" where
  "await_executing 0 i jobs = script_raise RuntimeError"
| "await_executing (Suc n) i jobs =
     script_bind (ask (CallStatus i)) (\<lambda>status.
     if executing status then script_return jobs
     else script_bind nap (\<lambda>_. await_executing n i jobs))"

definition do_seed :: "(producer, pyval) script" where
  "do_seed =
     script_bind (seed_job ''persistent'') (\<lambda>persistent.
     script_bind (seed_job ''volatile'') (\<lambda>volatile.
     script_bind (script_lift (value_item persistent ''id'')) (\<lambda>i.
     await_executing 100 i (PDict [(skey ''persistent'', persistent), (skey ''volatile'', volatile)]))))"

text \<open>\<^verbatim>\<open><\<close> on decoded values: numbers, texts and lists compare, anything else raises.\<close>

definition counted :: "pyval \<Rightarrow> pyval" where
  "counted v = (case v of PBool b \<Rightarrow> PInt (if b then 1 else 0) | _ \<Rightarrow> v)"

fun text_less :: "pystr \<Rightarrow> pystr \<Rightarrow> bool" where
  "text_less s [] = False"
| "text_less [] (d # t) = True"
| "text_less (c # s) (d # t) = (c < d \<or> (c = d \<and> text_less s t))"

fun value_less :: "pyval \<Rightarrow> pyval \<Rightarrow> bool res" and list_less :: "pyval list \<Rightarrow> pyval list \<Rightarrow> bool res" where
  "value_less (PStr s) (PStr t) = Inr (text_less s t)"
| "value_less (PList xs) (PList ys) = list_less xs ys"
| "value_less v w = (if is_number (counted v) \<and> is_number (counted w) then Inr (num_less (counted v) (counted w)) else Inl TypeError)"
| "list_less xs [] = Inr False"
| "list_less [] (y # ys) = Inr True"
| "list_less (x # xs) (y # ys) = (if comparable x = comparable y then list_less xs ys else value_less x y)"

text \<open>The schedule of the restored engine runs on.\<close>

definition advanced :: "pyval \<Rightarrow> pyval \<Rightarrow> bool res" where
  "advanced saved last_at =
     (if last_at = PNone then Inr False else rbind (value_item saved ''schedule_last_at'') (\<lambda>before_at. value_less before_at last_at))"

fun await_advance :: "nat \<Rightarrow> string \<Rightarrow> pyval \<Rightarrow> (producer, pyval) script" where
  "await_advance 0 transport saved = script_raise RuntimeError"
| "await_advance (Suc n) transport saved =
     script_bind (ask (CallGetSchedule (schedule_id transport))) (\<lambda>schedule.
     script_bind (script_lift (value_item schedule ''last_at'')) (\<lambda>last_at.
     script_bind (script_lift (advanced saved last_at)) (\<lambda>yes.
     if yes then script_return last_at
     else script_bind nap (\<lambda>_. await_advance n transport saved))))"

definition check_result :: "(pyval \<Rightarrow> client_call) \<Rightarrow> pyval \<Rightarrow> (producer, unit) script" where
  "check_result f job =
     script_bind (script_lift (value_item job ''id'')) (\<lambda>i.
     script_bind (ask (f i)) (\<lambda>result.
     script_bind (script_lift (value_item job ''token'')) (\<lambda>token.
     assert_equal result (PDict [(skey ''token'', token)]))))"

definition gone :: "pyval res \<Rightarrow> (producer, unit) script" where
  "gone r =
     (case r of
        Inl (ServerExn kind message code details) \<Rightarrow>
          if code = Some (str ''not_found'') then script_return () else script_raise (ServerExn kind message code details)
      | Inl e \<Rightarrow> script_raise e
      | Inr _ \<Rightarrow> script_raise RuntimeError)"

definition do_verify :: "string \<Rightarrow> pyval \<Rightarrow> (producer, pyval) script" where
  "do_verify transport state =
     script_bind (script_lift (value_item state transport)) (\<lambda>saved.
     script_bind (script_lift (value_item saved ''persistent'')) (\<lambda>durable.
     script_bind (check_result CallWaitResult durable) (\<lambda>_.
     script_bind (script_lift (rbind (value_item saved ''volatile'') (\<lambda>job. value_item job ''id''))) (\<lambda>i.
     script_bind (try_ask (CallStatus i)) (\<lambda>r.
     script_bind (gone r) (\<lambda>_.
     script_bind (script_lift (value_item saved ''witness'')) (\<lambda>witness.
     script_bind (check_result CallResult witness) (\<lambda>_.
     script_bind (await_advance 100 transport saved) (\<lambda>last_at.
     script_return (PDict [(skey ''recovered'', PBool True), (skey ''schedule_last_at'', last_at)]))))))))))"

text \<open>One of the eight jobs of a batch.\<close>

definition do_job :: "nat \<Rightarrow> (producer, pyval) script" where
  "do_job i =
     script_bind new_token (\<lambda>token.
     script_bind read_clock (\<lambda>started.
     script_bind (ask (CallEnqueue [(skey ''token'', PStr token), (skey ''fail_once'', PBool (i mod 4 = 0))]
       [(skey ''submission_id'', PStr token), (skey ''retries'', PInt 3),
        (skey ''durability'', skey (if i mod 4 = 3 then ''volatile'' else ''persistent''))])) (\<lambda>job.
     script_bind (ask (CallWaitResult job)) (\<lambda>result.
     script_bind (assert_equal result (PDict [(skey ''token'', PStr token)])) (\<lambda>_.
     script_bind read_clock (\<lambda>ended.
     script_return (PDict [(skey ''id'', job), (skey ''token'', PStr token),
       (skey ''elapsed_ms'', PFloat (float_mul (float_sub ended started) (Flt 1000)))])))))))"

text \<open>\<^verbatim>\<open>asyncio.gather\<close> of coroutines that end: their results in order, or the error of the one that raises first;
  \<open>order\<close> lists their indices as they end.\<close>

definition gather :: "nat list \<Rightarrow> pyval outcome list \<Rightarrow> pyval list res" where
  "gather order outs =
     (case find (\<lambda>i. case outs ! i of Done _ \<Rightarrow> False | _ \<Rightarrow> True) order of
        Some i \<Rightarrow> Inl (case outs ! i of Raised e \<Rightarrow> e | _ \<Rightarrow> CancelledError)
      | None \<Rightarrow> Inr (map (\<lambda>out. case out of Done v \<Rightarrow> v | _ \<Rightarrow> PNone) outs))"

definition longest :: "pyval list \<Rightarrow> pyval" where
  "longest vs = foldl (\<lambda>best v. if num_less best v then v else best) (hd vs) (tl vs)"

definition do_batch :: "string \<Rightarrow> pyval list res \<Rightarrow> (producer, pyval) script" where
  "do_batch transport gathered =
     script_bind (script_lift gathered) (\<lambda>jobs.
     script_bind (ask (CallGetSchedule (schedule_id transport))) (\<lambda>schedule.
     script_bind (script_lift (rmap (\<lambda>j. value_item j ''elapsed_ms'') jobs)) (\<lambda>times.
     script_bind (script_lift (value_item schedule ''last_at'')) (\<lambda>last_at.
     script_return (PDict [(skey ''jobs'', PInt (int (length jobs))), (skey ''witness'', jobs ! 1),
       (skey ''max_completion_ms'', longest times), (skey ''schedule_last_at'', last_at)])))))"

text \<open>\<^verbatim>\<open>async with client\<close>: the client is closed however the body ends.\<close>

definition with_client :: "(producer, pyval) script \<Rightarrow> (producer, pyval) script" where
  "with_client body =
     script_bind (ask CallOpen) (\<lambda>_ s.
     case body s of (out, t) \<Rightarrow>
       (case ask CallClose t of
          (Raised e, u) \<Rightarrow> (Raised e, u)
        | (_, u) \<Rightarrow> (out, u)))"

definition exercise :: "string \<Rightarrow> pyval \<Rightarrow> pyval list res \<Rightarrow> string \<Rightarrow> (producer, pyval) script" where
  "exercise action state gathered transport =
     with_client
       (if action = ''register'' then do_register transport
        else if action = ''seed'' then do_seed
        else if action = ''verify'' then do_verify transport state
        else do_batch transport gathered)"

text \<open>What a producer prints for the controller.\<close>

definition emitted :: "nat list \<Rightarrow> pyval outcome list \<Rightarrow> pyval res" where
  "emitted order outs = rbind (gather order outs) (\<lambda>results. Inr (PDict (zip (map skey [''uds'', ''http'']) results)))"

subsection \<open>A token fails at most once per worker before it is done\<close>

definition holders :: "pystr \<Rightarrow> nat set \<Rightarrow> (nat \<Rightarrow> echo) \<Rightarrow> nat set" where
  "holders token W ws = {w \<in> W. token \<in> e_failed (ws w)}"

fun at_worker :: "echo_event \<Rightarrow> nat" where
  "at_worker (Begins w _ _) = w"
| "at_worker (Ends w _) = w"

lemma echo_step_holders:
  assumes "finite W" and "at_worker ev \<in> W" and "\<forall>w. ev \<noteq> Ends w token" and "echo_step ev ws = (failed, ws')"
  shows "(if failed \<and> begins token ev then 1 else 0) + card (holders token W ws) \<le> card (holders token W ws')"
proof (cases ev)
  case (Begins w t f)
  show ?thesis
  proof (cases "failed \<and> t = token")
    case True
    then have new: "token \<notin> e_failed (ws w)" "holders token W ws' = insert w (holders token W ws)"
      using assms Begins by (auto simp: echo_step_def echo_begin_def holders_def Let_def split: if_splits)
    moreover have "finite (holders token W ws)" using assms(1) by (simp add: holders_def)
    ultimately show ?thesis by (simp add: holders_def)
  next
    case False
    have "holders token W ws \<subseteq> holders token W ws'"
      using assms Begins by (auto simp: echo_step_def echo_begin_def holders_def Let_def split: if_splits)
    moreover have "finite (holders token W ws')" using assms(1) by (simp add: holders_def)
    ultimately show ?thesis using False Begins by (auto intro: card_mono)
  qed
next
  case (Ends w t)
  have "holders token W ws \<subseteq> holders token W ws'"
    using assms Ends by (auto simp: echo_step_def echo_end_def holders_def)
  moreover have "finite (holders token W ws')" using assms(1) by (simp add: holders_def)
  ultimately show ?thesis using Ends by (auto intro: card_mono)
qed

lemma failures_bound:
  assumes "finite W" and "\<forall>ev\<in>set evs. at_worker ev \<in> W \<and> (\<forall>w. ev \<noteq> Ends w token)"
  shows "failures token evs ws + card (holders token W ws) \<le> card W"
  using assms(2)
proof (induction evs arbitrary: ws)
  case Nil
  then show ?case using assms(1) by (auto simp: holders_def intro: card_mono)
next
  case (Cons ev evs)
  obtain failed ws' where step: "echo_step ev ws = (failed, ws')" by fastforce
  have "failures token evs ws' + card (holders token W ws') \<le> card W" using Cons by simp
  with echo_step_holders [OF assms(1) _ _ step, of token] Cons.prems show ?case by (simp add: step)
qed

text \<open>Whatever the order in which the two workers run invocations: until one of them completes a token, that
  token's invocations have failed at most twice, so that a job with three retries is never exhausted.\<close>

theorem echo_fails_twice_at_most:
  assumes "\<forall>ev\<in>set evs. at_worker ev \<in> {0, 1} \<and> (\<forall>w. ev \<noteq> Ends w token)"
  shows "failures token evs (\<lambda>_. initial_echo) \<le> 2"
  using failures_bound [of "{0, 1}" evs token "\<lambda>_. initial_echo"] assms by simp

theorem echo_fails_twice_at_most_witness:
  "failures (str ''t'') [Begins 0 (str ''t'') True, Begins 1 (str ''t'') True, Begins 0 (str ''t'') True, Ends 0 (str ''u'')] (\<lambda>_. initial_echo) \<le> 2"
  by (rule echo_fails_twice_at_most) (simp add: str_def)

subsection \<open>What a verification has established\<close>

lemma ask_Done: "ask c s = (Done v, t) \<longleftrightarrow> p_answer s 0 c = Inr v \<and> t = s\<lparr>p_log := p_log s @ [(c, Inr v)], p_answer := p_answer s \<circ> Suc\<rparr>"
  by (auto simp: ask_def Let_def split: sum.split)

lemma nap_Done: "nap s = (Done u, t) \<longleftrightarrow> t = s\<lparr>p_sleeps := Suc (p_sleeps s)\<rparr>"
  by (auto simp: nap_def script_modify_def)

lemma check_result_Done:
  "check_result f job s = (Done u, t) \<Longrightarrow>
   \<exists>i token result. value_item job ''id'' = Inr i \<and> value_item job ''token'' = Inr token \<and> py_eq result (PDict [(skey ''token'', token)])
     \<and> p_log t = p_log s @ [(f i, Inr result)]"
  by (auto simp: check_result_def ask_Done assert_equal_def split: if_splits)

lemma gone_Done: "gone r s = (Done u, t) \<Longrightarrow> t = s \<and> (\<exists>kind message details. r = Inl (ServerExn kind message (Some (str ''not_found'')) details))"
  by (auto simp: gone_def split: sum.splits exn.splits if_splits)

lemma await_advance_Done:
  "await_advance n transport saved s = (Done last_at, t) \<Longrightarrow>
   \<exists>schedule saved_at. (CallGetSchedule (schedule_id transport), Inr schedule) \<in> set (p_log t) \<and> value_item schedule ''last_at'' = Inr last_at
     \<and> value_item saved ''schedule_last_at'' = Inr saved_at \<and> value_less saved_at last_at = Inr True \<and> set (p_log s) \<subseteq> set (p_log t)"
proof (induction n arbitrary: s)
  case (Suc n)
  from Suc.prems obtain schedule l yes u where turn: "value_item schedule ''last_at'' = Inr l" "advanced saved l = Inr yes"
      "u = s\<lparr>p_log := p_log s @ [(CallGetSchedule (schedule_id transport), Inr schedule)], p_answer := p_answer s \<circ> Suc\<rparr>"
      "(if yes then script_return l else script_bind nap (\<lambda>_. await_advance n transport saved)) u = (Done last_at, t)"
    by (auto simp: ask_Done)
  show ?case
  proof (cases yes)
    case True
    with turn show ?thesis by (auto simp: advanced_def rbind_eq_Inr split: if_splits)
  next
    case False
    with turn have "await_advance n transport saved (u\<lparr>p_sleeps := Suc (p_sleeps u)\<rparr>) = (Done last_at, t)" by (auto simp: nap_Done)
    from Suc.IH [OF this] turn(3) show ?thesis by auto
  qed
qed simp

text \<open>A job completed with its own token, a job unknown to the engine, and a schedule that ran since, as the log
  of calls has it.\<close>

definition completed :: "(pyval \<Rightarrow> client_call) \<Rightarrow> pyval \<Rightarrow> (client_call \<times> pyval res) list \<Rightarrow> bool" where
  "completed f job calls \<longleftrightarrow>
     (\<exists>i token result. value_item job ''id'' = Inr i \<and> value_item job ''token'' = Inr token \<and> (f i, Inr result) \<in> set calls
        \<and> py_eq result (PDict [(skey ''token'', token)]))"

definition vanished :: "pyval \<Rightarrow> (client_call \<times> pyval res) list \<Rightarrow> bool" where
  "vanished job calls \<longleftrightarrow>
     (\<exists>i kind message details. value_item job ''id'' = Inr i \<and>
        (CallStatus i, Inl (ServerExn kind message (Some (str ''not_found'')) details)) \<in> set calls)"

definition ran_since :: "string \<Rightarrow> pyval \<Rightarrow> pyval \<Rightarrow> (client_call \<times> pyval res) list \<Rightarrow> bool" where
  "ran_since transport saved last_at calls \<longleftrightarrow>
     (\<exists>schedule saved_at. (CallGetSchedule (schedule_id transport), Inr schedule) \<in> set calls \<and> value_item schedule ''last_at'' = Inr last_at
        \<and> value_item saved ''schedule_last_at'' = Inr saved_at \<and> value_less saved_at last_at = Inr True)"

lemma observations_mono:
  assumes "set calls \<subseteq> set calls'"
  shows "completed f job calls \<Longrightarrow> completed f job calls'" "vanished job calls \<Longrightarrow> vanished job calls'"
    "ran_since transport saved last_at calls \<Longrightarrow> ran_since transport saved last_at calls'"
  using assms unfolding completed_def vanished_def ran_since_def by blast+

lemma do_verify_Done:
  assumes "do_verify transport state s = (Done v, t)"
  shows "\<exists>saved durable volatile witness last_at. value_item state transport = Inr saved
    \<and> value_item saved ''persistent'' = Inr durable \<and> completed CallWaitResult durable (p_log t)
    \<and> value_item saved ''volatile'' = Inr volatile \<and> vanished volatile (p_log t)
    \<and> value_item saved ''witness'' = Inr witness \<and> completed CallResult witness (p_log t)
    \<and> ran_since transport saved last_at (p_log t)
    \<and> v = PDict [(skey ''recovered'', PBool True), (skey ''schedule_last_at'', last_at)]"
proof -
  from assms obtain saved durable volatile witness last_at i r s1 s2 s2' s3 where
    saved: "value_item state transport = Inr saved" "value_item saved ''persistent'' = Inr durable" "value_item saved ''volatile'' = Inr volatile"
      "value_item volatile ''id'' = Inr i" "value_item saved ''witness'' = Inr witness" and
    first: "check_result CallWaitResult durable s = (Done (), s1)" and
    status: "s2 = s1\<lparr>p_log := p_log s1 @ [(CallStatus i, r)], p_answer := p_answer s1 \<circ> Suc\<rparr>" "gone r s2 = (Done (), s2')" and
    second: "check_result CallResult witness s2' = (Done (), s3)" and
    last: "await_advance 100 transport saved s3 = (Done last_at, t)" and
    v: "v = PDict [(skey ''recovered'', PBool True), (skey ''schedule_last_at'', last_at)]"
    by (auto simp: do_verify_def try_ask_def Let_def rbind_eq_Inr)
  have s2: "s2' = s2" using gone_Done [OF status(2)] by blast
  have r: "\<exists>kind message details. r = Inl (ServerExn kind message (Some (str ''not_found'')) details)" using gone_Done [OF status(2)] by blast
  note one = check_result_Done [OF first] and two = check_result_Done [OF second] and adv = await_advance_Done [OF last]
  have logs: "set (p_log s1) \<subseteq> set (p_log t)" "set (p_log s2) \<subseteq> set (p_log t)" "set (p_log s3) \<subseteq> set (p_log t)"
    using one two adv status(1) s2 by auto
  have "completed CallWaitResult durable (p_log s1)" "vanished volatile (p_log s2)" "completed CallResult witness (p_log s3)"
    using one two saved(4) status(1) r by (auto simp: completed_def vanished_def)
  moreover have "ran_since transport saved last_at (p_log t)" using adv by (auto simp: ran_since_def)
  ultimately show ?thesis using saved v observations_mono(1) [OF logs(1)] observations_mono(2) [OF logs(2)] observations_mono(1) [OF logs(3)] by blast
qed

lemma with_client_Done: "with_client body s = (Done v, t) \<Longrightarrow> \<exists>s0 u. body s0 = (Done v, u) \<and> set (p_log u) \<subseteq> set (p_log t)"
proof -
  assume "with_client body s = (Done v, t)"
  then obtain s0 where opened: "(case body s0 of (out, u) \<Rightarrow> (case ask CallClose u of (Raised e, w) \<Rightarrow> (Raised e, w) | (_, w) \<Rightarrow> (out, w))) = (Done v, t)"
    by (auto simp: with_client_def)
  obtain out u where body: "body s0 = (out, u)" by fastforce
  with opened show ?thesis by (auto simp: ask_def Let_def split: sum.splits) blast
qed


definition sample_state :: pyval where
  "sample_state = PDict [(skey ''uds'', PDict
     [(skey ''persistent'', PDict [(skey ''id'', skey ''a''), (skey ''token'', skey ''t'')]),
      (skey ''volatile'', PDict [(skey ''id'', skey ''b''), (skey ''token'', skey ''u'')]),
      (skey ''witness'', PDict [(skey ''id'', skey ''c''), (skey ''token'', skey ''w'')]),
      (skey ''schedule_last_at'', PInt 1)])]"

definition sample_producer :: producer where
  "sample_producer =
     \<lparr>p_log = [], p_sleeps = 0,
      p_answer = (\<lambda>_ c. case c of
          CallWaitResult _ \<Rightarrow> Inr (PDict [(skey ''token'', skey ''t'')])
        | CallStatus _ \<Rightarrow> Inl (ServerExn ServerError [] (Some (str ''not_found'')) PNone)
        | CallResult _ \<Rightarrow> Inr (PDict [(skey ''token'', skey ''w'')])
        | CallGetSchedule _ \<Rightarrow> Inr (PDict [(skey ''last_at'', PInt 2)])
        | _ \<Rightarrow> Inr PNone),
      p_uuid = (\<lambda>_. []), p_clock = (\<lambda>_. Flt 0)\<rparr>"

lemma sample_verify: "\<exists>t. exercise ''verify'' sample_state (Inr []) ''uds'' sample_producer =
    (Done (PDict [(skey ''recovered'', PBool True), (skey ''schedule_last_at'', PInt 2)]), t)"
  by (simp add: exercise_def with_client_def do_verify_def check_result_def ask_def try_ask_def gone_def assert_equal_def advanced_def
      script_defs sample_state_def sample_producer_def item_def str_def py_eq_refl num_less_def counted_def numeral_nat Let_def)


subsection \<open>Batches\<close>

text \<open>A job of a batch that returns enqueued itself once and completed with its own token.\<close>

lemma do_job_Done:
  assumes "do_job i s = (Done v, t)"
  shows "\<exists>job result elapsed. p_log t = p_log s @
      [(CallEnqueue [(skey ''token'', PStr (p_uuid s 0)), (skey ''fail_once'', PBool (i mod 4 = 0))]
         [(skey ''submission_id'', PStr (p_uuid s 0)), (skey ''retries'', PInt 3),
          (skey ''durability'', skey (if i mod 4 = 3 then ''volatile'' else ''persistent''))], Inr job),
       (CallWaitResult job, Inr result)]
    \<and> py_eq result (PDict [(skey ''token'', PStr (p_uuid s 0))])
    \<and> v = PDict [(skey ''id'', job), (skey ''token'', PStr (p_uuid s 0)), (skey ''elapsed_ms'', elapsed)]"
  using assms by (auto simp: do_job_def new_token_def read_clock_def ask_Done assert_equal_def split: if_splits)

text \<open>\<^verbatim>\<open>gather\<close> returns the results in order exactly when none raises.\<close>

lemma gather_all:
  assumes "set order = {..<length outs}"
  shows "is_ok (gather order outs) \<longleftrightarrow> (\<forall>out\<in>set outs. \<exists>v. out = Done v)" "gather order (map Done vs) = Inr vs'\<Longrightarrow> vs' = vs"
proof -
  have "find (\<lambda>i. case outs ! i of Done _ \<Rightarrow> False | _ \<Rightarrow> True) order = None \<longleftrightarrow> (\<forall>out\<in>set outs. \<exists>v. out = Done v)"
    using assms by (auto simp: find_None_iff in_set_conv_nth all_set_conv_all_nth split: outcome.splits) (metis lessThan_iff outcome.exhaust)+
  then show "is_ok (gather order outs) \<longleftrightarrow> (\<forall>out\<in>set outs. \<exists>v. out = Done v)"
    by (auto simp: gather_def is_ok_iff split: option.splits)
  show "gather order (map Done vs) = Inr vs' \<Longrightarrow> vs' = vs"
    by (auto simp: gather_def map_idI split: option.splits)
qed

end
