(* ===== verification/Soak.thy ===== *)
theory Soak
  imports SoakRoles ReleaseRun Http
begin

section \<open>The soak test (\<^verbatim>\<open>bench/soak.py\<close>, controller)\<close>

text \<open>
  The controller of the soak test: it starts an engine and two workers in containers, lets
  producers submit batches, and from time to time replaces the engine by one that runs on a
  restored cold copy of its data. It is a script (theory \<open>Scripts\<close>) over the record \<open>soak\<close>. A
  command is a constructor of \<open>docker_command\<close> and \<open>argv\<close> is the argument vector it is run with;
  \<open>k_log\<close> is the log of the commands started. How a command ends and what the clock shows is
  the environment's: \<open>k_process\<close> and \<open>k_clock\<close> are the answers still to come. Loops take their
  number of turns from a fuel argument; statements hold for every fuel. Writing files is assumed
  to succeed, and only the part of the report the controller itself reads or judges is kept.
\<close>

subsection \<open>Text\<close>

definition py_strip :: "pystr \<Rightarrow> pystr" where
  "py_strip s = rev (dropWhile is_space (rev (dropWhile is_space s)))"

definition line_break :: "codepoint \<Rightarrow> bool" where
  "line_break c = (c \<in> {10, 11, 12, 13, 28, 29, 30, 133, 8232, 8233})"

fun lines_from :: "pystr \<Rightarrow> pystr \<Rightarrow> pystr list" where
  "lines_from acc [] = (if acc = [] then [] else [rev acc])"
| "lines_from acc (c # r) =
     (if c = 13 \<and> take 1 r = [10] then rev acc # lines_from [] (drop 1 r)
      else if line_break c then rev acc # lines_from [] r
      else lines_from (c # acc) r)"

definition splitlines :: "pystr \<Rightarrow> pystr list" where
  "splitlines s = lines_from [] s"

definition MARKER :: pystr where
  "MARKER = str ''TAY_SOAK_JSON=''"

definition decoded :: "nat \<Rightarrow> pystr \<Rightarrow> pyval res" where
  "decoded rl output =
     (case find (\<lambda>line. take (length MARKER) line = MARKER) (rev (splitlines output)) of
        None \<Rightarrow> Inl RuntimeError
      | Some line \<Rightarrow> json_loads plain_pairs plain_constant rl (snd (snd (partition_at 61 line))))"

text \<open>\<^verbatim>\<open>json.dumps\<close> with its default separators, of values whose keys are texts, as decoded JSON has them.\<close>

definition ascii_string :: "pystr \<Rightarrow> pystr" where
  "ascii_string s = concat (map ascii_escape (json_string s))"

fun spaced_json :: "pyval \<Rightarrow> pystr res"
  and spaced_elements :: "pyval list \<Rightarrow> pystr res"
  and spaced_items :: "(pyval \<times> pyval) list \<Rightarrow> pystr res" where
  "spaced_json PNone = Inr (str ''null'')"
| "spaced_json (PBool b) = Inr (if b then str ''true'' else str ''false'')"
| "spaced_json (PInt i) = int_repr i"
| "spaced_json (PFloat x) =
     Inr (if isfinite x then float_repr x else if x = NaN then str ''NaN'' else if x = PosInf then str ''Infinity'' else str ''-Infinity'')"
| "spaced_json (PStr s) = Inr (ascii_string s)"
| "spaced_json (PList xs) = rbind (spaced_elements xs) (\<lambda>t. Inr (91 # t @ [93]))"
| "spaced_json (PTuple xs) = rbind (spaced_elements xs) (\<lambda>t. Inr (91 # t @ [93]))"
| "spaced_json (PDict d) = rbind (spaced_items d) (\<lambda>t. Inr (123 # t @ [125]))"
| "spaced_json (POther _) = Inl TypeError"
| "spaced_elements [] = Inr []"
| "spaced_elements (v # vs) =
     rbind (spaced_json v) (\<lambda>t. if vs = [] then Inr t else rbind (spaced_elements vs) (\<lambda>ts. Inr (t @ [44, 32] @ ts)))"
| "spaced_items [] = Inr []"
| "spaced_items ((k, v) # d) =
     (case k of
        PStr s \<Rightarrow>
          rbind (spaced_json v) (\<lambda>t.
            if d = [] then Inr (ascii_string s @ [58, 32] @ t)
            else rbind (spaced_items d) (\<lambda>ts. Inr (ascii_string s @ [58, 32] @ t @ [44, 32] @ ts)))
      | _ \<Rightarrow> Inl TypeError)"

text \<open>What \<^verbatim>\<open>emit\<close> prints.\<close>

definition emit :: "pyval \<Rightarrow> pystr res" where
  "emit v = rbind (spaced_json v) (\<lambda>t. Inr (MARKER @ t @ [10]))"

subsection \<open>Commands\<close>

record soak_names =
  n_prefix :: pystr
  n_output :: pystr
  n_repo :: pystr

definition server_name :: "soak_names \<Rightarrow> pystr" where "server_name n = n_prefix n @ str ''-engine''"
definition worker_names :: "soak_names \<Rightarrow> pystr list" where
  "worker_names n = map (\<lambda>t. n_prefix n @ str ''-'' @ str t) [''uds'', ''http'']"
definition data_volume :: "soak_names \<Rightarrow> pystr" where "data_volume n = n_prefix n @ str ''-data''"
definition socket_volume :: "soak_names \<Rightarrow> pystr" where "socket_volume n = n_prefix n @ str ''-socket''"

datatype docker_command =
    GitDiff | GitRevision | GitStatus
  | ImageId pystr
  | CreateVolume pystr
  | RunEngine pystr pystr
  | EngineHealth
  | RunWorker string pystr
  | RunProducer string pystr pystr
  | Rpc pystr
  | KillEngine
  | StopContainer string pystr
  | ContainerLogs pystr
  | RemoveContainer pystr
  | ColdCopy pystr pystr pystr pystr
  | EngineStats
  | DiskUsage

definition words :: "string list \<Rightarrow> pystr list" where
  "words = map str"

definition mounts :: "soak_names \<Rightarrow> pystr list" where
  "mounts n =
     [str ''-v'', socket_volume n @ str '':/run/tay'', str ''-v'', path_join (n_output n) [str ''snapshot''] @ str '':/soak:ro'',
      str ''-e'', str ''PYTHONPATH=/soak/sdk'']"

definition engine_argv :: "soak_names \<Rightarrow> pystr \<Rightarrow> pystr \<Rightarrow> pystr list" where
  "engine_argv n img store =
     words [''docker'', ''run'', ''-d'', ''--name''] @ [server_name n]
     @ words [''--network'', ''none'', ''--memory'', ''512m'', ''--cpus'', ''2'', ''--read-only'', ''--tmpfs'',
         ''/tmp:rw,nosuid,size=64m,uid=10001,gid=10001,mode=0700'', ''--cap-drop'', ''ALL'', ''--security-opt'', ''no-new-privileges'']
     @ [str ''-v'', data_volume n @ str '':/var/lib/tay'', str ''-v'', socket_volume n @ str '':/run/tay'',
        str ''-e'', str ''TAY_DATA_DIR='' @ store]
     @ words [''-e'', ''TAY_INITIALIZE_IF_MISSING=true'', ''-e'', ''TAY_HTTP_PORT=8080'', ''-e'', ''TAY_HTTP_IP=127.0.0.1'',
         ''-e'', ''TAY_SOCKET_PATH=/run/tay/tay.sock'', ''-e'', ''TAY_CHECKPOINT_INTERVAL_MS=10000'', ''-e'', ''ERL_FLAGS=+S 2:2 +A 2'']
     @ [img]"

definition copy_expression :: "pystr \<Rightarrow> pystr \<Rightarrow> pystr \<Rightarrow> pystr" where
  "copy_expression source backup restored =
     str ''Application.ensure_all_started(:tay); {:ok, b} = Tay.Storage.ColdCopy.backup([source: \"'' @ source
     @ str ''\", destination: \"'' @ backup @ str ''\", catalog: \"'' @ backup
     @ str ''.json\", durability: :sync, validated_filesystem: true]); {:ok, r} = Tay.Storage.ColdCopy.restore([source: \"'' @ backup
     @ str ''\", destination: \"'' @ restored @ str ''\", catalog: \"'' @ restored @ str ''.json\", verify_catalog: \"'' @ backup
     @ str ''.json\", durability: :sync, validated_filesystem: true]); IO.puts(\"TAY_SOAK_JSON=\" <> Jason.encode!(%{backup: b, restore: r}))''"

fun argv :: "soak_names \<Rightarrow> docker_command \<Rightarrow> pystr list" where
  "argv n GitDiff = [str ''git'', str ''-C'', n_repo n] @ words [''diff'', ''HEAD'', ''--binary'']"
| "argv n GitRevision = [str ''git'', str ''-C'', n_repo n] @ words [''rev-parse'', ''HEAD'']"
| "argv n GitStatus = [str ''git'', str ''-C'', n_repo n] @ words [''status'', ''--porcelain'']"
| "argv n (ImageId img) = words [''docker'', ''image'', ''inspect'', ''--format'', ''{{.Id}}''] @ [img]"
| "argv n (CreateVolume v) = words [''docker'', ''volume'', ''create''] @ [v]"
| "argv n (RunEngine img store) = engine_argv n img store"
| "argv n EngineHealth = words [''docker'', ''inspect'', ''--format'', ''{{.State.Health.Status}}''] @ [server_name n]"
| "argv n (RunWorker transport img) =
     words [''docker'', ''run'', ''-d'', ''--name''] @ [n_prefix n @ str ''-'' @ str transport, str ''--network'',
       if transport = ''uds'' then str ''none'' else str ''container:'' @ server_name n]
     @ words [''--memory'', ''128m'', ''--cpus'', ''0.5''] @ mounts n @ [img]
     @ words [''python'', ''/soak/soak.py'', ''--role'', ''worker'', ''--transport'', transport]"
| "argv n (RunProducer action state img) =
     words [''docker'', ''run'', ''--rm'', ''--network''] @ [str ''container:'' @ server_name n] @ words [''--memory'', ''128m'']
     @ mounts n @ [img] @ words [''python'', ''/soak/soak.py'', ''--role'', ''producer'', ''--action'', action, ''--state''] @ [state]"
| "argv n (Rpc expression) =
     words [''docker'', ''exec''] @ [server_name n] @ words [''bin/tay_standalone'', ''rpc'']
     @ [str ''value = ('' @ expression @ str ''); IO.puts(\"TAY_SOAK_JSON=\" <> Jason.encode!(value))'']"
| "argv n KillEngine = words [''docker'', ''kill'', ''--signal'', ''KILL''] @ [server_name n]"
| "argv n (StopContainer seconds name) = words [''docker'', ''stop'', ''--time'', seconds] @ [name]"
| "argv n (ContainerLogs name) = words [''docker'', ''logs''] @ [name]"
| "argv n (RemoveContainer name) = words [''docker'', ''rm''] @ [name]"
| "argv n (ColdCopy img source backup restored) =
     words [''docker'', ''run'', ''--rm'', ''--network'', ''none'', ''-v''] @ [data_volume n @ str '':/var/lib/tay'']
     @ words [''-e'', ''ERL_FLAGS=+S 2:2 +A 2'', ''--entrypoint'', ''bin/tay_standalone''] @ [img, str ''eval'', copy_expression source backup restored]"
| "argv n EngineStats = words [''docker'', ''stats'', ''--no-stream'', ''--format'', ''{{json .}}''] @ [server_name n]"
| "argv n DiskUsage = words [''docker'', ''exec''] @ [server_name n] @ words [''du'', ''-sk'', ''/var/lib/tay'']"

subsection \<open>State\<close>

datatype process = Exited int pystr | NotRun exn

record soak_report =
  s_status :: string
  s_cycles :: int
  s_jobs :: pyval
  s_maintenance :: int
  s_elapsed :: pyval
  s_error :: "exn option"

record soak_args =
  a_image :: pystr
  a_worker_image :: pystr
  a_seconds :: int
  a_interval :: pyfloat
  a_maintenance_every :: int
  a_max_disk_mib :: int

record soak =
  k_args :: soak_args
  k_names :: soak_names
  k_store :: pystr
  k_report :: soak_report
  k_started :: pyfloat
  k_events :: "(string \<times> pydict) list"
  k_saved :: "soak_report list"
  k_sleeps :: "pyval list"
  k_log :: "docker_command list"
  k_process :: "nat \<Rightarrow> docker_command \<Rightarrow> process"
  k_clock :: "nat \<Rightarrow> pyfloat"

definition soak_init :: "soak_args \<Rightarrow> soak_names \<Rightarrow> (nat \<Rightarrow> docker_command \<Rightarrow> process) \<Rightarrow> (nat \<Rightarrow> pyfloat) \<Rightarrow> soak" where
  "soak_init a n process clock =
     \<lparr>k_args = a, k_names = n, k_store = str ''/var/lib/tay/store'',
      k_report = \<lparr>s_status = ''starting'', s_cycles = 0, s_jobs = PInt 0, s_maintenance = 0, s_elapsed = PInt 0, s_error = None\<rparr>,
      k_started = Flt 0, k_events = [], k_saved = [], k_sleeps = [], k_log = [], k_process = process, k_clock = clock\<rparr>"

subsection \<open>Primitive operations\<close>

text \<open>\<^verbatim>\<open>subprocess.run(..., check=False)\<close>; a time-out or an interrupt is an exception.\<close>

definition run_unchecked :: "docker_command \<Rightarrow> (soak, int \<times> pystr) script" where
  "run_unchecked c s =
     (let t = s\<lparr>k_log := k_log s @ [c], k_process := k_process s \<circ> Suc\<rparr> in
      case k_process s 0 c of Exited code out \<Rightarrow> (Done (code, out), t) | NotRun e \<Rightarrow> (Raised e, t))"

definition soak_command :: "docker_command \<Rightarrow> (soak, pystr) script" where
  "soak_command c = script_bind (run_unchecked c) (\<lambda>(code, out). if code \<noteq> 0 then script_raise RuntimeError else script_return (py_strip out))"

definition monotonic :: "(soak, pyfloat) script" where
  "monotonic s = (Done (k_clock s 0), s\<lparr>k_clock := k_clock s \<circ> Suc\<rparr>)"

definition sleep :: "pyval \<Rightarrow> (soak, unit) script" where
  "sleep v = (if num_le (PInt 0) v then script_modify (\<lambda>s. s\<lparr>k_sleeps := k_sleeps s @ [v]\<rparr>) else script_raise ValueError)"

definition save :: "(soak, unit) script" where
  "save = script_modify (\<lambda>s. s\<lparr>k_saved := k_saved s @ [k_report s]\<rparr>)"

definition soak_event :: "string \<Rightarrow> pydict \<Rightarrow> (soak, unit) script" where
  "soak_event kind values = script_modify (\<lambda>s. s\<lparr>k_events := k_events s @ [(kind, values)]\<rparr>)"

definition set_report :: "(soak_report \<Rightarrow> soak_report) \<Rightarrow> (soak, unit) script" where
  "set_report f = script_modify (\<lambda>s. s\<lparr>k_report := f (k_report s)\<rparr>)"

subsection \<open>Containers\<close>

fun wait_healthy :: "nat \<Rightarrow> pyfloat \<Rightarrow> (soak, unit) script" where
  "wait_healthy 0 deadline = (\<lambda>s. (Unfinished, s))"
| "wait_healthy (Suc fuel) deadline =
     script_bind monotonic (\<lambda>t.
     if \<not> num_less (PFloat t) (PFloat deadline) then script_raise RuntimeError
     else
       script_bind (soak_command EngineHealth) (\<lambda>health.
       if health = str ''healthy'' then script_return ()
       else if health = str ''unhealthy'' then script_raise RuntimeError
       else script_bind (sleep (PInt 1)) (\<lambda>_. wait_healthy fuel deadline)))"

definition start_engine :: "nat \<Rightarrow> (soak, unit) script" where
  "start_engine fuel =
     script_bind (script_get (\<lambda>s. RunEngine (a_image (k_args s)) (k_store s))) (\<lambda>c.
     script_bind (soak_command c) (\<lambda>_.
     script_bind monotonic (\<lambda>t. wait_healthy fuel (float_add t (Flt 90)))))"

definition start_workers :: "(soak, unit) script" where
  "start_workers =
     script_each (\<lambda>transport.
       script_bind (script_get (\<lambda>s. RunWorker transport (a_worker_image (k_args s)))) (\<lambda>c.
       script_bind (soak_command c) (\<lambda>_. script_return ()))) [''uds'', ''http'']"

definition produce :: "nat \<Rightarrow> string \<Rightarrow> pyval \<Rightarrow> (soak, pyval) script" where
  "produce rl action state =
     script_bind (script_lift (spaced_json (if truthy state then state else PDict []))) (\<lambda>text_state.
     script_bind (script_get (\<lambda>s. RunProducer action text_state (a_worker_image (k_args s)))) (\<lambda>c.
     script_bind (soak_command c) (\<lambda>out. script_lift (decoded rl out))))"

definition rpc :: "nat \<Rightarrow> pystr \<Rightarrow> (soak, pyval) script" where
  "rpc rl expression = script_bind (soak_command (Rpc expression)) (\<lambda>out. script_lift (decoded rl out))"

definition archive_logs :: "pystr \<Rightarrow> (soak, unit) script" where
  "archive_logs name = script_bind (run_unchecked (ContainerLogs name)) (\<lambda>_. script_return ())"

definition remove_container :: "pystr \<Rightarrow> (soak, unit) script" where
  "remove_container name = script_bind (soak_command (RemoveContainer name)) (\<lambda>_. script_return ())"

definition remove_workers :: "(soak, unit) script" where
  "remove_workers =
     script_bind (script_get (\<lambda>s. worker_names (k_names s))) (\<lambda>names.
     script_each (\<lambda>name.
       script_bind (soak_command (StopContainer ''10'' name)) (\<lambda>_.
       script_bind (archive_logs name) (\<lambda>_.
       remove_container name))) names)"

subsection \<open>Maintenance\<close>

text \<open>The loop that adds what the verification needs to the probes.\<close>

definition batch_row :: "pyval \<Rightarrow> pyval \<Rightarrow> pyval res" where
  "batch_row batch transport =
     (case batch of
        PDict b \<Rightarrow>
          (case dget b transport of
             None \<Rightarrow> Inl (if hashable transport then KeyError else TypeError)
           | Some row \<Rightarrow> Inr row)
      | _ \<Rightarrow> Inl TypeError)"

definition add_evidence :: "pyval \<Rightarrow> pyval \<times> pyval \<Rightarrow> (pyval \<times> pyval) res" where
  "add_evidence batch kv =
     rbind (batch_row batch (fst kv)) (\<lambda>row.
     rbind (value_item row ''witness'') (\<lambda>witness.
     case snd kv of
       PDict probe \<Rightarrow>
         rbind (value_item row ''schedule_last_at'') (\<lambda>last_at.
         Inr (fst kv, PDict (dset (dset probe (skey ''witness'') witness) (skey ''schedule_last_at'')
                (if truthy last_at then last_at else PInt 0))))
     | _ \<Rightarrow> Inl TypeError))"

text \<open>A batch comes from JSON and has only text keys: indexing anything but a dict of probes with one raises.\<close>

definition with_evidence :: "pyval \<Rightarrow> pyval \<Rightarrow> pyval res" where
  "with_evidence batch probes =
     rbind (value_len probes) (\<lambda>n.
     if n = 0 then Inr probes
     else (case probes of
             PDict d \<Rightarrow> rbind (rmap (add_evidence batch) d) (\<lambda>e. Inr (PDict e))
           | _ \<Rightarrow> rbind (batch_row batch (hd (elements probes))) (\<lambda>row. rbind (value_item row ''witness'') (\<lambda>_. Inl TypeError))))"

definition backup_path :: "int \<Rightarrow> pystr" where
  "backup_path number = str ''/var/lib/tay/backup-'' @ int_text number"

definition restored_path :: "int \<Rightarrow> pystr" where
  "restored_path number = str ''/var/lib/tay/restored-'' @ int_text number"

definition COMPACT_EXPRESSION :: pystr where
  "COMPACT_EXPRESSION = str ''{:ok, _} = Tay.compact(timeout: 120_000, terminal_retention: {:hours, 0}); %{completed: true}''"

text \<open>The old engine goes: killed or stopped, then removed with its workers.\<close>

definition retire_engine :: "bool \<Rightarrow> (soak, unit) script" where
  "retire_engine crash =
     script_bind (script_get (\<lambda>s. server_name (k_names s))) (\<lambda>server.
     script_bind (soak_command (if crash then KillEngine else StopContainer ''30'' server)) (\<lambda>_.
     script_bind remove_workers (\<lambda>_.
     script_bind (archive_logs server) (\<lambda>_.
     remove_container server))))"

text \<open>Its data is copied and restored; the copy is the new store.\<close>

definition replace_store :: "nat \<Rightarrow> int \<Rightarrow> (soak, pyval) script" where
  "replace_store rl number =
     script_bind (script_get (\<lambda>s. ColdCopy (a_image (k_args s)) (k_store s) (backup_path number) (restored_path number))) (\<lambda>c.
     script_bind (soak_command c) (\<lambda>out.
     script_bind (script_lift (decoded rl out)) (\<lambda>evidence.
     script_bind (script_modify (\<lambda>s. s\<lparr>k_store := restored_path number\<rparr>)) (\<lambda>_.
     script_return evidence))))"

definition maintain :: "nat \<Rightarrow> nat \<Rightarrow> pyval \<Rightarrow> (soak, unit) script" where
  "maintain fuel rl batch =
     script_bind (produce rl ''seed'' PNone) (\<lambda>seeded.
     script_bind (script_lift (with_evidence batch seeded)) (\<lambda>probes.
     script_bind (script_get (\<lambda>s. s_maintenance (k_report s) + 1)) (\<lambda>number.
     script_bind (retire_engine (number mod 2 = 1)) (\<lambda>_.
     script_bind (replace_store rl number) (\<lambda>evidence.
     script_bind (start_engine fuel) (\<lambda>_.
     script_bind start_workers (\<lambda>_.
     script_bind (produce rl ''verify'' probes) (\<lambda>recovered.
     script_bind (rpc rl COMPACT_EXPRESSION) (\<lambda>compacted.
     script_bind (set_report (\<lambda>r. r\<lparr>s_maintenance := number\<rparr>)) (\<lambda>_.
     soak_event ''maintenance''
       [(skey ''number'', PInt number), (skey ''crash'', PBool (number mod 2 = 1)), (skey ''copies'', evidence),
        (skey ''recovered'', recovered), (skey ''compaction'', compacted)]))))))))))"

subsection \<open>Sampling\<close>

text \<open>\<^verbatim>\<open>sum(v["jobs"] for v in batch.values())\<close>.\<close>

definition batch_jobs :: "pyval \<Rightarrow> pyval res" where
  "batch_jobs batch =
     (case batch of
        PDict d \<Rightarrow> fold (\<lambda>(_, v) acc. rbind acc (\<lambda>total. rbind (value_item v ''jobs'') (\<lambda>n. num_add total (counted n)))) d (Inr (PInt 0))
      | _ \<Rightarrow> Inl AttributeError)"

definition decimal_value :: "codepoint \<Rightarrow> nat option" where
  "decimal_value c = map_option (\<lambda>z. c - z) (find (\<lambda>z. z \<le> c \<and> c < z + 10) decimal_zeros)"

text \<open>\<^verbatim>\<open>int(text)\<close> for text without white space.\<close>

definition py_int :: "pystr \<Rightarrow> int res" where
  "py_int s =
     (let neg = (take 1 s = [45]); digits = (if take 1 s \<in> {[43], [45]} then drop 1 s else s); parts = split_on 95 digits in
      case all_some (map decimal_value (concat parts)) of
        None \<Rightarrow> Inl ValueError
      | Some ds \<Rightarrow>
          if [] \<in> set parts \<or> 4300 < length ds then Inl ValueError
          else Inr ((if neg then -1 else 1) * int (dec_value ds)))"

definition data_bytes :: "pystr \<Rightarrow> int res" where
  "data_bytes out =
     (let word = takeWhile (\<lambda>c. \<not> is_space c) (dropWhile is_space out) in
      if word = [] then Inl IndexError else rbind (py_int word) (\<lambda>n. Inr (n * 1024)))"

definition STATUS_EXPRESSION :: pystr where
  "STATUS_EXPRESSION = str ''%{status: Map.take(Tay.status(), [:state, :active_jobs, :running_executions, :unsettled_executions, :state_bytes, :history_bytes]), beam_memory_bytes: :erlang.memory(:total)}''"

definition ENVIRONMENT_EXPRESSION :: pystr where
  "ENVIRONMENT_EXPRESSION = str ''%{engine_version: to_string(Application.spec(:tay, :vsn)), elixir: System.version(), otp: System.otp_release(), architecture: to_string(:erlang.system_info(:system_architecture)), filesystem: String.trim(elem(System.cmd(\"stat\", [\"-f\", \"-c\", \"%T\", System.fetch_env!(\"TAY_DATA_DIR\")]), 0))}''"

definition soak_elapsed :: "(soak, pyval) script" where
  "soak_elapsed =
     script_bind monotonic (\<lambda>t. script_get (\<lambda>s. PFloat (float_sub t (k_started s))))"

text \<open>What one turn of the loop records after its batch.\<close>

definition sample :: "nat \<Rightarrow> pyval \<Rightarrow> (soak, unit) script" where
  "sample rl batch =
     script_bind (rpc rl STATUS_EXPRESSION) (\<lambda>status.
     script_bind (soak_command EngineStats) (\<lambda>out.
     script_bind (script_lift (json_loads plain_pairs plain_constant rl out)) (\<lambda>stats.
     script_bind (soak_command DiskUsage) (\<lambda>out.
     script_bind (script_lift (data_bytes out)) (\<lambda>used.
     script_bind (script_get (\<lambda>s. a_max_disk_mib (k_args s) * 1024 * 1024)) (\<lambda>limit.
     if limit < used then script_raise RuntimeError
     else
       script_bind soak_elapsed (\<lambda>e.
       script_bind (set_report (\<lambda>r. r\<lparr>s_elapsed := e\<rparr>)) (\<lambda>_.
       script_bind (script_get (\<lambda>s. s_cycles (k_report s))) (\<lambda>cycles.
       script_bind (soak_event ''sample''
         [(skey ''cycle'', PInt cycles), (skey ''batch'', batch), (skey ''engine'', status), (skey ''container'', stats),
          (skey ''data_bytes'', PInt used)]) (\<lambda>_.
       save))))))))))"

text \<open>\<^verbatim>\<open>min(interval, seconds - elapsed)\<close>.\<close>

definition pause :: "pyfloat \<Rightarrow> int \<Rightarrow> pyval \<Rightarrow> pyval res" where
  "pause interval seconds e =
     rbind (num_sub (PInt seconds) e) (\<lambda>rest. Inr (if num_less rest (PFloat interval) then rest else PFloat interval))"

definition count_batch :: "pyval \<Rightarrow> (soak, unit) script" where
  "count_batch batch =
     script_bind (set_report (\<lambda>r. r\<lparr>s_cycles := s_cycles r + 1\<rparr>)) (\<lambda>_.
     script_bind (script_get (\<lambda>s. s_jobs (k_report s))) (\<lambda>jobs.
     script_bind (script_lift (rbind (batch_jobs batch) (num_add jobs))) (\<lambda>total.
     set_report (\<lambda>r. r\<lparr>s_jobs := total\<rparr>))))"

definition turn_over :: "soak \<Rightarrow> bool" where
  "turn_over s = num_le (PInt (a_seconds (k_args s))) (s_elapsed (k_report s))"

definition maintenance_due :: "soak \<Rightarrow> bool res" where
  "maintenance_due s =
     (let every = a_maintenance_every (k_args s) in
      if every = 0 then Inl ZeroDivisionError else Inr (s_cycles (k_report s) mod every = 0))"

fun soak_loop :: "nat \<Rightarrow> nat \<Rightarrow> (soak, pyval) script" where
  "soak_loop 0 rl = (\<lambda>s. (Unfinished, s))"
| "soak_loop (Suc fuel) rl =
     script_bind (produce rl ''batch'' PNone) (\<lambda>batch.
     script_bind (count_batch batch) (\<lambda>_.
     script_bind (script_get maintenance_due) (\<lambda>answer.
     script_bind (script_lift answer) (\<lambda>due.
     script_bind (if due then maintain fuel rl batch else script_return ()) (\<lambda>_.
     script_bind (sample rl batch) (\<lambda>_.
     script_bind (script_get turn_over) (\<lambda>over.
     if over then script_return batch
     else
       script_bind (script_get (\<lambda>s. pause (a_interval (k_args s)) (a_seconds (k_args s)) (s_elapsed (k_report s)))) (\<lambda>p.
       script_bind (script_lift p) (\<lambda>v.
       script_bind (sleep v) (\<lambda>_. soak_loop fuel rl))))))))))"

subsection \<open>\<^verbatim>\<open>run\<close>\<close>

text \<open>The images are replaced by their ids.\<close>

definition pin_images :: "(soak, unit) script" where
  "pin_images =
     script_bind (soak_command GitDiff) (\<lambda>_.
     script_bind (soak_command GitRevision) (\<lambda>_.
     script_bind (soak_command GitStatus) (\<lambda>_.
     script_bind (script_get (\<lambda>s. ImageId (a_image (k_args s)))) (\<lambda>c.
     script_bind (soak_command c) (\<lambda>img.
     script_bind (script_get (\<lambda>s. ImageId (a_worker_image (k_args s)))) (\<lambda>c.
     script_bind (soak_command c) (\<lambda>worker_img.
     script_modify (\<lambda>s. s\<lparr>k_args := (k_args s)\<lparr>a_image := img, a_worker_image := worker_img\<rparr>\<rparr>))))))))"

definition set_up :: "nat \<Rightarrow> nat \<Rightarrow> (soak, unit) script" where
  "set_up fuel rl =
     script_bind pin_images (\<lambda>_.
     script_bind (script_get (\<lambda>s. [data_volume (k_names s), socket_volume (k_names s)])) (\<lambda>volumes.
     script_bind (script_each (\<lambda>v. script_bind (soak_command (CreateVolume v)) (\<lambda>_. script_return ())) volumes) (\<lambda>_.
     script_bind (start_engine fuel) (\<lambda>_.
     script_bind (rpc rl ENVIRONMENT_EXPRESSION) (\<lambda>_.
     script_bind start_workers (\<lambda>_.
     script_bind (produce rl ''register'' PNone) (\<lambda>_.
     script_return ())))))))"

definition soak_body :: "nat \<Rightarrow> nat \<Rightarrow> (soak, unit) script" where
  "soak_body fuel rl =
     script_bind (set_up fuel rl) (\<lambda>_.
     script_bind (set_report (\<lambda>r. r\<lparr>s_status := ''running''\<rparr>)) (\<lambda>_.
     script_bind monotonic (\<lambda>t.
     script_bind (script_modify (\<lambda>s. s\<lparr>k_started := t\<rparr>)) (\<lambda>_.
     script_bind (soak_loop fuel rl) (\<lambda>batch.
     script_bind (script_get (\<lambda>s. s_maintenance (k_report s) = 0)) (\<lambda>none.
     script_bind (if none then maintain fuel rl batch else script_return ()) (\<lambda>_.
     set_report (\<lambda>r. r\<lparr>s_status := ''passed''\<rparr>))))))))"

definition clean_up :: "(soak, unit) script" where
  "clean_up =
     script_bind soak_elapsed (\<lambda>e.
     script_bind (set_report (\<lambda>r. r\<lparr>s_elapsed := e\<rparr>)) (\<lambda>_.
     script_bind (script_get (\<lambda>s. worker_names (k_names s) @ [server_name (k_names s)])) (\<lambda>names.
     script_bind (script_each (\<lambda>name.
       script_bind (run_unchecked (StopContainer ''10'' name)) (\<lambda>_. archive_logs name)) names) (\<lambda>_.
     save))))"

definition soak_failed :: "exn \<Rightarrow> soak \<Rightarrow> soak" where
  "soak_failed e s =
     s\<lparr>k_report := (k_report s)\<lparr>s_status := (if e = KeyboardInterrupt then ''interrupted'' else ''failed''), s_error := Some e\<rparr>\<rparr>"

definition soak_run :: "nat \<Rightarrow> nat \<Rightarrow> (soak, unit) script" where
  "soak_run fuel rl =
     script_bind monotonic (\<lambda>t.
     script_bind (script_modify (\<lambda>s. s\<lparr>k_started := t\<rparr>)) (\<lambda>_ s.
     case soak_body fuel rl s of
       (Done _, s) \<Rightarrow> clean_up s
     | (Raised e, s) \<Rightarrow> script_bind clean_up (\<lambda>_. script_raise e) (soak_failed e s)
     | (Unfinished, s) \<Rightarrow> (Unfinished, s)))"

text \<open>\<^verbatim>\<open>main\<close> for the controller, after the arguments are parsed: \<open>None\<close> is the usage error of
  \<^verbatim>\<open>parser.error\<close>. Resolving and creating the output directory is the environment's: \<open>names\<close> is the
  error or the names that follow from it.\<close>

definition soak_arguments_ok :: "soak_args \<Rightarrow> bool" where
  "soak_arguments_ok a \<longleftrightarrow>
     1 \<le> a_seconds a \<and> a_seconds a \<le> 259200 \<and> num_less (PInt 0) (PFloat (a_interval a))
     \<and> 0 < a_maintenance_every a \<and> 0 < a_max_disk_mib a"

definition soak_main ::
  "nat \<Rightarrow> nat \<Rightarrow> pystr option \<Rightarrow> soak_args \<Rightarrow> soak_names res \<Rightarrow> (nat \<Rightarrow> docker_command \<Rightarrow> process) \<Rightarrow> (nat \<Rightarrow> pyfloat)
   \<Rightarrow> (exn + unit outcome \<times> soak) option" where
  "soak_main fuel rl output a names process clock =
     (if output = None \<or> take 1 (the output) \<noteq> [47] then None
      else if \<not> soak_arguments_ok a then None
      else Some (rbind names (\<lambda>n. Inr (soak_run fuel rl (soak_init a n process clock)))))"

end
