(* ===== verification/SoakProps.thy ===== *)
theory SoakProps
  imports Soak
begin

section \<open>What a soak test does and certifies\<close>

text \<open>
  The life cycle of the engine during a soak test as an abstract specification, and that every
  run of the controller, finished or not, keeps to it; and what a run that passes has established.
\<close>

subsection \<open>The life cycle of the engine\<close>

text \<open>There is at most one engine container, it always runs on the current store; the store is copied
  only while there is none, to paths that were never used before, and the restored copy is the
  current store from then on. Everything that talks to the engine does so while there is one.\<close>

record lifecycle =
  l_store :: pystr
  l_used :: "pystr list"
  l_up :: bool

definition initial_lifecycle :: lifecycle where
  "initial_lifecycle = \<lparr>l_store = str ''/var/lib/tay/store'', l_used = [str ''/var/lib/tay/store''], l_up = False\<rparr>"

definition lifecycle_step :: "soak_names \<Rightarrow> lifecycle \<Rightarrow> docker_command \<Rightarrow> lifecycle option" where
  "lifecycle_step n q c =
     (case c of
        RunEngine _ store \<Rightarrow> if \<not> l_up q \<and> store = l_store q then Some (q\<lparr>l_up := True\<rparr>) else None
      | RemoveContainer name \<Rightarrow> Some (if name = server_name n then q\<lparr>l_up := False\<rparr> else q)
      | ColdCopy _ source backup restored \<Rightarrow>
          if \<not> l_up q \<and> source = l_store q \<and> backup \<noteq> restored \<and> {backup, restored} \<inter> set (l_used q) = {}
          then Some (q\<lparr>l_store := restored, l_used := [backup, restored] @ l_used q\<rparr>) else None
      | StopContainer _ _ \<Rightarrow> Some q
      | ContainerLogs _ \<Rightarrow> Some q
      | GitDiff \<Rightarrow> Some q
      | GitRevision \<Rightarrow> Some q
      | GitStatus \<Rightarrow> Some q
      | ImageId _ \<Rightarrow> Some q
      | CreateVolume _ \<Rightarrow> Some q
      | _ \<Rightarrow> if l_up q then Some q else None)"

subsection \<open>Paths\<close>

lemma int_text_inject: "0 \<le> i \<Longrightarrow> 0 \<le> j \<Longrightarrow> int_text i = int_text j \<Longrightarrow> i = j"
proof -
  assume ij: "0 \<le> i" "0 \<le> j" "int_text i = int_text j"
  have "inj ((+) (48::nat))" by (rule injI) simp
  then have "dec_digits (nat i) = dec_digits (nat j)"
    using ij by (auto simp: int_text_def digit_text_def inj_map_eq_map)
  then have "nat i = nat j" by (metis dec_value_dec_digits)
  then show "i = j" using ij by simp
qed

definition used_paths :: "int \<Rightarrow> pystr set" where
  "used_paths m = insert (str ''/var/lib/tay/store'') (\<Union>i\<in>{1..m}. {backup_path i, restored_path i})"

lemma used_paths_mono: "used_paths m \<subseteq> used_paths (m + 1)"
  unfolding used_paths_def by (intro insert_mono UN_mono) auto

lemma new_paths:
  assumes "0 \<le> m"
  shows "backup_path (m + 1) \<noteq> restored_path (m + 1)" "backup_path (m + 1) \<notin> used_paths m" "restored_path (m + 1) \<notin> used_paths m"
    "{backup_path (m + 1), restored_path (m + 1)} \<subseteq> used_paths (m + 1)"
proof -
  have "backup_path i \<noteq> restored_path j" "backup_path i \<noteq> str ''/var/lib/tay/store''" "restored_path i \<noteq> str ''/var/lib/tay/store''" for i j
    by (simp_all add: backup_path_def restored_path_def str_Cons)
  moreover have "backup_path i \<noteq> backup_path (m + 1)" "restored_path i \<noteq> restored_path (m + 1)" if "i \<in> {1..m}" for i
    using that assms int_text_inject [of i "m + 1"] by (auto simp: backup_path_def restored_path_def)
  ultimately show "backup_path (m + 1) \<noteq> restored_path (m + 1)" "backup_path (m + 1) \<notin> used_paths m" "restored_path (m + 1) \<notin> used_paths m"
    unfolding used_paths_def by (blast | metis (no_types, lifting) UN_E insertE singletonD)+
  show "{backup_path (m + 1), restored_path (m + 1)} \<subseteq> used_paths (m + 1)" using assms by (auto simp: used_paths_def)
qed

subsection \<open>The controller keeps to the life cycle\<close>

text \<open>The log is accepted, whether the engine is up, the store is the current one, the paths used are
  those of the first \<open>m\<close> maintenances, and the report counts \<open>j\<close> of them.\<close>

definition in_cycle :: "soak_names \<Rightarrow> bool \<Rightarrow> int \<Rightarrow> int \<Rightarrow> soak \<Rightarrow> bool" where
  "in_cycle n up m j s \<longleftrightarrow> k_names s = n \<and> s_maintenance (k_report s) = j \<and> 0 \<le> j \<and>
     (\<exists>q. accepts (lifecycle_step n) initial_lifecycle (k_log s) = Some q \<and> l_up q = up \<and> l_store q = k_store s
        \<and> set (l_used q) \<subseteq> used_paths m)"

definition accepted :: "soak_names \<Rightarrow> soak \<Rightarrow> bool" where
  "accepted n s \<longleftrightarrow> k_names s = n \<and> accepts (lifecycle_step n) initial_lifecycle (k_log s) \<noteq> None"

lemma in_cycle_accepted: "in_cycle n up m j s \<Longrightarrow> accepted n s"
  by (auto simp: in_cycle_def accepted_def)

abbreviation cycle_ok :: "soak_names \<Rightarrow> (soak \<Rightarrow> bool) \<Rightarrow> (soak, 'a) script \<Rightarrow> ('a \<Rightarrow> soak \<Rightarrow> bool) \<Rightarrow> bool" where
  "cycle_ok n P m Q \<equiv> script_ok P m Q (accepted n)"

text \<open>Commands of the specification's quiet kind change nothing.\<close>

definition quiet :: "soak_names \<Rightarrow> bool \<Rightarrow> docker_command \<Rightarrow> bool" where
  "quiet n up c \<longleftrightarrow> (\<forall>q. l_up q = up \<longrightarrow> lifecycle_step n q c = Some q)"

lemma run_unchecked_state:
  "run_unchecked c s = (r, t) \<Longrightarrow> t = s\<lparr>k_log := k_log s @ [c], k_process := k_process s \<circ> Suc\<rparr>"
  by (auto simp: run_unchecked_def Let_def split: process.splits)

lemma run_unchecked_ok:
  assumes "\<And>s. P s \<Longrightarrow> Q (s\<lparr>k_log := k_log s @ [c], k_process := k_process s \<circ> Suc\<rparr>)"
    and "\<And>s. P s \<Longrightarrow> R (s\<lparr>k_log := k_log s @ [c], k_process := k_process s \<circ> Suc\<rparr>)"
  shows "script_ok P (run_unchecked c) (\<lambda>_. Q) R"
  by (rule script_okI; drule run_unchecked_state; simp add: assms)

lemma soak_command_ok:
  assumes "\<And>s. P s \<Longrightarrow> Q (s\<lparr>k_log := k_log s @ [c], k_process := k_process s \<circ> Suc\<rparr>)"
    and "\<And>s. P s \<Longrightarrow> R (s\<lparr>k_log := k_log s @ [c], k_process := k_process s \<circ> Suc\<rparr>)" and "\<And>s. Q s \<Longrightarrow> R s"
  shows "script_ok P (soak_command c) (\<lambda>_. Q) R"
  unfolding soak_command_def
  by (rule script_ok_bind, rule run_unchecked_ok [where Q = Q])
    (auto simp: assms split: prod.split intro!: script_ok_raise script_ok_return)

lemma in_cycle_quiet:
  "quiet n up c \<Longrightarrow> in_cycle n up m j s \<Longrightarrow> in_cycle n up m j (s\<lparr>k_log := k_log s @ [c], k_process := p\<rparr>)"
  by (auto simp: in_cycle_def quiet_def accepts_append)

lemma quiet_unchecked: "quiet n up c \<Longrightarrow> cycle_ok n (in_cycle n up m j) (run_unchecked c) (\<lambda>_. in_cycle n up m j)"
  using in_cycle_accepted by (intro run_unchecked_ok) (blast intro: in_cycle_quiet)+

lemma quiet_command: "quiet n up c \<Longrightarrow> cycle_ok n (in_cycle n up m j) (soak_command c) (\<lambda>_. in_cycle n up m j)"
  using in_cycle_accepted by (intro soak_command_ok) (blast intro: in_cycle_quiet)+

lemma quiet_simps [simp]:
  "quiet n True EngineHealth" "quiet n True (RunWorker t i)" "quiet n True (RunProducer a st i)" "quiet n True (Rpc e)"
  "quiet n True KillEngine" "quiet n True EngineStats" "quiet n True DiskUsage" "quiet n up (StopContainer t name)"
  "quiet n up (ContainerLogs name)" "quiet n up GitDiff" "quiet n up GitRevision" "quiet n up GitStatus" "quiet n up (ImageId i)"
  "quiet n up (CreateVolume v)" "name \<noteq> server_name n \<Longrightarrow> quiet n up (RemoveContainer name)"
  by (simp_all add: quiet_def lifecycle_step_def)

lemma in_cycle_same:
  "in_cycle n up m j s \<Longrightarrow> k_names t = k_names s \<Longrightarrow> k_log t = k_log s \<Longrightarrow> k_store t = k_store s
   \<Longrightarrow> s_maintenance (k_report t) = s_maintenance (k_report s) \<Longrightarrow> in_cycle n up m j t"
  by (simp add: in_cycle_def)

lemma get_known: "script_ok P (script_get f) (\<lambda>x s. P s \<and> x = f s) R"
  by (simp add: script_ok_def script_get_def)

lemma cycle_modify:
  "(\<And>s. k_names (f s) = k_names s \<and> k_log (f s) = k_log s \<and> k_store (f s) = k_store s \<and> s_maintenance (k_report (f s)) = s_maintenance (k_report s))
   \<Longrightarrow> cycle_ok n (in_cycle n up m j) (script_modify f) (\<lambda>_. in_cycle n up m j)"
  by (rule script_ok_modify) (erule in_cycle_same, simp_all)

lemma cycle_lift: "cycle_ok n (in_cycle n up m j) (script_lift r) (\<lambda>_. in_cycle n up m j)"
  by (rule script_ok_lift) (simp_all add: in_cycle_accepted)

lemma cycle_raise: "cycle_ok n (in_cycle n up m j) (script_raise e) Q"
  by (rule script_ok_raise) (simp add: in_cycle_accepted)

lemma cycle_return: "cycle_ok n (in_cycle n up m j) (script_return x) (\<lambda>_. in_cycle n up m j)"
  by (rule script_ok_return)

lemma cycle_get: "cycle_ok n (in_cycle n up m j) (script_get f) (\<lambda>_. in_cycle n up m j)"
  by (rule script_ok_get)

lemma cycle_monotonic: "cycle_ok n (in_cycle n up m j) monotonic (\<lambda>_. in_cycle n up m j)"
  by (simp add: script_ok_def monotonic_def in_cycle_def)

lemma cycle_sleep: "cycle_ok n (in_cycle n up m j) (sleep v) (\<lambda>_. in_cycle n up m j)"
  unfolding sleep_def by (intro script_ok_if cycle_modify cycle_raise) simp

lemma cycle_records:
  "cycle_ok n (in_cycle n up m j) save (\<lambda>_. in_cycle n up m j)"
  "cycle_ok n (in_cycle n up m j) (soak_event kind vs) (\<lambda>_. in_cycle n up m j)"
  "(\<And>r. s_maintenance (f r) = s_maintenance r) \<Longrightarrow> cycle_ok n (in_cycle n up m j) (set_report f) (\<lambda>_. in_cycle n up m j)"
  unfolding save_def soak_event_def set_report_def by (rule cycle_modify; simp)+

lemmas cycle_bind = script_ok_bind [where Q = "\<lambda>_. in_cycle n up m j" and R = "accepted n" for n up m j]

lemmas cycle_intros = cycle_bind script_ok_if script_ok_each quiet_command quiet_unchecked cycle_lift cycle_raise cycle_return cycle_get
  cycle_monotonic cycle_sleep cycle_records cycle_modify

lemma cycle_wait: "cycle_ok n (in_cycle n True m j) (wait_healthy fuel deadline) (\<lambda>_. in_cycle n True m j)"
proof (induction fuel)
  case 0
  show ?case by (simp add: script_ok_def in_cycle_accepted)
qed (auto intro!: cycle_intros)

lemma cycle_start_engine: "cycle_ok n (in_cycle n False m j) (start_engine fuel) (\<lambda>_. in_cycle n True m j)"
proof -
  have run: "cycle_ok n (\<lambda>s. in_cycle n False m j s \<and> c = RunEngine (a_image (k_args s)) (k_store s)) (soak_command c) (\<lambda>_. in_cycle n True m j)" for c
    using in_cycle_accepted
    by (intro soak_command_ok) (fastforce simp: in_cycle_def accepted_def accepts_append lifecycle_step_def)+
  show ?thesis
    unfolding start_engine_def
    by (rule script_ok_bind, rule get_known, rule script_ok_bind, rule run, rule script_ok_bind, rule cycle_monotonic, rule cycle_wait)
qed

text \<open>A command made from the state.\<close>

lemma cycle_command_of:
  assumes "\<And>s. quiet n up (f s)" and "\<And>out. cycle_ok n (in_cycle n up m j) (k out) Q"
  shows "cycle_ok n (in_cycle n up m j) (script_bind (script_get f) (\<lambda>c. script_bind (soak_command c) k)) Q"
proof (rule script_ok_bind)
  show "cycle_ok n (in_cycle n up m j) (script_get f) (\<lambda>c s. in_cycle n up m j s \<and> quiet n up c)"
    by (rule script_ok_get) (simp add: assms(1))
  have "cycle_ok n (\<lambda>s. in_cycle n up m j s \<and> quiet n up c) (soak_command c) (\<lambda>_. in_cycle n up m j)" for c
    by (rule script_ok_fact) (rule quiet_command)
  then show "cycle_ok n (\<lambda>s. in_cycle n up m j s \<and> quiet n up c) (script_bind (soak_command c) k) Q" for c
    by (rule script_ok_bind) (rule assms(2))
qed

lemma cycle_start_workers: "cycle_ok n (in_cycle n True m j) start_workers (\<lambda>_. in_cycle n True m j)"
  unfolding start_workers_def by (intro script_ok_each cycle_command_of cycle_return) simp

lemma cycle_produce: "cycle_ok n (in_cycle n True m j) (produce rl action st) (\<lambda>_. in_cycle n True m j)"
  unfolding produce_def by (rule script_ok_bind [OF cycle_lift], rule cycle_command_of) (simp, rule cycle_lift)

lemma cycle_rpc: "cycle_ok n (in_cycle n True m j) (rpc rl e) (\<lambda>_. in_cycle n True m j)"
  unfolding rpc_def by (rule script_ok_bind [OF quiet_command cycle_lift]) simp

lemma cycle_archive: "cycle_ok n (in_cycle n up m j) (archive_logs name) (\<lambda>_. in_cycle n up m j)"
  unfolding archive_logs_def by (rule script_ok_bind [OF quiet_unchecked cycle_return]) simp

lemma worker_not_server: "name \<in> set (worker_names n) \<Longrightarrow> name \<noteq> server_name n"
  by (auto simp: worker_names_def server_name_def str_Cons)

lemma cycle_remove_worker:
  "name \<noteq> server_name n \<Longrightarrow> cycle_ok n (in_cycle n up m j) (remove_container name) (\<lambda>_. in_cycle n up m j)"
  unfolding remove_container_def by (rule script_ok_bind [OF quiet_command cycle_return]) simp

lemma cycle_remove_workers: "cycle_ok n (in_cycle n up m j) remove_workers (\<lambda>_. in_cycle n up m j)"
proof -
  let ?one = "\<lambda>name. script_bind (soak_command (StopContainer ''10'' name)) (\<lambda>_. script_bind (archive_logs name) (\<lambda>_. remove_container name))"
  have one: "cycle_ok n (in_cycle n up m j) (?one name) (\<lambda>_. in_cycle n up m j)" if "name \<noteq> server_name n" for name
    by (rule script_ok_bind, rule quiet_command, simp, rule script_ok_bind, rule cycle_archive, rule cycle_remove_worker, rule that)
  have "cycle_ok n (in_cycle n up m j) (script_get (\<lambda>s. worker_names (k_names s))) (\<lambda>names s. in_cycle n up m j s \<and> (\<forall>x\<in>set names. x \<noteq> server_name n))"
    using worker_not_server by (intro script_ok_get) (auto simp: in_cycle_def)
  then show ?thesis
    unfolding remove_workers_def
  proof (rule script_ok_bind)
    show "cycle_ok n (\<lambda>s. in_cycle n up m j s \<and> (\<forall>x\<in>set names. x \<noteq> server_name n)) (script_each ?one names) (\<lambda>_. in_cycle n up m j)" for names
      by (rule script_ok_fact, rule script_ok_each, rule one) blast
  qed
qed

lemma in_cycle_down: "in_cycle n up m j s \<Longrightarrow> in_cycle n False m j (s\<lparr>k_log := k_log s @ [RemoveContainer (server_name n)], k_process := p\<rparr>)"
  by (auto simp: in_cycle_def accepts_append lifecycle_step_def)

lemma cycle_retire: "cycle_ok n (in_cycle n True m j) (retire_engine crash) (\<lambda>_. in_cycle n False m j)"
proof -
  have rm: "cycle_ok n (in_cycle n True m j) (remove_container (server_name n)) (\<lambda>_. in_cycle n False m j)"
    unfolding remove_container_def
    by (rule script_ok_bind, rule soak_command_ok [where Q = "in_cycle n False m j"])
      (auto intro: in_cycle_down in_cycle_accepted cycle_return)
  have q: "quiet n True (if crash then KillEngine else StopContainer ''30'' server)" for server by simp
  have "cycle_ok n (in_cycle n True m j) (script_get (\<lambda>s. server_name (k_names s))) (\<lambda>x s. in_cycle n True m j s \<and> x = server_name n)"
    by (rule script_ok_get) (auto simp: in_cycle_def)
  then show ?thesis
    unfolding retire_engine_def
  proof (rule script_ok_bind)
    fix server
    let ?rest = "script_bind (soak_command (if crash then KillEngine else StopContainer ''30'' server)) (\<lambda>_.
      script_bind remove_workers (\<lambda>_. script_bind (archive_logs server) (\<lambda>_. remove_container server)))"
    have "server = server_name n \<Longrightarrow> cycle_ok n (in_cycle n True m j) ?rest (\<lambda>_. in_cycle n False m j)"
      by (rule script_ok_bind, rule quiet_command, rule q, rule script_ok_bind, rule cycle_remove_workers, rule script_ok_bind, rule cycle_archive)
        (simp add: rm)
    then show "cycle_ok n (\<lambda>s. in_cycle n True m j s \<and> server = server_name n) ?rest (\<lambda>_. in_cycle n False m j)"
      by (rule script_ok_fact)
  qed
qed

text \<open>After the copy the life cycle has a new store, which the controller adopts.\<close>

definition copied :: "soak_names \<Rightarrow> int \<Rightarrow> soak \<Rightarrow> bool" where
  "copied n m s \<longleftrightarrow> in_cycle n False (m + 1) m (s\<lparr>k_store := restored_path (m + 1)\<rparr>)"

lemma in_cycle_copied:
  assumes "in_cycle n False m m s" and "c = ColdCopy i (k_store s) (backup_path (m + 1)) (restored_path (m + 1))"
  shows "copied n m (s\<lparr>k_log := k_log s @ [c], k_process := p\<rparr>)"
proof -
  from assms(1) obtain q where q: "accepts (lifecycle_step n) initial_lifecycle (k_log s) = Some q" "\<not> l_up q" "l_store q = k_store s"
      "set (l_used q) \<subseteq> used_paths m" "k_names s = n" "s_maintenance (k_report s) = m" "0 \<le> m"
    by (auto simp: in_cycle_def)
  then have "lifecycle_step n q c = Some (q\<lparr>l_store := restored_path (m + 1), l_used := [backup_path (m + 1), restored_path (m + 1)] @ l_used q\<rparr>)"
    using new_paths [OF q(7)] by (auto simp: lifecycle_step_def assms(2))
  then show ?thesis
    using q new_paths(4) [OF q(7)] used_paths_mono [of m] by (auto simp: copied_def in_cycle_def accepts_append)
qed

lemma copied_accepted: "copied n m s \<Longrightarrow> accepted n s"
  by (auto simp: copied_def in_cycle_def accepted_def)

lemma cycle_replace: "cycle_ok n (in_cycle n False m m) (replace_store rl (m + 1)) (\<lambda>_. in_cycle n False (m + 1) m)"
proof -
  let ?c = "\<lambda>s. ColdCopy (a_image (k_args s)) (k_store s) (backup_path (m + 1)) (restored_path (m + 1))"
  have cmd: "cycle_ok n (\<lambda>s. in_cycle n False m m s \<and> c = ?c s) (soak_command c) (\<lambda>_. copied n m)" for c
    by (rule soak_command_ok) (auto intro: in_cycle_copied copied_accepted)
  have lift: "cycle_ok n (copied n m) (script_lift r) (\<lambda>_. copied n m)" for r :: "pyval res"
    by (rule script_ok_lift) (simp_all add: copied_accepted)
  have store: "cycle_ok n (copied n m) (script_modify (\<lambda>s. s\<lparr>k_store := restored_path (m + 1)\<rparr>)) (\<lambda>_. in_cycle n False (m + 1) m)"
    by (rule script_ok_modify) (simp add: copied_def)
  show ?thesis
    unfolding replace_store_def
    by (rule script_ok_bind, rule get_known, rule script_ok_bind, rule cmd, rule script_ok_bind, rule lift, rule script_ok_bind, rule store, rule cycle_return)
qed

lemma cycle_maintain: "cycle_ok n (in_cycle n True m m) (maintain fuel rl batch) (\<lambda>_ s. in_cycle n True (m + 1) (m + 1) s)"
proof -
  have number: "cycle_ok n (in_cycle n True m m) (script_get (\<lambda>s. s_maintenance (k_report s) + 1)) (\<lambda>k s. in_cycle n True m m s \<and> k = m + 1)"
    by (rule script_ok_get) (simp add: in_cycle_def)
  have count: "cycle_ok n (in_cycle n True (m + 1) m) (set_report (\<lambda>r. r\<lparr>s_maintenance := m + 1\<rparr>)) (\<lambda>_. in_cycle n True (m + 1) (m + 1))"
    unfolding set_report_def by (rule script_ok_modify) (auto simp: in_cycle_def)
  let ?rest = "\<lambda>probes number. script_bind (retire_engine (number mod 2 = 1)) (\<lambda>_.
     script_bind (replace_store rl number) (\<lambda>evidence.
     script_bind (start_engine fuel) (\<lambda>_.
     script_bind start_workers (\<lambda>_.
     script_bind (produce rl ''verify'' probes) (\<lambda>recovered.
     script_bind (rpc rl COMPACT_EXPRESSION) (\<lambda>compacted.
     script_bind (set_report (\<lambda>r. r\<lparr>s_maintenance := number\<rparr>)) (\<lambda>_.
     soak_event ''maintenance''
       [(skey ''number'', PInt number), (skey ''crash'', PBool (number mod 2 = 1)), (skey ''copies'', evidence),
        (skey ''recovered'', recovered), (skey ''compaction'', compacted)])))))))"
  have rest: "cycle_ok n (in_cycle n True m m) (?rest probes (m + 1)) (\<lambda>_. in_cycle n True (m + 1) (m + 1))" for probes
    by (rule script_ok_bind, rule cycle_retire, rule script_ok_bind, rule cycle_replace, rule script_ok_bind, rule cycle_start_engine,
        rule script_ok_bind, rule cycle_start_workers, rule script_ok_bind, rule cycle_produce, rule script_ok_bind, rule cycle_rpc,
        rule script_ok_bind, rule count, rule cycle_records)
  have rest': "cycle_ok n (\<lambda>s. in_cycle n True m m s \<and> k = m + 1) (?rest probes k) (\<lambda>_. in_cycle n True (m + 1) (m + 1))" for probes k
    by (rule script_ok_fact) (simp only: rest)
  show ?thesis
    unfolding maintain_def
    by (rule script_ok_bind, rule cycle_produce, rule script_ok_bind, rule cycle_lift, rule script_ok_bind, rule number, rule rest')
qed

text \<open>Between two turns of the loop.\<close>

definition turning :: "soak_names \<Rightarrow> soak \<Rightarrow> bool" where
  "turning n s \<longleftrightarrow> (\<exists>m. in_cycle n True m m s)"

lemma turning_ok: "(\<And>m. cycle_ok n (in_cycle n True m m) f (\<lambda>_. in_cycle n True m m)) \<Longrightarrow> cycle_ok n (turning n) f (\<lambda>_. turning n)"
  unfolding turning_def by (rule script_ok_ex) (rule script_ok_weaken, assumption, auto)

lemma turning_maintain: "cycle_ok n (turning n) (maintain fuel rl batch) (\<lambda>_. turning n)"
  unfolding turning_def by (rule script_ok_ex) (rule script_ok_weaken [OF cycle_maintain], auto)

lemma turning_skip: "cycle_ok n (turning n) (script_return x) (\<lambda>_. turning n)"
  by (rule script_ok_return)

lemma cycle_count: "cycle_ok n (in_cycle n up m j) (count_batch batch) (\<lambda>_. in_cycle n up m j)"
  unfolding count_batch_def
  by (rule script_ok_bind, rule cycle_records, simp, rule script_ok_bind, rule cycle_get, rule script_ok_bind, rule cycle_lift, rule cycle_records) simp

lemma cycle_elapsed: "cycle_ok n (in_cycle n up m j) soak_elapsed (\<lambda>_. in_cycle n up m j)"
  unfolding soak_elapsed_def by (rule script_ok_bind, rule cycle_monotonic, rule cycle_get)

lemma cycle_sample: "cycle_ok n (in_cycle n True m j) (sample rl batch) (\<lambda>_. in_cycle n True m j)"
  unfolding sample_def
  by (rule script_ok_bind, rule cycle_rpc, rule script_ok_bind, rule quiet_command, simp, rule script_ok_bind, rule cycle_lift,
      rule script_ok_bind, rule quiet_command, simp, rule script_ok_bind, rule cycle_lift, rule script_ok_bind, rule cycle_get,
      rule script_ok_if, rule cycle_raise, rule script_ok_bind, rule cycle_elapsed, rule script_ok_bind, rule cycle_records, simp,
      rule script_ok_bind, rule cycle_get, rule script_ok_bind, rule cycle_records, rule cycle_records)

lemma turning_loop: "cycle_ok n (turning n) (soak_loop fuel rl) (\<lambda>_. turning n)"
proof (induction fuel)
  case 0
  show ?case by (auto simp: script_ok_def turning_def in_cycle_accepted)
next
  case (Suc fuel)
  show ?case
    unfolding soak_loop.simps
    by (rule script_ok_bind, rule turning_ok [OF cycle_produce], rule script_ok_bind, rule turning_ok [OF cycle_count],
        rule script_ok_bind, rule turning_ok [OF cycle_get], rule script_ok_bind, rule turning_ok [OF cycle_lift],
        rule script_ok_bind, rule script_ok_if, rule turning_maintain, rule turning_skip, rule script_ok_bind, rule turning_ok [OF cycle_sample], rule script_ok_bind, rule turning_ok [OF cycle_get], rule script_ok_if,
        rule turning_skip, rule script_ok_bind, rule turning_ok [OF cycle_get], rule script_ok_bind, rule turning_ok [OF cycle_lift],
        rule script_ok_bind, rule turning_ok [OF cycle_sleep], rule Suc.IH)
qed

lemma cycle_pin: "cycle_ok n (in_cycle n up m j) pin_images (\<lambda>_. in_cycle n up m j)"
proof -
  have pin: "cycle_ok n (in_cycle n up m j) (script_modify (\<lambda>s. s\<lparr>k_args := (k_args s)\<lparr>a_image := i, a_worker_image := w\<rparr>\<rparr>)) (\<lambda>_. in_cycle n up m j)" for i w
    by (rule cycle_modify) simp
  show ?thesis
    unfolding pin_images_def
    by (rule script_ok_bind, rule quiet_command, simp, rule script_ok_bind, rule quiet_command, simp, rule script_ok_bind, rule quiet_command, simp,
        rule cycle_command_of, simp, rule cycle_command_of, simp, rule pin)
qed

lemma cycle_set_up: "cycle_ok n (in_cycle n False m j) (set_up fuel rl) (\<lambda>_. in_cycle n True m j)"
proof -
  have volumes: "cycle_ok n (in_cycle n False m j) (script_each (\<lambda>v. script_bind (soak_command (CreateVolume v)) (\<lambda>_. script_return ())) vs) (\<lambda>_. in_cycle n False m j)" for vs
    by (rule script_ok_each, rule script_ok_bind, rule quiet_command, simp, rule cycle_return)
  show ?thesis
    unfolding set_up_def
    by (rule script_ok_bind, rule cycle_pin, rule script_ok_bind, rule cycle_get, rule script_ok_bind, rule volumes, rule script_ok_bind,
        rule cycle_start_engine, rule script_ok_bind, rule cycle_rpc, rule script_ok_bind, rule cycle_start_workers, rule script_ok_bind,
        rule cycle_produce, rule cycle_return)
qed

lemma cycle_body: "cycle_ok n (in_cycle n False 0 0) (soak_body fuel rl) (\<lambda>_. accepted n)"
proof -
  have set_up: "cycle_ok n (in_cycle n False 0 0) (set_up fuel rl) (\<lambda>_. turning n)"
    by (rule script_ok_weaken [OF cycle_set_up]) (auto simp: turning_def)
  have status: "cycle_ok n (turning n) (set_report (\<lambda>r. r\<lparr>s_status := x\<rparr>)) (\<lambda>_. turning n)" for x
    by (rule turning_ok) (simp add: cycle_records)
  have started: "cycle_ok n (turning n) (script_modify (\<lambda>s. s\<lparr>k_started := t\<rparr>)) (\<lambda>_. turning n)" for t
    by (rule turning_ok) (simp add: cycle_modify)
  have passed: "cycle_ok n (turning n) (set_report (\<lambda>r. r\<lparr>s_status := x\<rparr>)) (\<lambda>_. accepted n)" for x
    by (rule script_ok_weaken [OF status]) (auto simp: turning_def in_cycle_accepted)
  show ?thesis
    unfolding soak_body_def
    by (rule script_ok_bind, rule set_up, rule script_ok_bind, rule status, rule script_ok_bind, rule turning_ok [OF cycle_monotonic],
        rule script_ok_bind, rule started, rule script_ok_bind, rule turning_loop, rule script_ok_bind, rule turning_ok [OF cycle_get],
        rule script_ok_bind, rule script_ok_if, rule turning_maintain, rule turning_skip, rule passed)
qed

text \<open>Stopping containers is accepted at any time.\<close>

lemma clean_up_keeps: "script_keeps (accepted n) clean_up"
proof -
  have "accepted n (s\<lparr>k_log := k_log s @ [c], k_process := p\<rparr>)" if "accepted n s" "\<forall>q. lifecycle_step n q c = Some q" for s c p
    using that by (auto simp: accepted_def accepts_append)
  then have cmd: "script_keeps (accepted n) (run_unchecked c)" if "\<forall>q. lifecycle_step n q c = Some q" for c
    using that by (intro run_unchecked_ok) simp_all
  have stop: "script_keeps (accepted n) (run_unchecked (StopContainer t name))" "script_keeps (accepted n) (archive_logs name)" for t name
    unfolding archive_logs_def by (intro script_keeps_intros cmd; simp add: lifecycle_step_def)+
  have rest: "script_keeps (accepted n) soak_elapsed" "script_keeps (accepted n) (set_report f)" "script_keeps (accepted n) save" for f
    by (auto simp: script_ok_def soak_elapsed_def set_report_def save_def monotonic_def accepted_def script_defs)
  show ?thesis unfolding clean_up_def by (intro script_keeps_intros stop rest) auto
qed

definition soak_start :: "soak_args \<Rightarrow> soak_names \<Rightarrow> (nat \<Rightarrow> docker_command \<Rightarrow> process) \<Rightarrow> (nat \<Rightarrow> pyfloat) \<Rightarrow> soak" where
  "soak_start a n process clock = (soak_init a n process clock)\<lparr>k_clock := clock \<circ> Suc, k_started := clock 0\<rparr>"

lemma soak_run_start:
  "soak_run fuel rl (soak_init a n process clock) = (case soak_body fuel rl (soak_start a n process clock) of
       (Done _, s) \<Rightarrow> clean_up s | (Raised e, s) \<Rightarrow> script_bind clean_up (\<lambda>_. script_raise e) (soak_failed e s) | (Unfinished, s) \<Rightarrow> (Unfinished, s))"
  by (simp add: soak_run_def script_bind_def monotonic_def script_modify_def soak_start_def soak_init_def)

text \<open>C15: Whatever the commands answer and the clock shows, and however far the run gets: the commands it
  starts are a sequence the life cycle accepts.\<close>

theorem soak_lifecycle:
  "accepts (lifecycle_step n) initial_lifecycle (k_log (snd (soak_run fuel rl (soak_init a n process clock)))) \<noteq> None"
proof -
  let ?s = "soak_start a n process clock"
  have "in_cycle n False 0 0 ?s" by (simp add: soak_start_def in_cycle_def soak_init_def initial_lifecycle_def used_paths_def)
  then have body: "case soak_body fuel rl ?s of (Done x, t) \<Rightarrow> accepted n t | (_, t) \<Rightarrow> accepted n t"
    using cycle_body [of n fuel rl] by (simp add: script_ok_def)
  note clean = script_keepsD [OF clean_up_keeps]
  have failed: "accepted n (soak_failed e t)" if "accepted n t" for e t
    using that by (simp add: accepted_def soak_failed_def)
  have "snd (script_bind clean_up (\<lambda>_. script_raise e :: (soak, unit) script) t) = snd (clean_up t)" for e t
    by (simp add: script_bind_def script_raise_def split: prod.split outcome.split)
  then have "accepted n (snd (soak_run fuel rl (soak_init a n process clock)))"
    unfolding soak_run_start using body by (auto simp: clean failed split: prod.splits outcome.splits)
  then show ?thesis by (simp add: accepted_def)
qed

subsection \<open>What a run that passes has done\<close>

definition is_copy :: "docker_command \<Rightarrow> bool" where
  "is_copy c = (case c of ColdCopy _ _ _ _ \<Rightarrow> True | _ \<Rightarrow> False)"

text \<open>The books: what the verdict rests on.\<close>

record ledger =
  g_events :: "(string \<times> pydict) list"
  g_saved :: "soak_report list"
  g_maintained :: int
  g_copies :: nat
  g_seconds :: int
  g_budget :: int

definition ledger_of :: "soak \<Rightarrow> ledger" where
  "ledger_of s =
     \<lparr>g_events = k_events s, g_saved = k_saved s, g_maintained = s_maintenance (k_report s),
      g_copies = length (filter is_copy (k_log s)), g_seconds = a_seconds (k_args s), g_budget = a_max_disk_mib (k_args s) * 1024 * 1024\<rparr>"

abbreviation on_return :: "(soak \<Rightarrow> bool) \<Rightarrow> (soak, 'a) script \<Rightarrow> ('a \<Rightarrow> soak \<Rightarrow> bool) \<Rightarrow> bool" where
  "on_return P m Q \<equiv> script_ok P m Q (\<lambda>_. True)"

text \<open>Scripts that, when they return, have left the books as they were.\<close>

definition idle :: "(soak, 'a) script \<Rightarrow> bool" where
  "idle m \<longleftrightarrow> (\<forall>g. on_return (\<lambda>s. ledger_of s = g) m (\<lambda>_ s. ledger_of s = g))"

lemma idle_on: "idle m \<Longrightarrow> on_return (\<lambda>s. P (ledger_of s)) m (\<lambda>_ s. P (ledger_of s))"
  unfolding idle_def script_ok_def by (fastforce split: prod.splits outcome.splits)

lemma idle_bind: "idle m \<Longrightarrow> (\<And>x. idle (f x)) \<Longrightarrow> idle (script_bind m f)"
  unfolding idle_def by (auto intro!: script_ok_bind [where Q = "\<lambda>_ s. ledger_of s = _"])

lemma idle_each: "(\<And>x. idle (f x)) \<Longrightarrow> idle (script_each f xs)"
  by (simp add: idle_def script_ok_each)

lemma idle_if: "idle m \<Longrightarrow> idle m' \<Longrightarrow> idle (if b then m else m')"
  by simp

lemma idle_simple: "idle (script_return x)" "idle (script_raise e)" "idle (script_lift r)" "idle (script_get f)" "idle monotonic"
  by (auto simp: idle_def script_ok_def script_defs monotonic_def ledger_of_def split: sum.split)

lemma idle_modify: "(\<And>s. ledger_of (f s) = ledger_of s) \<Longrightarrow> idle (script_modify f)"
  by (simp add: idle_def script_ok_def script_modify_def)

lemma idle_report: "(\<And>r. s_maintenance (f r) = s_maintenance r) \<Longrightarrow> idle (set_report f)"
  unfolding set_report_def by (rule idle_modify) (simp add: ledger_of_def)

lemma idle_sleep: "idle (sleep v)"
  unfolding sleep_def by (rule idle_if, rule idle_modify) (simp_all add: ledger_of_def idle_simple)

lemma ledger_of_command:
  "ledger_of (s\<lparr>k_log := k_log s @ [c], k_process := p\<rparr>) = (ledger_of s)\<lparr>g_copies := g_copies (ledger_of s) + (if is_copy c then 1 else 0)\<rparr>"
  by (simp add: ledger_of_def)

lemma idle_unchecked: "\<not> is_copy c \<Longrightarrow> idle (run_unchecked c)"
  unfolding idle_def by (intro allI run_unchecked_ok) (simp_all add: ledger_of_command)

lemma idle_command: "\<not> is_copy c \<Longrightarrow> idle (soak_command c)"
  unfolding idle_def by (intro allI soak_command_ok) (simp_all add: ledger_of_command)

text \<open>A command made from the state.\<close>

lemma idle_command_of:
  assumes "\<And>s. \<not> is_copy (c s)" and "\<And>out. idle (f out)"
  shows "idle (script_bind (script_get c) (\<lambda>c. script_bind (soak_command c) f))"
proof -
  have "idle (script_bind (soak_command c) f)" if "\<not> is_copy c" for c
    by (rule idle_bind, rule idle_command, rule that, rule assms(2))
  then show ?thesis
    unfolding idle_def
    by (intro allI script_ok_bind [where Q = "\<lambda>x s. ledger_of s = _ \<and> \<not> is_copy x"] script_ok_get script_ok_fact) (simp add: assms(1), blast)
qed

lemma is_copy_simps [simp]:
  "\<not> is_copy GitDiff" "\<not> is_copy GitRevision" "\<not> is_copy GitStatus" "\<not> is_copy (ImageId i)" "\<not> is_copy (CreateVolume v)"
  "\<not> is_copy (RunEngine i v)" "\<not> is_copy EngineHealth" "\<not> is_copy (RunWorker w i)" "\<not> is_copy (RunProducer w v i)" "\<not> is_copy (Rpc e)"
  "\<not> is_copy KillEngine" "\<not> is_copy (StopContainer w i)" "\<not> is_copy (ContainerLogs i)" "\<not> is_copy (RemoveContainer i)"
  "\<not> is_copy EngineStats" "\<not> is_copy DiskUsage" "is_copy (ColdCopy i x y z)"
  by (simp_all add: is_copy_def)

lemmas idle_intros = idle_command_of idle_bind idle_each idle_if idle_simple idle_report idle_sleep idle_command idle_unchecked

lemma idle_wait: "idle (wait_healthy fuel d)"
proof (induction fuel)
  case 0
  show ?case by (simp add: idle_def script_ok_def)
next
  case (Suc fuel)
  show ?case unfolding wait_healthy.simps by (intro idle_intros Suc.IH) simp
qed

lemma idle_operations:
  "idle (start_engine fuel)" "idle start_workers" "idle (produce rl action st)" "idle (rpc rl e)" "idle (archive_logs name)" "idle remove_workers"
  "idle (retire_engine crash)" "idle soak_elapsed" "idle (count_batch batch)" "idle pin_images" "idle (set_up fuel rl)"
proof -
  show start: "idle (start_engine fuel)" unfolding start_engine_def by (intro idle_intros idle_wait) simp
  show workers: "idle start_workers" unfolding start_workers_def by (intro idle_intros) simp
  show produce: "idle (produce rl action st)" for action st unfolding produce_def by (intro idle_intros) simp
  show rpc: "idle (rpc rl e)" for e unfolding rpc_def by (intro idle_intros) simp
  show logs: "idle (archive_logs name)" for name unfolding archive_logs_def by (intro idle_intros) simp
  have rm: "idle (remove_container name)" for name unfolding remove_container_def by (intro idle_intros) simp
  show rms: "idle remove_workers" unfolding remove_workers_def by (intro idle_intros logs rm) simp
  show "idle (retire_engine crash)" unfolding retire_engine_def by (intro idle_intros logs rm rms) simp
  show "idle soak_elapsed" unfolding soak_elapsed_def by (intro idle_intros)
  show "idle (count_batch batch)" unfolding count_batch_def by (intro idle_intros) simp_all
  have pin: "idle (script_modify (\<lambda>s. s\<lparr>k_args := (k_args s)\<lparr>a_image := i, a_worker_image := w\<rparr>\<rparr>))" for i w
    by (rule idle_modify) (simp add: ledger_of_def)
  show pins: "idle pin_images" unfolding pin_images_def by (intro idle_intros pin) simp_all
  show "idle (set_up fuel rl)" unfolding set_up_def by (intro idle_intros pins start rpc workers produce) simp
qed

text \<open>A maintenance is one copy, one entry and one more in the count.\<close>

definition maintained_once :: "ledger \<Rightarrow> ledger \<Rightarrow> bool" where
  "maintained_once g h \<longleftrightarrow>
     (\<exists>vs. dget vs (skey ''number'') = Some (PInt (g_maintained g + 1)) \<and>
        h = g\<lparr>g_events := g_events g @ [(''maintenance'', vs)], g_maintained := g_maintained g + 1, g_copies := g_copies g + 1\<rparr>)"

lemma replace_books:
  "on_return (\<lambda>s. ledger_of s = g) (replace_store rl number) (\<lambda>_ s. ledger_of s = g\<lparr>g_copies := g_copies g + 1\<rparr>)"
proof -
  let ?c = "\<lambda>s. ColdCopy (a_image (k_args s)) (k_store s) (backup_path number) (restored_path number)"
  have get: "on_return (\<lambda>s. ledger_of s = g) (script_get ?c) (\<lambda>c s. ledger_of s = g \<and> is_copy c)"
    by (rule script_ok_get) simp
  have cmd: "on_return (\<lambda>s. ledger_of s = g \<and> is_copy c) (soak_command c) (\<lambda>_ s. ledger_of s = g\<lparr>g_copies := g_copies g + 1\<rparr>)" for c
    by (rule soak_command_ok) (auto simp: ledger_of_command)
  have rest: "idle (script_bind (script_lift r) (\<lambda>x. script_bind (script_modify (\<lambda>s. s\<lparr>k_store := restored_path number\<rparr>)) (\<lambda>_. script_return x)))"
    for r :: "pyval res"
    by (intro idle_bind idle_simple idle_modify) (simp add: ledger_of_def)
  show ?thesis
    unfolding replace_store_def by (rule script_ok_bind, rule get, rule script_ok_bind, rule cmd, rule idle_on [OF rest])
qed

lemma ledger_of_updates:
  "ledger_of (s\<lparr>k_report := r\<rparr>) = (ledger_of s)\<lparr>g_maintained := s_maintenance r\<rparr>"
  "ledger_of (s\<lparr>k_events := es\<rparr>) = (ledger_of s)\<lparr>g_events := es\<rparr>" "k_events s = g_events (ledger_of s)"
  by (simp_all add: ledger_of_def)

lemma maintain_books: "on_return (\<lambda>s. ledger_of s = g) (maintain fuel rl batch) (\<lambda>_ s. maintained_once g (ledger_of s))"
proof -
  let ?g = "g\<lparr>g_copies := g_copies g + 1\<rparr>"
  have number: "on_return (\<lambda>s. ledger_of s = g) (script_get (\<lambda>s. s_maintenance (k_report s) + 1)) (\<lambda>k s. ledger_of s = g \<and> k = g_maintained g + 1)"
    by (rule script_ok_get) (auto simp: ledger_of_def)
  have count: "on_return (\<lambda>s. ledger_of s = ?g) (set_report (\<lambda>r. r\<lparr>s_maintenance := k\<rparr>)) (\<lambda>_ s. ledger_of s = ?g\<lparr>g_maintained := k\<rparr>)" for k
    unfolding set_report_def by (rule script_ok_modify) (simp add: ledger_of_updates)
  have entry: "on_return (\<lambda>s. ledger_of s = ?g\<lparr>g_maintained := g_maintained g + 1\<rparr>)
      (soak_event ''maintenance'' ((skey ''number'', PInt (g_maintained g + 1)) # vs)) (\<lambda>_ s. maintained_once g (ledger_of s))" for vs
    unfolding soak_event_def
    by (rule script_ok_modify) (auto simp: maintained_once_def ledger_of_updates intro!: exI [of _ "(skey ''number'', PInt (g_maintained g + 1)) # vs"])
  show ?thesis
    unfolding maintain_def
    by (rule script_ok_bind, rule idle_on [OF idle_operations(3)], rule script_ok_bind, rule idle_on [OF idle_simple(3)],
        rule script_ok_bind, rule number, rule script_ok_fact, hypsubst, rule script_ok_bind, rule idle_on [OF idle_operations(7)],
        rule script_ok_bind, rule replace_books, rule script_ok_bind, rule idle_on [OF idle_operations(1)],
        rule script_ok_bind, rule idle_on [OF idle_operations(2)], rule script_ok_bind, rule idle_on [OF idle_operations(3)],
        rule script_ok_bind, rule idle_on [OF idle_operations(4)], rule script_ok_bind, rule count, rule entry)
qed

text \<open>Every sample is within the disk budget; the maintenances are counted, numbered from one on, and
  each made one cold copy.\<close>

definition within_budget :: "int \<Rightarrow> (string \<times> pydict) list \<Rightarrow> bool" where
  "within_budget budget es =
     list_all (\<lambda>(kind, vs). kind = ''sample'' \<longrightarrow> (case dget vs (skey ''data_bytes'') of Some (PInt used) \<Rightarrow> used \<le> budget | _ \<Rightarrow> False)) es"

definition maintenance_numbers :: "(string \<times> pydict) list \<Rightarrow> pyval option list" where
  "maintenance_numbers es = map (\<lambda>e. dget (snd e) (skey ''number'')) (filter (\<lambda>e. fst e = ''maintenance'') es)"

definition audited :: "int \<Rightarrow> int \<Rightarrow> ledger \<Rightarrow> bool" where
  "audited seconds budget g \<longleftrightarrow> g_seconds g = seconds \<and> g_budget g = budget \<and> within_budget budget (g_events g) \<and> 0 \<le> g_maintained g
     \<and> maintenance_numbers (g_events g) = map (Some \<circ> PInt) [1..g_maintained g] \<and> int (g_copies g) = g_maintained g"

lemma audited_maintained: "audited sec b g \<Longrightarrow> maintained_once g h \<Longrightarrow> audited sec b h \<and> 1 \<le> g_maintained h \<and> g_saved h = g_saved g"
  by (auto simp: audited_def maintained_once_def within_budget_def maintenance_numbers_def upto_rec2)

lemma maintain_audited:
  "on_return (\<lambda>s. audited sec b (ledger_of s) \<and> E (g_saved (ledger_of s))) (maintain fuel rl batch)
     (\<lambda>_ s. audited sec b (ledger_of s) \<and> E (g_saved (ledger_of s)) \<and> 1 \<le> g_maintained (ledger_of s))"
proof -
  have "on_return (\<lambda>s. \<exists>g. (audited sec b g \<and> E (g_saved g)) \<and> ledger_of s = g) (maintain fuel rl batch)
      (\<lambda>_ s. \<exists>g. (audited sec b g \<and> E (g_saved g)) \<and> maintained_once g (ledger_of s))"
    by (rule script_ok_ex) (rule script_okI, auto dest: script_okD [OF maintain_books refl])
  then show ?thesis by (rule script_ok_weaken) (auto dest: audited_maintained)
qed

lemma sample_audited:
  "on_return (\<lambda>s. audited sec b (ledger_of s)) (sample rl batch)
     (\<lambda>_ s. audited sec b (ledger_of s) \<and> k_saved s \<noteq> [] \<and> last (k_saved s) = k_report s)"
proof -
  let ?P = "\<lambda>s. audited sec b (ledger_of s)"
  have limit: "on_return ?P (script_get (\<lambda>s. a_max_disk_mib (k_args s) * 1024 * 1024)) (\<lambda>x s. ?P s \<and> x = b)"
    by (rule script_ok_get) (auto simp: audited_def ledger_of_def)
  have entry: "on_return ?P (soak_event ''sample'' [(skey ''cycle'', u), (skey ''batch'', v), (skey ''engine'', w), (skey ''container'', x), (skey ''data_bytes'', PInt used)])
      (\<lambda>_. ?P)" if "used \<le> b" for u v w x used
    unfolding soak_event_def
    by (rule script_ok_modify) (use that in \<open>auto simp: audited_def ledger_of_def within_budget_def maintenance_numbers_def\<close>)
  have save: "on_return ?P save (\<lambda>_ s. ?P s \<and> k_saved s \<noteq> [] \<and> last (k_saved s) = k_report s)"
    unfolding save_def by (rule script_ok_modify) (auto simp: audited_def ledger_of_def)
  show ?thesis
    unfolding sample_def
    by (rule script_ok_bind, rule idle_on [OF idle_operations(4)], rule script_ok_bind, rule idle_on [OF idle_command], simp,
        rule script_ok_bind, rule idle_on [OF idle_simple(3)], rule script_ok_bind, rule idle_on [OF idle_command], simp,
        rule script_ok_bind, rule idle_on [OF idle_simple(3)], rule script_ok_bind, rule limit, rule script_ok_fact, hypsubst,
        rule script_ok_if, rule script_ok_raise, simp, rule script_ok_bind, rule idle_on [OF idle_operations(8)],
        rule script_ok_bind, rule idle_on [OF idle_report], simp, rule script_ok_bind, rule idle_on [OF idle_simple(4)],
        rule script_ok_bind, rule entry, simp, rule save)
qed

lemma loop_audited:
  "on_return (\<lambda>s. audited sec b (ledger_of s)) (soak_loop fuel rl)
     (\<lambda>_ s. audited sec b (ledger_of s) \<and> (\<exists>r\<in>set (g_saved (ledger_of s)). num_le (PInt sec) (s_elapsed r)))"
proof (induction fuel)
  case 0
  show ?case by (simp add: script_ok_def)
next
  case (Suc fuel)
  let ?P = "\<lambda>s. audited sec b (ledger_of s)"
  have maintain: "on_return ?P (maintain fuel rl batch) (\<lambda>_. ?P)" for batch
    by (rule script_ok_weaken [OF maintain_audited [where sec = sec and b = b and E = "\<lambda>_. True"]]) auto
  have over: "on_return (\<lambda>s. ?P s \<and> k_saved s \<noteq> [] \<and> last (k_saved s) = k_report s) (script_get turn_over)
      (\<lambda>x s. (?P s \<and> (x \<longrightarrow> (\<exists>r\<in>set (g_saved (ledger_of s)). num_le (PInt sec) (s_elapsed r)))))"
    by (rule script_ok_get) (auto simp: turn_over_def audited_def ledger_of_def, metis last_in_set)
  have last: "on_return (\<lambda>s. ?P s \<and> (x \<longrightarrow> (\<exists>r\<in>set (g_saved (ledger_of s)). num_le (PInt sec) (s_elapsed r)))) (if x then script_return v else m)
      (\<lambda>_ s. ?P s \<and> (\<exists>r\<in>set (g_saved (ledger_of s)). num_le (PInt sec) (s_elapsed r)))"
    if "on_return ?P m (\<lambda>_ s. ?P s \<and> (\<exists>r\<in>set (g_saved (ledger_of s)). num_le (PInt sec) (s_elapsed r)))" for x v and m :: "(soak, pyval) script"
    using that by (cases x) (auto intro: script_ok_return)
  show ?case
    unfolding soak_loop.simps
    by (rule script_ok_bind, rule idle_on [OF idle_operations(3)], rule script_ok_bind, rule idle_on [OF idle_operations(9)],
        rule script_ok_bind, rule idle_on [OF idle_simple(4)], rule script_ok_bind, rule idle_on [OF idle_simple(3)],
        rule script_ok_bind, rule script_ok_if, rule maintain, rule idle_on [OF idle_simple(1)], rule script_ok_bind, rule sample_audited,
        rule script_ok_bind, rule over, rule last, rule script_ok_bind, rule idle_on [OF idle_simple(4)],
        rule script_ok_bind, rule idle_on [OF idle_simple(3)], rule script_ok_bind, rule idle_on [OF idle_sleep], rule Suc.IH)
qed

lemma body_audited:
  "on_return (\<lambda>s. audited sec b (ledger_of s)) (soak_body fuel rl)
     (\<lambda>_ s. audited sec b (ledger_of s) \<and> 1 \<le> g_maintained (ledger_of s)
        \<and> (\<exists>r\<in>set (g_saved (ledger_of s)). num_le (PInt sec) (s_elapsed r)) \<and> s_status (k_report s) = ''passed'')"
proof -
  let ?P = "\<lambda>s. audited sec b (ledger_of s)"
  let ?E = "\<lambda>s. \<exists>r\<in>set (g_saved (ledger_of s)). num_le (PInt sec) (s_elapsed r)"
  have none: "on_return (\<lambda>s. ?P s \<and> ?E s) (script_get (\<lambda>s. s_maintenance (k_report s) = 0)) (\<lambda>x s. ?P s \<and> ?E s \<and> (x \<or> 1 \<le> g_maintained (ledger_of s)))"
    by (rule script_ok_get) (auto simp: audited_def ledger_of_def)
  have maintain: "on_return (\<lambda>s. ?P s \<and> ?E s \<and> (x \<or> 1 \<le> g_maintained (ledger_of s))) (if x then maintain fuel rl batch else script_return ())
      (\<lambda>_ s. ?P s \<and> ?E s \<and> 1 \<le> g_maintained (ledger_of s))" for x batch
    by (rule script_ok_if, rule script_ok_weaken [OF maintain_audited [where sec = sec and b = b and E = "\<lambda>rs. \<exists>r\<in>set rs. num_le (PInt sec) (s_elapsed r)"]])
      (auto intro: script_ok_return)
  have passed: "on_return (\<lambda>s. ?P s \<and> ?E s \<and> 1 \<le> g_maintained (ledger_of s)) (set_report (\<lambda>r. r\<lparr>s_status := ''passed''\<rparr>))
      (\<lambda>_ s. ?P s \<and> 1 \<le> g_maintained (ledger_of s) \<and> ?E s \<and> s_status (k_report s) = ''passed'')"
    unfolding set_report_def by (rule script_ok_modify) (auto simp: audited_def ledger_of_def)
  have started: "idle (script_modify (\<lambda>s. s\<lparr>k_started := t\<rparr>))" for t by (rule idle_modify) (simp add: ledger_of_def)
  show ?thesis
    unfolding soak_body_def
    by (rule script_ok_bind, rule idle_on [OF idle_operations(11)], rule script_ok_bind, rule idle_on [OF idle_report], simp,
        rule script_ok_bind, rule idle_on [OF idle_simple(5)], rule script_ok_bind, rule idle_on [OF started],
        rule script_ok_bind, rule loop_audited, rule script_ok_bind, rule none, rule script_ok_bind, rule maintain, rule passed)
qed

lemma clean_up_audited:
  "on_return (\<lambda>s. P (ledger_of s) \<and> s_status (k_report s) = x) clean_up
     (\<lambda>_ s. (\<exists>rs. k_saved s = rs @ [k_report s] \<and> P ((ledger_of s)\<lparr>g_saved := rs\<rparr>)) \<and> s_status (k_report s) = x)"
proof -
  let ?P = "\<lambda>s. P (ledger_of s) \<and> s_status (k_report s) = x"
  have simple: "on_return ?P monotonic (\<lambda>_. ?P)" "on_return ?P (script_get f) (\<lambda>_. ?P)" "on_return ?P (script_return u) (\<lambda>_. ?P)" for f :: "soak \<Rightarrow> 'a" and u :: 'b
    by (auto simp: script_ok_def monotonic_def script_defs ledger_of_def)
  have cmd: "on_return ?P (run_unchecked c) (\<lambda>_. ?P)" if "\<not> is_copy c" for c
    by (rule run_unchecked_ok) (use that in \<open>simp_all add: ledger_of_command\<close>)
  have logs: "on_return ?P (archive_logs name) (\<lambda>_. ?P)" for name
    unfolding archive_logs_def by (rule script_ok_bind, rule cmd, simp, rule script_ok_return) simp
  have elapsed: "on_return ?P soak_elapsed (\<lambda>_. ?P)"
    unfolding soak_elapsed_def by (rule script_ok_bind, rule simple(1), rule script_ok_get)
  have report: "on_return ?P (set_report (\<lambda>r. r\<lparr>s_elapsed := e\<rparr>)) (\<lambda>_. ?P)" for e
    unfolding set_report_def by (rule script_ok_modify) (simp add: ledger_of_def)
  have save: "on_return ?P save (\<lambda>_ s. (\<exists>rs. k_saved s = rs @ [k_report s] \<and> P ((ledger_of s)\<lparr>g_saved := rs\<rparr>)) \<and> s_status (k_report s) = x)"
    unfolding save_def by (rule script_ok_modify) (simp add: ledger_of_def)
  show ?thesis
    unfolding clean_up_def
    by (rule script_ok_bind, rule elapsed, rule script_ok_bind, rule report, rule script_ok_bind, rule script_ok_get, assumption, rule script_ok_bind,
        rule script_ok_each, rule script_ok_bind, rule cmd, simp, rule logs, rule save)
qed

lemma soak_done:
  assumes "soak_run fuel rl (soak_init a n process clock) = (Done (), s)"
  shows "\<exists>rs. k_saved s = rs @ [k_report s] \<and> s_status (k_report s) = ''passed''
    \<and> audited (a_seconds a) (a_max_disk_mib a * 1024 * 1024) ((ledger_of s)\<lparr>g_saved := rs\<rparr>)
    \<and> 1 \<le> s_maintenance (k_report s) \<and> (\<exists>r\<in>set rs. num_le (PInt (a_seconds a)) (s_elapsed r))"
proof -
  let ?sec = "a_seconds a" and ?b = "a_max_disk_mib a * 1024 * 1024"
  let ?K = "\<lambda>g. audited ?sec ?b g \<and> 1 \<le> g_maintained g \<and> (\<exists>r\<in>set (g_saved g). num_le (PInt ?sec) (s_elapsed r))"
  have start: "audited ?sec ?b (ledger_of (soak_start a n process clock))"
    by (simp add: soak_start_def audited_def ledger_of_def soak_init_def within_budget_def maintenance_numbers_def)
  obtain t where t: "soak_body fuel rl (soak_start a n process clock) = (Done (), t)" "clean_up t = (Done (), s)"
    using assms unfolding soak_run_start by (auto split: prod.splits outcome.splits)
  note script_okD [OF body_audited start t(1)]
  then have "(\<exists>rs. k_saved s = rs @ [k_report s] \<and> ?K ((ledger_of s)\<lparr>g_saved := rs\<rparr>)) \<and> s_status (k_report s) = ''passed''"
    by (intro script_okD [OF clean_up_audited _ t(2)]) simp
  then show ?thesis by (auto simp: ledger_of_def)
qed

end
