(* ===== verification/SoakLive.thy ===== *)
theory SoakLive
  imports SoakProps
begin

section \<open>A soak test in a healthy environment passes\<close>

text \<open>
  When every command succeeds with an answer of the shape the controller expects and time goes on,
  the controller returns: it neither raises nor loops for ever. Triples with no other way to end
  than returning (\<open>sure\<close>) say so for its operations.
\<close>

subsection \<open>The environment\<close>

definition answered :: "(nat \<Rightarrow> docker_command \<Rightarrow> process) \<Rightarrow> nat \<Rightarrow> string \<Rightarrow> pyval \<Rightarrow> bool" where
  "answered process rl action v \<longleftrightarrow>
     (\<exists>i st img out. process i (RunProducer action st img) = Exited 0 out \<and> decoded rl (py_strip out) = Inr v)"

definition answer_ok :: "nat \<Rightarrow> int \<Rightarrow> docker_command \<Rightarrow> pystr \<Rightarrow> bool" where
  "answer_ok rl budget c out =
     (case c of
        EngineHealth \<Rightarrow> out = str ''healthy''
      | RunProducer _ _ _ \<Rightarrow> is_ok (decoded rl out)
      | Rpc _ \<Rightarrow> is_ok (decoded rl out)
      | ColdCopy _ _ _ _ \<Rightarrow> is_ok (decoded rl out)
      | EngineStats \<Rightarrow> is_ok (json_loads plain_pairs plain_constant rl out)
      | DiskUsage \<Rightarrow> (case data_bytes out of Inl _ \<Rightarrow> False | Inr used \<Rightarrow> used \<le> budget)
      | _ \<Rightarrow> True)"

text \<open>Every command exits with code zero and a usable answer; a batch counts its jobs, and the probes of a
  seed can be completed from it and sent on.\<close>

definition obliging :: "nat \<Rightarrow> int \<Rightarrow> (nat \<Rightarrow> docker_command \<Rightarrow> process) \<Rightarrow> bool" where
  "obliging rl budget process \<longleftrightarrow>
     (\<forall>i c. \<exists>out. process i c = Exited 0 out \<and> answer_ok rl budget c (py_strip out)) \<and>
     (\<forall>batch. answered process rl ''batch'' batch \<longrightarrow>
        (\<exists>jobs. batch_jobs batch = Inr (PInt jobs)) \<and>
        (\<forall>seed. answered process rl ''seed'' seed \<longrightarrow>
           (\<exists>probes. with_evidence batch seed = Inr probes \<and> is_ok (spaced_json (if truthy probes then probes else PDict [])))))"

text \<open>Two readings of the clock in a row are less than the time allowed for a start apart.\<close>

definition steady :: "(nat \<Rightarrow> pyfloat) \<Rightarrow> bool" where
  "steady clock \<longleftrightarrow> (\<forall>i. num_less (PFloat (clock (Suc i))) (PFloat (float_add (clock i) (Flt 90))))"

subsection \<open>Operations that return\<close>

abbreviation sure :: "(soak \<Rightarrow> bool) \<Rightarrow> (soak, 'a) script \<Rightarrow> ('a \<Rightarrow> soak \<Rightarrow> bool) \<Rightarrow> bool" where
  "sure P m Q \<equiv> script_ok P m Q (\<lambda>_. False)"

text \<open>Some commands are run and \<open>p\<close> readings taken; the arguments that matter are as given.\<close>

definition ready :: "soak_args \<Rightarrow> (nat \<Rightarrow> docker_command \<Rightarrow> process) \<Rightarrow> (nat \<Rightarrow> pyfloat) \<Rightarrow> pyfloat \<Rightarrow> nat \<Rightarrow> soak \<Rightarrow> bool" where
  "ready a process clock start p s \<longleftrightarrow>
     (\<exists>i w. k_args s = a\<lparr>a_image := i, a_worker_image := w\<rparr>) \<and> (\<exists>r. k_process s = (\<lambda>i. process (r + i)))
     \<and> k_clock s = (\<lambda>i. clock (p + i)) \<and> k_started s = start \<and> (\<exists>j. s_jobs (k_report s) = PInt j)"

lemma ready_command:
  assumes "ready a process clock start p s"
  shows "ready a process clock start p (s\<lparr>k_log := l, k_process := k_process s \<circ> Suc\<rparr>)"
proof -
  from assms obtain r where "k_process s = (\<lambda>i. process (r + i))" by (auto simp: ready_def)
  then have "k_process s \<circ> Suc = (\<lambda>i. process (Suc r + i))" by auto
  then have "\<exists>r. k_process s \<circ> Suc = (\<lambda>i. process (r + i))" by blast
  with assms show ?thesis by (simp add: ready_def)
qed

lemma ready_process: "ready a process clock start p s \<Longrightarrow> \<exists>i. k_process s 0 = process i"
  by (auto simp: ready_def)

lemma sure_command:
  assumes "obliging rl budget process"
  shows "sure (ready a process clock start p) (soak_command c)
    (\<lambda>out s. ready a process clock start p s \<and> answer_ok rl budget c out \<and> (\<exists>i raw. process i c = Exited 0 raw \<and> out = py_strip raw))"
proof (unfold script_ok_def, intro allI impI)
  fix s assume s: "ready a process clock start p s"
  from ready_process [OF this] obtain i where i: "k_process s 0 = process i" by blast
  from assms obtain raw where "process i c = Exited 0 raw" "answer_ok rl budget c (py_strip raw)" unfolding obliging_def by blast
  with s i show "case soak_command c s of (Done out, t) \<Rightarrow> ready a process clock start p t \<and> answer_ok rl budget c out
      \<and> (\<exists>i raw. process i c = Exited 0 raw \<and> out = py_strip raw) | (_, t) \<Rightarrow> False"
    by (auto simp: soak_command_def run_unchecked_def script_bind_def script_return_def ready_command)
qed

lemma sure_run:
  assumes "obliging rl budget process" and "\<And>out. answer_ok rl budget c out \<Longrightarrow> sure (ready a process clock start p) (f out) Q"
  shows "sure (ready a process clock start p) (script_bind (soak_command c) f) Q"
proof (rule script_ok_bind)
  show "sure (ready a process clock start p) (soak_command c) (\<lambda>out s. ready a process clock start p s \<and> answer_ok rl budget c out)"
    by (rule script_ok_weaken [OF sure_command [OF assms(1)]]) auto
  show "sure (\<lambda>s. ready a process clock start p s \<and> answer_ok rl budget c out) (f out) Q" for out
    by (rule script_ok_fact, rule assms(2))
qed

text \<open>The same for a command made from the state, and for operations without commands.\<close>

lemma sure_get:
  assumes "\<And>s. ready a process clock start p s \<Longrightarrow> B (f s)" and "\<And>x. B x \<Longrightarrow> sure (ready a process clock start p) (g x) Q"
  shows "sure (ready a process clock start p) (script_bind (script_get f) g) Q"
proof (rule script_ok_bind)
  show "sure (ready a process clock start p) (script_get f) (\<lambda>x s. ready a process clock start p s \<and> B x)" by (rule script_ok_get) (simp add: assms(1))
  show "sure (\<lambda>s. ready a process clock start p s \<and> B x) (g x) Q" for x by (rule script_ok_fact, rule assms(2))
qed

lemma sure_value: "is_ok r \<Longrightarrow> sure P (script_lift r) (\<lambda>x s. P s \<and> r = Inr x)"
  by (auto simp: is_ok_iff script_ok_def script_lift_def)

lemma sure_lift:
  assumes "is_ok r" and "\<And>x. r = Inr x \<Longrightarrow> sure P (f x) Q"
  shows "sure P (script_bind (script_lift r) f) Q"
  by (rule script_ok_bind, rule sure_value, rule assms(1), rule script_ok_fact, rule assms(2))

lemma sure_modify:
  assumes "\<And>s. ready a process clock start p s \<Longrightarrow> ready a process clock start p (h s)"
  shows "sure (ready a process clock start p) (script_modify h) (\<lambda>_. ready a process clock start p)"
  by (rule script_ok_modify) (rule assms)

lemma sure_report:
  "(\<And>r. s_jobs (f r) = s_jobs r) \<Longrightarrow> sure (ready a process clock start p) (set_report f) (\<lambda>_. ready a process clock start p)"
  unfolding set_report_def by (rule sure_modify) (simp add: ready_def)

lemma sure_event: "sure (ready a process clock start p) (soak_event kind vs) (\<lambda>_. ready a process clock start p)"
  unfolding soak_event_def by (rule sure_modify) (simp add: ready_def)

lemma sure_monotonic:
  "sure (ready a process clock start p) monotonic (\<lambda>t s. ready a process clock start (Suc p) s \<and> t = clock p)"
  by (auto simp: script_ok_def monotonic_def ready_def)

lemma sure_return: "sure (ready a process clock start p) (script_return x) (\<lambda>_. ready a process clock start p)"
  by (rule script_ok_return)

lemma sure_each:
  "(\<And>x. sure (ready a process clock start p) (f x) (\<lambda>_. ready a process clock start p)) \<Longrightarrow> sure (ready a process clock start p) (script_each f xs) (\<lambda>_. ready a process clock start p)"
  by (rule script_ok_each)

lemma answer_ok_simps [simp]:
  "answer_ok rl b EngineHealth out \<longleftrightarrow> out = str ''healthy''" "answer_ok rl b (RunProducer action st img) out \<longleftrightarrow> is_ok (decoded rl out)"
  "answer_ok rl b (Rpc e) out \<longleftrightarrow> is_ok (decoded rl out)" "answer_ok rl b (ColdCopy i x y z) out \<longleftrightarrow> is_ok (decoded rl out)"
  "answer_ok rl b EngineStats out \<longleftrightarrow> is_ok (json_loads plain_pairs plain_constant rl out)"
  "answer_ok rl b DiskUsage out \<longleftrightarrow> (\<exists>used. data_bytes out = Inr used \<and> used \<le> b)"
  by (auto simp: answer_ok_def split: sum.split)

lemma sure_start_engine:
  assumes "obliging rl b process" and "steady clock" and "1 \<le> fuel"
  shows "sure (ready a process clock start p) (start_engine fuel) (\<lambda>_. ready a process clock start (p + 2))"
proof -
  obtain k where fuel: "fuel = Suc k" using assms(3) by (cases fuel) auto
  have healthy: "sure (ready a process clock start (Suc (Suc p))) (script_bind (soak_command EngineHealth) (\<lambda>health.
       if health = str ''healthy'' then script_return () else if health = str ''unhealthy'' then script_raise RuntimeError
       else script_bind (sleep (PInt 1)) (\<lambda>_. wait_healthy k d))) (\<lambda>_. ready a process clock start (p + 2))" for d
    by (rule sure_run [OF assms(1)]) (auto intro: script_ok_return)
  have wait: "sure (ready a process clock start (Suc p)) (wait_healthy fuel (float_add (clock p) (Flt 90))) (\<lambda>_. ready a process clock start (p + 2))"
    unfolding fuel wait_healthy.simps
    by (rule script_ok_bind, rule sure_monotonic, rule script_ok_fact, hypsubst)
      (use assms(2) healthy in \<open>simp add: steady_def\<close>)
  show ?thesis
    unfolding start_engine_def
    by (rule sure_get [where B = "\<lambda>_. True"], simp, rule sure_run [OF assms(1)], rule script_ok_bind, rule sure_monotonic, rule script_ok_fact, hypsubst, rule wait)
qed

lemma sure_workers: "obliging rl b process \<Longrightarrow> sure (ready a process clock start p) start_workers (\<lambda>_. ready a process clock start p)"
  unfolding start_workers_def
  by (rule sure_each, rule sure_get [where B = "\<lambda>_. True"], simp, rule sure_run, assumption, rule sure_return)

lemma sure_rpc: "obliging rl b process \<Longrightarrow> sure (ready a process clock start p) (rpc rl e) (\<lambda>_. ready a process clock start p)"
  unfolding rpc_def by (rule sure_run, assumption, rule script_ok_weaken [OF sure_value [where P = "ready a process clock start p"]]) auto

lemma sure_produce:
  assumes "obliging rl b process" and "is_ok (spaced_json (if truthy st then st else PDict []))"
  shows "sure (ready a process clock start p) (produce rl action st) (\<lambda>v s. ready a process clock start p s \<and> answered process rl action v)"
proof -
  have send: "sure (ready a process clock start p) (script_bind (soak_command (RunProducer action x img)) (\<lambda>out. script_lift (decoded rl out)))
      (\<lambda>v s. ready a process clock start p s \<and> answered process rl action v)" for x img
  proof (rule script_ok_bind, rule sure_command [OF assms(1)])
    fix out
    have "sure (ready a process clock start p) (script_lift (decoded rl out)) (\<lambda>v s. ready a process clock start p s \<and> answered process rl action v)"
      if "is_ok (decoded rl out)" "\<exists>i raw. process i (RunProducer action x img) = Exited 0 raw \<and> out = py_strip raw"
      by (rule script_ok_weaken [OF sure_value [where P = "ready a process clock start p", OF that(1)]]) (use that(2) in \<open>auto simp: answered_def\<close>)
    then show "sure (\<lambda>s. ready a process clock start p s \<and> answer_ok rl b (RunProducer action x img) out
          \<and> (\<exists>i raw. process i (RunProducer action x img) = Exited 0 raw \<and> out = py_strip raw))
        (script_lift (decoded rl out)) (\<lambda>v s. ready a process clock start p s \<and> answered process rl action v)"
      by (intro script_ok_fact) simp
  qed
  show ?thesis
    unfolding produce_def
    by (rule sure_lift, rule assms(2), rule sure_get [where B = "\<lambda>c. \<exists>x img. c = RunProducer action x img"]) (auto intro: send)
qed

lemma sure_unchecked:
  assumes "obliging rl b process"
  shows "sure (ready a process clock start p) (run_unchecked c) (\<lambda>_. ready a process clock start p)"
proof (unfold script_ok_def, intro allI impI)
  fix s assume s: "ready a process clock start p s"
  from ready_process [OF this] obtain i where i: "k_process s 0 = process i" by blast
  from assms obtain raw where "process i c = Exited 0 raw" unfolding obliging_def by blast
  with s i show "case run_unchecked c s of (Done _, t) \<Rightarrow> ready a process clock start p t | (_, t) \<Rightarrow> False"
    by (simp add: run_unchecked_def ready_command)
qed

lemma sure_logs: "obliging rl b process \<Longrightarrow> sure (ready a process clock start p) (archive_logs name) (\<lambda>_. ready a process clock start p)"
  unfolding archive_logs_def by (rule script_ok_bind, rule sure_unchecked, assumption, rule sure_return)

lemma sure_remove: "obliging rl b process \<Longrightarrow> sure (ready a process clock start p) (remove_container name) (\<lambda>_. ready a process clock start p)"
  unfolding remove_container_def by (rule sure_run, assumption, rule sure_return)

lemma sure_retire:
  assumes "obliging rl b process"
  shows "sure (ready a process clock start p) (retire_engine crash) (\<lambda>_. ready a process clock start p)"
proof -
  have workers: "sure (ready a process clock start p) remove_workers (\<lambda>_. ready a process clock start p)"
    unfolding remove_workers_def
    by (rule sure_get [where B = "\<lambda>_. True"], simp, rule sure_each, rule sure_run [OF assms], rule script_ok_bind, rule sure_logs [OF assms], rule sure_remove [OF assms])
  show ?thesis
    unfolding retire_engine_def
    by (rule sure_get [where B = "\<lambda>_. True"], simp, rule sure_run [OF assms], rule script_ok_bind, rule workers, rule script_ok_bind, rule sure_logs [OF assms], rule sure_remove [OF assms])
qed

lemma sure_replace:
  assumes "obliging rl b process"
  shows "sure (ready a process clock start p) (replace_store rl number) (\<lambda>_. ready a process clock start p)"
proof -
  have adopt: "sure (ready a process clock start p) (script_modify (\<lambda>s. s\<lparr>k_store := restored_path number\<rparr>)) (\<lambda>_. ready a process clock start p)"
    by (rule sure_modify) (simp add: ready_def)
  have copy: "sure (ready a process clock start p) (script_bind (soak_command c) (\<lambda>out. script_bind (script_lift (decoded rl out)) (\<lambda>evidence.
       script_bind (script_modify (\<lambda>s. s\<lparr>k_store := restored_path number\<rparr>)) (\<lambda>_. script_return evidence)))) (\<lambda>_. ready a process clock start p)"
    if "\<exists>i x y z. c = ColdCopy i x y z" for c
    by (rule sure_run [OF assms], rule sure_lift)
      (use that in \<open>auto intro!: script_ok_bind [OF adopt sure_return]\<close>)
  show ?thesis
    unfolding replace_store_def by (rule sure_get [where B = "\<lambda>c. \<exists>i x y z. c = ColdCopy i x y z"]) (blast, rule copy)
qed

lemma sure_maintain:
  assumes "obliging rl b process" and "steady clock" and "1 \<le> fuel" and "answered process rl ''batch'' batch"
  shows "sure (ready a process clock start p) (maintain fuel rl batch) (\<lambda>_. ready a process clock start (p + 2))"
proof -
  note go = script_ok_bind
  have seed: "sure (ready a process clock start p) (produce rl ''seed'' PNone) (\<lambda>v s. ready a process clock start p s \<and> answered process rl ''seed'' v)"
    by (rule sure_produce [OF assms(1)]) simp
  have verify: "sure (ready a process clock start q) (produce rl ''verify'' probes) (\<lambda>_. ready a process clock start q)"
    if "is_ok (spaced_json (if truthy probes then probes else PDict []))" for q probes
    by (rule script_ok_weaken [OF sure_produce [OF assms(1) that]]) auto
  let ?tail = "\<lambda>probes. script_bind (script_get (\<lambda>s. s_maintenance (k_report s) + 1)) (\<lambda>number.
     script_bind (retire_engine (number mod 2 = 1)) (\<lambda>_.
     script_bind (replace_store rl number) (\<lambda>evidence.
     script_bind (start_engine fuel) (\<lambda>_.
     script_bind start_workers (\<lambda>_.
     script_bind (produce rl ''verify'' probes) (\<lambda>recovered.
     script_bind (rpc rl COMPACT_EXPRESSION) (\<lambda>compacted.
     script_bind (set_report (\<lambda>r. r\<lparr>s_maintenance := number\<rparr>)) (\<lambda>_.
     soak_event ''maintenance''
       [(skey ''number'', PInt number), (skey ''crash'', PBool (number mod 2 = 1)), (skey ''copies'', evidence),
        (skey ''recovered'', recovered), (skey ''compaction'', compacted)]))))))))"
  have tail: "sure (ready a process clock start p) (?tail probes) (\<lambda>_. ready a process clock start (p + 2))"
    if "is_ok (spaced_json (if truthy probes then probes else PDict []))" for probes
    by (rule sure_get [where B = "\<lambda>_. True"], simp, rule go, rule sure_retire [OF assms(1)], rule go, rule sure_replace [OF assms(1)],
        rule go, rule sure_start_engine [OF assms(1,2,3)], rule go, rule sure_workers [OF assms(1)], rule go, rule verify [OF that],
        rule go, rule sure_rpc [OF assms(1)], rule go, rule sure_report, simp, rule sure_event)
  have lift: "sure (ready a process clock start p) (script_bind (script_lift (with_evidence batch seeded)) ?tail) (\<lambda>_. ready a process clock start (p + 2))"
    if "answered process rl ''seed'' seeded" for seeded
  proof -
    from that assms(1,4) obtain probes where probes: "with_evidence batch seeded = Inr probes" "is_ok (spaced_json (if truthy probes then probes else PDict []))"
      unfolding obliging_def by blast
    show ?thesis
    proof (rule sure_lift)
      show "is_ok (with_evidence batch seeded)" using probes(1) by (simp add: is_ok_iff)
      show "sure (ready a process clock start p) (?tail x) (\<lambda>_. ready a process clock start (p + 2))" if "with_evidence batch seeded = Inr x" for x
        by (rule tail) (use that probes in \<open>metis sum.inject(2)\<close>)
    qed
  qed
  show ?thesis
    unfolding maintain_def by (rule go, rule seed, rule script_ok_fact, rule lift)
qed

subsection \<open>Turns of the loop\<close>

lemma sure_count:
  assumes "obliging rl b process" and "answered process rl ''batch'' batch"
  shows "sure (ready a process clock start p) (count_batch batch) (\<lambda>_. ready a process clock start p)"
proof -
  from assms obtain n where n: "batch_jobs batch = Inr (PInt n)" unfolding obliging_def by blast
  have set: "sure (ready a process clock start p) (set_report (\<lambda>r. r\<lparr>s_jobs := PInt k\<rparr>)) (\<lambda>_. ready a process clock start p)" for k
    unfolding set_report_def by (rule sure_modify) (simp add: ready_def)
  have add: "sure (ready a process clock start p) (script_bind (script_lift (rbind (batch_jobs batch) (num_add jobs))) (\<lambda>total. set_report (\<lambda>r. r\<lparr>s_jobs := total\<rparr>)))
      (\<lambda>_. ready a process clock start p)" if "\<exists>j. jobs = PInt j" for jobs
    by (rule sure_lift) (use that n in \<open>auto simp: is_ok_iff intro: set\<close>)
  show ?thesis
    unfolding count_batch_def
    by (rule script_ok_bind, rule sure_report, simp, rule sure_get [where B = "\<lambda>jobs. \<exists>j. jobs = PInt j"], simp add: ready_def, rule add)
qed

text \<open>The elapsed time is of the reading after the current one.\<close>

lemma sure_elapsed:
  "sure (ready a process clock start p) soak_elapsed (\<lambda>e s. ready a process clock start (Suc p) s \<and> e = PFloat (float_sub (clock p) start))"
  by (auto simp: soak_elapsed_def script_ok_def script_bind_def script_get_def monotonic_def ready_def)

lemma sure_sample:
  assumes ob: "obliging rl (a_max_disk_mib a * 1024 * 1024) process"
  shows "sure (ready a process clock start p) (sample rl batch)
    (\<lambda>_ s. ready a process clock start (Suc p) s \<and> s_elapsed (k_report s) = PFloat (float_sub (clock p) start))"
proof -
  let ?R = "ready a process clock start" and ?b = "a_max_disk_mib a * 1024 * 1024"
  let ?E = "\<lambda>s. ?R (Suc p) s \<and> s_elapsed (k_report s) = PFloat (float_sub (clock p) start)"
  have set: "sure (?R (Suc p)) (set_report (\<lambda>r. r\<lparr>s_elapsed := PFloat (float_sub (clock p) start)\<rparr>)) (\<lambda>_. ?E)"
    unfolding set_report_def by (rule script_ok_modify) (simp add: ready_def)
  have keep: "sure ?E (script_get f) (\<lambda>_. ?E)" "sure ?E (soak_event kind vs) (\<lambda>_. ?E)" "sure ?E save (\<lambda>_. ?E)" for f :: "soak \<Rightarrow> int" and kind vs
    by (simp_all add: script_ok_def script_get_def soak_event_def save_def script_modify_def ready_def)
  let ?noted = "\<lambda>status stats used. script_bind soak_elapsed (\<lambda>e.
       script_bind (set_report (\<lambda>r. r\<lparr>s_elapsed := e\<rparr>)) (\<lambda>_.
       script_bind (script_get (\<lambda>s. s_cycles (k_report s))) (\<lambda>cycles.
       script_bind (soak_event ''sample''
         [(skey ''cycle'', PInt cycles), (skey ''batch'', batch), (skey ''engine'', status), (skey ''container'', stats),
          (skey ''data_bytes'', PInt used)]) (\<lambda>_. save))))"
  have noted: "sure (?R p) (?noted status stats used) (\<lambda>_. ?E)" for status stats used
    by (rule script_ok_bind, rule sure_elapsed, rule script_ok_fact, hypsubst, rule script_ok_bind, rule set, rule script_ok_bind, rule keep(1),
        rule script_ok_bind, rule keep(2), rule keep(3))
  have budget: "sure (?R p) (script_bind (script_get (\<lambda>s. a_max_disk_mib (k_args s) * 1024 * 1024)) (\<lambda>limit.
      if limit < used then script_raise RuntimeError else ?noted status stats used)) (\<lambda>_. ?E)" if "used \<le> ?b" for status stats used
    by (rule sure_get [where B = "\<lambda>x. x = ?b"]) (use that noted in \<open>auto simp: ready_def\<close>)
  have disk: "sure (?R p) (script_bind (soak_command DiskUsage) (\<lambda>out. script_bind (script_lift (data_bytes out)) (\<lambda>used.
      script_bind (script_get (\<lambda>s. a_max_disk_mib (k_args s) * 1024 * 1024)) (\<lambda>limit.
      if limit < used then script_raise RuntimeError else ?noted status stats used)))) (\<lambda>_. ?E)" for status stats
    by (rule sure_run [OF ob], rule sure_lift, force simp: is_ok_iff, rule budget, force)
  show ?thesis
    unfolding sample_def
    by (rule script_ok_bind, rule sure_rpc [OF ob], rule sure_run [OF ob], rule sure_lift, simp, rule disk)
qed

text \<open>Before the time is up there is a pause that is not negative.\<close>

lemma pause_ok:
  assumes "0 \<le> sec" and "sec < 2 ^ 53" and "\<not> num_le (PInt sec) (PFloat x)" and "num_less (PInt 0) (PFloat interval)"
  shows "\<exists>v. pause interval sec (PFloat x) = Inr v \<and> num_le (PInt 0) v"
proof -
  have interval: "num_le (PInt 0) (PFloat interval)" using assms(4) by (cases interval) (auto simp: num_le_def num_less_def)
  have sec: "float_of_int sec = Inr (Flt (of_int sec))" using assms(1,2) by (rule float_of_int_small)
  have diff: "num_sub (PInt sec) (PFloat x) = Inr (PFloat (float_sub (Flt (of_int sec)) x))" by (simp add: on_floats_def sec)
  have "num_le (PInt 0) (PFloat (float_sub (Flt (of_int sec)) x))" if "x \<noteq> NaN"
  proof (cases x)
    case (Flt q)
    then have "0 < of_int sec - q" using assms(3) by (simp add: num_le_def)
    then show ?thesis using round_pos_nonneg [of "of_int sec - q"]
      by (auto simp: Flt float_sub_def float_add_def to_double_def num_le_def Let_def)
  next
    case NegZero
    then show ?thesis using assms(1) round_pos_nonneg [of "of_int sec"] by (auto simp: float_sub_def float_add_def to_double_def num_le_def Let_def)
  qed (use assms(3) that in \<open>auto simp: num_le_def float_sub_def float_add_def\<close>)
  moreover have "\<not> num_less (PFloat (float_sub (Flt (of_int sec)) NaN)) (PFloat interval)" by (simp add: num_less_def float_sub_def float_add_def)
  moreover have "pause interval sec (PFloat x) =
      Inr (if num_less (PFloat (float_sub (Flt (of_int sec)) x)) (PFloat interval) then PFloat (float_sub (Flt (of_int sec)) x) else PFloat interval)"
    unfolding pause_def diff by simp
  ultimately show ?thesis using interval by (cases "x = NaN") simp_all
qed

text \<open>What follows the sample of a turn, when the rest of the loop returns.\<close>

lemma sure_turn:
  assumes ob: "obliging rl (a_max_disk_mib a * 1024 * 1024) process" and args: "soak_arguments_ok a" and batch: "answered process rl ''batch'' batch"
    and loop: "\<not> num_le (PInt (a_seconds a)) (PFloat (float_sub (clock q) start)) \<Longrightarrow>
      sure (ready a process clock start (Suc q)) loop (\<lambda>batch s. (\<exists>q. ready a process clock start q s) \<and> answered process rl ''batch'' batch)"
  shows "sure (ready a process clock start q) (script_bind (sample rl batch) (\<lambda>_. script_bind (script_get turn_over) (\<lambda>over.
     if over then script_return batch
     else script_bind (script_get (\<lambda>s. pause (a_interval (k_args s)) (a_seconds (k_args s)) (s_elapsed (k_report s)))) (\<lambda>p.
       script_bind (script_lift p) (\<lambda>v. script_bind (sleep v) (\<lambda>_. loop))))))
     (\<lambda>batch s. (\<exists>q. ready a process clock start q s) \<and> answered process rl ''batch'' batch)"
    (is "sure _ (script_bind _ (\<lambda>_. script_bind _ (\<lambda>over. ?on over))) ?Q")
proof -
  let ?R = "ready a process clock start" and ?x = "float_sub (clock q) start"
  let ?E = "\<lambda>s. ?R (Suc q) s \<and> s_elapsed (k_report s) = PFloat ?x"
  have over: "sure ?E (script_get turn_over) (\<lambda>over s. ?E s \<and> over = num_le (PInt (a_seconds a)) (PFloat ?x))"
    by (rule script_ok_get) (auto simp: turn_over_def ready_def)
  have "sure ?E (?on over) ?Q" if "over = num_le (PInt (a_seconds a)) (PFloat ?x)" for over
  proof (cases over)
    case True
    then show ?thesis using batch by (auto intro: script_ok_return)
  next
    case False
    then have no: "\<not> num_le (PInt (a_seconds a)) (PFloat ?x)" using that by simp
    have sleep: "sure (?R (Suc q)) (script_bind (sleep v) (\<lambda>_. loop)) ?Q" if "num_le (PInt 0) v" for v
      by (rule script_ok_bind [OF _ loop [OF no]]) (use that in \<open>auto simp: sleep_def ready_def intro!: script_ok_modify\<close>)
    have "\<exists>v. pause (a_interval a) (a_seconds a) (PFloat ?x) = Inr v \<and> num_le (PInt 0) v"
      using args by (intro pause_ok no) (simp_all add: soak_arguments_ok_def)
    then have "sure ?E (script_get (\<lambda>s. pause (a_interval (k_args s)) (a_seconds (k_args s)) (s_elapsed (k_report s))))
        (\<lambda>pv s. ?R (Suc q) s \<and> (\<exists>v. pv = Inr v \<and> num_le (PInt 0) v))"
      by (intro script_ok_get) (auto simp: ready_def)
    then have "sure ?E (script_bind (script_get (\<lambda>s. pause (a_interval (k_args s)) (a_seconds (k_args s)) (s_elapsed (k_report s)))) (\<lambda>p.
       script_bind (script_lift p) (\<lambda>v. script_bind (sleep v) (\<lambda>_. loop)))) ?Q"
      by (rule script_ok_bind) (rule script_ok_fact, rule sure_lift, auto simp: is_ok_iff intro: sleep)
    then show ?thesis using False by simp
  qed
  then show ?thesis by (intro script_ok_bind [OF sure_sample [OF ob]] script_ok_bind [OF over] script_ok_fact)
qed

text \<open>The loop returns within \<open>N\<close> readings when the time is up from reading \<open>N\<close> on.\<close>

lemma sure_loop:
  assumes ob: "obliging rl (a_max_disk_mib a * 1024 * 1024) process" and "steady clock" and args: "soak_arguments_ok a"
    and up: "\<forall>j\<ge>N. num_le (PInt (a_seconds a)) (PFloat (float_sub (clock j) start))" and "N + 2 \<le> p + fuel" and "2 \<le> fuel"
  shows "sure (ready a process clock start p) (soak_loop fuel rl) (\<lambda>batch s. (\<exists>q. ready a process clock start q s) \<and> answered process rl ''batch'' batch)"
  using assms(5,6)
proof (induction fuel arbitrary: p)
  case (Suc fuel)
  let ?R = "ready a process clock start" and ?Q = "\<lambda>batch s. (\<exists>q. ready a process clock start q s) \<and> answered process rl ''batch'' batch"
  have next_turn: "sure (?R (Suc q)) (soak_loop fuel rl) ?Q" if "p \<le> q" "\<not> num_le (PInt (a_seconds a)) (PFloat (float_sub (clock q) start))" for q
  proof -
    have "q < N" using that(2) up by (meson not_le)
    then show ?thesis using Suc.prems that(1) by (intro Suc.IH) simp_all
  qed
  let ?turn = "\<lambda>batch. script_bind (sample rl batch) (\<lambda>_. script_bind (script_get turn_over) (\<lambda>over. if over then script_return batch
     else script_bind (script_get (\<lambda>s. pause (a_interval (k_args s)) (a_seconds (k_args s)) (s_elapsed (k_report s)))) (\<lambda>p.
       script_bind (script_lift p) (\<lambda>v. script_bind (sleep v) (\<lambda>_. soak_loop fuel rl)))))"
  have turn: "sure (?R q) (?turn batch) ?Q" if "p \<le> q" "answered process rl ''batch'' batch" for q batch
    by (rule sure_turn [OF ob args that(2) next_turn [OF that(1)]])
  have due: "sure (?R p) (script_bind (if due then maintain fuel rl batch else script_return ()) (\<lambda>_. ?turn batch)) ?Q"
    if "answered process rl ''batch'' batch" for due batch
  proof -
    have "1 \<le> fuel" using Suc.prems by simp
    note maintain = script_ok_bind [OF sure_maintain [OF ob assms(2) this that] turn [of "p + 2", OF _ that]]
    note skip = script_ok_bind [OF sure_return turn [of p, OF _ that]]
    show ?thesis by (cases due) (simp_all add: maintain skip)
  qed
  have produce: "sure (?R p) (produce rl ''batch'' PNone) (\<lambda>v s. ?R p s \<and> answered process rl ''batch'' v)"
    by (rule sure_produce [OF ob]) simp
  have every: "is_ok (maintenance_due s)" if "?R p s" for s using that args by (auto simp: maintenance_due_def ready_def soak_arguments_ok_def)
  show ?case
    unfolding soak_loop.simps
    by (rule script_ok_bind, rule produce, rule script_ok_fact, rule script_ok_bind, rule sure_count [OF ob], assumption,
        rule sure_get [where B = is_ok], rule every, assumption, rule sure_lift, assumption, rule due)
qed simp

subsection \<open>The run\<close>

lemma sure_set_up:
  assumes ob: "obliging rl b process" and "steady clock" and "1 \<le> fuel"
  shows "sure (ready a process clock start p) (set_up fuel rl) (\<lambda>_. ready a process clock start (p + 2))"
proof -
  have pin: "sure (ready a process clock start p) pin_images (\<lambda>_. ready a process clock start p)"
    unfolding pin_images_def
    by (rule sure_run [OF ob], rule sure_run [OF ob], rule sure_run [OF ob], rule sure_get [where B = "\<lambda>_. True"], simp, rule sure_run [OF ob],
        rule sure_get [where B = "\<lambda>_. True"], simp, rule sure_run [OF ob], rule sure_modify) (auto simp: ready_def, blast)
  have register: "sure (ready a process clock start q) (produce rl ''register'' PNone) (\<lambda>_. ready a process clock start q)" for q
    by (rule script_ok_weaken [OF sure_produce [OF ob]]) auto
  show ?thesis
    unfolding set_up_def
    by (rule script_ok_bind, rule pin, rule sure_get [where B = "\<lambda>_. True"], simp, rule script_ok_bind, rule sure_each, rule sure_run [OF ob], rule sure_return,
        rule script_ok_bind, rule sure_start_engine [OF assms], rule script_ok_bind, rule sure_rpc [OF ob], rule script_ok_bind, rule sure_workers [OF ob],
        rule script_ok_bind, rule register, rule sure_return)
qed

lemma sure_body:
  assumes ob: "obliging rl (a_max_disk_mib a * 1024 * 1024) process" and clock: "steady clock" and args: "soak_arguments_ok a"
    and up: "\<forall>j\<ge>N. num_le (PInt (a_seconds a)) (PFloat (float_sub (clock j) (clock 3)))" and fuel: "N + 2 \<le> fuel"
  shows "sure (ready a process clock start 1) (soak_body fuel rl) (\<lambda>_ s. \<exists>q. ready a process clock (clock 3) q s)"
proof -
  let ?R = "ready a process clock (clock 3)"
  have set_up: "sure (ready a process clock start 1) (set_up fuel rl) (\<lambda>_. ready a process clock start 3)"
    using sure_set_up [OF ob clock, of fuel a start 1] fuel by (simp add: numeral_3_eq_3)
  have begin_time: "sure (ready a process clock start 4) (script_modify (\<lambda>s. s\<lparr>k_started := clock 3\<rparr>)) (\<lambda>_. ?R 4)"
    by (rule script_ok_modify) (simp add: ready_def)
  have tick: "sure (ready a process clock start 3) monotonic (\<lambda>t s. ready a process clock start 4 s \<and> t = clock 3)"
    using sure_monotonic [of a process clock start 3] by simp
  have "sure (?R q) (if none then maintain fuel rl batch else script_return ()) (\<lambda>_ s. \<exists>q. ?R q s)" if "answered process rl ''batch'' batch" for none q batch
    by (rule script_ok_if, rule script_ok_weaken [OF sure_maintain [OF ob clock _ that]]) (use fuel in \<open>auto intro: script_ok_return\<close>)
  then have maintain: "sure (\<lambda>s. \<exists>q. ?R q s) (if none then maintain fuel rl batch else script_return ()) (\<lambda>_ s. \<exists>q. ?R q s)"
    if "answered process rl ''batch'' batch" for none batch using that by (intro script_ok_ex)
  have get: "sure (\<lambda>s. \<exists>q. ?R q s) (script_get f) (\<lambda>_ s. \<exists>q. ?R q s)" for f :: "soak \<Rightarrow> bool" by (rule script_ok_get)
  have passed: "sure (\<lambda>s. \<exists>q. ?R q s) (set_report (\<lambda>r. r\<lparr>s_status := ''passed''\<rparr>)) (\<lambda>_ s. \<exists>q. ?R q s)"
    unfolding set_report_def by (rule script_ok_modify) (auto simp: ready_def)
  show ?thesis
    unfolding soak_body_def
    by (rule script_ok_bind, rule set_up, rule script_ok_bind, rule sure_report, simp, rule script_ok_bind, rule tick, rule script_ok_fact, hypsubst,
        rule script_ok_bind, rule begin_time, rule script_ok_bind, rule sure_loop [OF ob clock args up])
      (use fuel in \<open>auto intro!: script_ok_fact script_ok_bind [OF get] script_ok_bind [OF maintain passed]\<close>)
qed

lemma sure_clean_up:
  assumes ob: "obliging rl b process"
  shows "sure (ready a process clock start q) clean_up (\<lambda>_ _. True)"
proof -
  have save: "sure P save (\<lambda>_ _. True)" for P unfolding save_def by (rule script_ok_modify) simp
  show ?thesis
    unfolding clean_up_def
    by (rule script_ok_bind, rule sure_elapsed, rule script_ok_fact, rule script_ok_bind, rule sure_report, simp, rule sure_get [where B = "\<lambda>_. True"], simp,
        rule script_ok_bind, rule sure_each, rule script_ok_bind, rule sure_unchecked [OF ob], rule sure_logs [OF ob], rule save)
qed

lemma soak_returns:
  assumes ob: "obliging rl (a_max_disk_mib a * 1024 * 1024) process" and "steady clock" and "soak_arguments_ok a"
    and "\<forall>j\<ge>N. num_le (PInt (a_seconds a)) (PFloat (float_sub (clock j) (clock 3)))" and "N + 2 \<le> fuel"
  shows "\<exists>s. soak_run fuel rl (soak_init a n process clock) = (Done (), s)"
proof -
  have "a = a\<lparr>a_image := a_image a, a_worker_image := a_worker_image a\<rparr>" by simp
  then have "\<exists>i w. a = a\<lparr>a_image := i, a_worker_image := w\<rparr>" by blast
  then have init: "ready a process clock (clock 0) 1 (soak_start a n process clock)"
    by (auto simp: ready_def soak_start_def soak_init_def intro: exI [of _ 0])
  obtain t q where t: "soak_body fuel rl (soak_start a n process clock) = (Done (), t)" "ready a process clock (clock 3) q t"
    using script_sureD [OF sure_body [OF assms] init] by auto
  moreover obtain s where "clean_up t = (Done (), s)"
    using script_sureD [OF sure_clean_up [OF ob] t(2)] by auto
  ultimately show ?thesis by (simp add: soak_run_start)
qed

subsection \<open>A sample environment\<close>

definition sample_process :: "nat \<Rightarrow> docker_command \<Rightarrow> process" where
  "sample_process i c = Exited 0
     (case c of
        EngineHealth \<Rightarrow> str ''healthy''
      | RunProducer action _ _ \<Rightarrow>
          str (if action = ''batch'' then ''TAY_SOAK_JSON={\"uds\":{\"jobs\":8,\"witness\":1,\"schedule_last_at\":5}}''
               else if action = ''seed'' then ''TAY_SOAK_JSON={\"uds\":{}}'' else ''TAY_SOAK_JSON={}'')
      | Rpc _ \<Rightarrow> str ''TAY_SOAK_JSON={}''
      | ColdCopy _ _ _ _ \<Rightarrow> str ''TAY_SOAK_JSON={}''
      | EngineStats \<Rightarrow> str ''{}''
      | DiskUsage \<Rightarrow> str ''5 /var/lib/tay''
      | _ \<Rightarrow> [])"

definition sample_names :: soak_names where
  "sample_names = \<lparr>n_prefix = str ''tay-soak-1'', n_output = str ''/out'', n_repo = str ''/tay''\<rparr>"

definition sample_soak :: soak_args where
  "sample_soak = \<lparr>a_image = str ''tay:soak'', a_worker_image = str ''tay-worker:rc3'', a_seconds = 2, a_interval = Flt 1,
     a_maintenance_every = 1, a_max_disk_mib = 1\<rparr>"

definition sample_clock :: "nat \<Rightarrow> pyfloat" where
  "sample_clock i = Flt (of_nat (min i 20))"

lemmas answer_eval = str_def py_strip_def is_space_def splitlines_def line_break_def decoded_def MARKER_def partition_at_def
  plain_pairs_def Let_def

lemma sample_answers:
  "decoded 9 (py_strip (str ''TAY_SOAK_JSON={}'')) = Inr (PDict [])"
  "decoded 9 (py_strip (str ''TAY_SOAK_JSON={\"uds\":{}}'')) = Inr (PDict [(skey ''uds'', PDict [])])"
  "decoded 9 (py_strip (str ''TAY_SOAK_JSON={\"uds\":{\"jobs\":8,\"witness\":1,\"schedule_last_at\":5}}''))
     = Inr (PDict [(skey ''uds'', PDict [(skey ''jobs'', PInt 8), (skey ''witness'', PInt 1), (skey ''schedule_last_at'', PInt 5)])])"
  "json_loads plain_pairs plain_constant 9 (py_strip (str ''{}'')) = Inr (PDict [])"
  "data_bytes (py_strip (str ''5 /var/lib/tay'')) = Inr 5120" "py_strip (str ''healthy'') = str ''healthy''"
  by (simp_all add: answer_eval scan_eval json_eval data_bytes_def py_int_def decimal_value_def decimal_zeros_def dec_value_def)

lemma to_double_small: "0 \<le> n \<Longrightarrow> n < 2 ^ 53 \<Longrightarrow> to_double (of_int n) = Flt (of_int n)"
  using float_of_int_small [of n] by (simp add: float_of_int_def finite_or_overflow_def split: if_splits)

lemma sample_steady: "steady sample_clock"
proof -
  have "float_add (Flt (of_nat n)) (Flt 90) = Flt (of_nat n + 90)" if "n \<le> 20" for n
    using that to_double_small [of "int n + 90"] by (simp add: float_add_def)
  then have "float_add (sample_clock i) (Flt 90) = Flt (of_nat (min i 20) + 90)" for i by (simp add: sample_clock_def)
  then show ?thesis by (auto simp: steady_def num_less_def sample_clock_def)
qed

lemma sample_obliging: "obliging 9 (a_max_disk_mib sample_soak * 1024 * 1024) sample_process"
proof -
  have answers: "\<exists>out. sample_process i c = Exited 0 out \<and> answer_ok 9 (a_max_disk_mib sample_soak * 1024 * 1024) c (py_strip out)" for i c
    by (cases c) (simp_all add: sample_process_def sample_answers is_ok_iff, simp_all add: answer_ok_def sample_soak_def)
  let ?batch = "PDict [(skey ''uds'', PDict [(skey ''jobs'', PInt 8), (skey ''witness'', PInt 1), (skey ''schedule_last_at'', PInt 5)])]"
  let ?probes = "PDict [(skey ''uds'', PDict [(skey ''witness'', PInt 1), (skey ''schedule_last_at'', PInt 5)])]"
  have batch: "answered sample_process 9 ''batch'' v \<Longrightarrow> v = ?batch" for v
    by (simp add: answered_def sample_process_def sample_answers)
  have seed: "answered sample_process 9 ''seed'' v \<Longrightarrow> v = PDict [(skey ''uds'', PDict [])]" for v
    by (simp add: answered_def sample_process_def sample_answers)
  have jobs: "batch_jobs ?batch = Inr (PInt 8)" by (simp add: batch_jobs_def counted_def item_def)
  have probes: "with_evidence ?batch (PDict [(skey ''uds'', PDict [])]) = Inr ?probes"
    by (simp add: with_evidence_def add_evidence_def batch_row_def item_def str_def)
  have sent: "is_ok (spaced_json (if truthy ?probes then ?probes else PDict []))" by (simp add: is_ok_iff json_eval ascii_string_def)
  show ?thesis
    unfolding obliging_def using answers jobs probes sent by (blast dest: batch seed)
qed

lemma sample_time: "\<forall>j\<ge>5. num_le (PInt (a_seconds sample_soak)) (PFloat (float_sub (sample_clock j) (sample_clock 3)))"
proof (intro allI impI)
  fix j :: nat assume j: "5 \<le> j"
  let ?m = "min j 20"
  have "float_sub (sample_clock j) (sample_clock 3) = to_double (of_int (int ?m - 3))"
    using j by (simp add: sample_clock_def float_sub_def float_add_def of_nat_diff)
  also have "\<dots> = Flt (of_int (int ?m - 3))"
    using j by (intro to_double_small) auto
  finally show "num_le (PInt (a_seconds sample_soak)) (PFloat (float_sub (sample_clock j) (sample_clock 3)))"
    using j by (simp add: num_le_def sample_soak_def)
qed

lemma sample_arguments: "soak_arguments_ok sample_soak"
  by (simp add: soak_arguments_ok_def sample_soak_def num_less_def)

subsection \<open>The claims\<close>

text \<open>C19: A run that passes has run for its whole time and has saved a report with the verdict, every sample of
  the data was within the budget, and it replaced the engine at least once: the maintenances are
  numbered from one on in its events, as many as the report counts and as cold copies were started.\<close>

theorem soak_passed_sound:
  assumes "soak_run fuel rl (soak_init a n process clock) = (Done (), s)"
  shows "k_saved s \<noteq> [] \<and> s_status (last (k_saved s)) = ''passed''
    \<and> (\<exists>r\<in>set (k_saved s). num_le (PInt (a_seconds a)) (s_elapsed r))
    \<and> within_budget (a_max_disk_mib a * 1024 * 1024) (k_events s)
    \<and> 1 \<le> s_maintenance (last (k_saved s))
    \<and> maintenance_numbers (k_events s) = map (Some \<circ> PInt) [1..s_maintenance (last (k_saved s))]
    \<and> int (length (filter is_copy (k_log s))) = s_maintenance (last (k_saved s))"
  using soak_done [OF assms] by (auto simp: audited_def ledger_of_def)

theorem soak_passed_sound_witness:
  "\<exists>s. soak_run 7 9 (soak_init sample_soak sample_names sample_process sample_clock) = (Done (), s) \<and> 1 \<le> s_maintenance (last (k_saved s))
     \<and> within_budget 1048576 (k_events s)"
proof -
  obtain s where s: "soak_run 7 9 (soak_init sample_soak sample_names sample_process sample_clock) = (Done (), s)"
    using soak_returns [OF sample_obliging sample_steady sample_arguments sample_time, of 7 sample_names] by auto
  with soak_passed_sound [OF s] show ?thesis by (auto simp: sample_soak_def)
qed



end
