(* ===== verification/SoakChannel.thy ===== *)
theory SoakChannel
  imports Soak
begin

section \<open>What a producer emits is what the controller decodes\<close>

text \<open>
  The channel between the roles of the soak test: a line of the output of a process that starts with
  a marker and continues with JSON. The text survives \<^verbatim>\<open>strip\<close> and \<^verbatim>\<open>splitlines\<close> because it holds
  printable ASCII characters only, and the decoder reads the default separators back.
\<close>

subsection \<open>Strings\<close>

text \<open>Code points that Unicode text can hold.\<close>

definition plain_text :: "pystr \<Rightarrow> bool" where
  "plain_text s = list_all (\<lambda>c. c < 0x110000 \<and> \<not> is_surrogate c) s"

lemma hex4_u_escape: "n < 65536 \<Longrightarrow> hex4 (drop 2 (u_escape n) @ r) = Some (n, r)"
proof -
  assume n: "n < 65536"
  have hex: "hex_value (hex_digit (m mod 16)) = Some (m mod 16)" for m by (rule hex_value_hex_digit) simp
  have "n div 4096 mod 16 * 4096 + n div 256 mod 16 * 256 + n div 16 mod 16 * 16 + n mod 16 = n"
  proof -
    have "n div 16 div 16 = n div 256" "n div 256 div 16 = n div 4096" by (simp_all flip: div_mult2_eq)
    moreover have "n div 4096 mod 16 = n div 4096" using n by simp
    ultimately show ?thesis
      using div_mult_mod_eq [of n 16] div_mult_mod_eq [of "n div 16" 16] div_mult_mod_eq [of "n div 256" 16] by linarith
  qed
  moreover have "hex4 ([hex_digit (m1 mod 16), hex_digit (m2 mod 16), hex_digit (m3 mod 16), hex_digit (m4 mod 16)] @ r)
      = Some (m1 mod 16 * 4096 + m2 mod 16 * 256 + m3 mod 16 * 16 + m4 mod 16, r)" for m1 m2 m3 m4
    by (simp add: hex4_def hex)
  moreover have "drop 2 (u_escape n) = [hex_digit (n div 4096 mod 16), hex_digit (n div 256 mod 16), hex_digit (n div 16 mod 16), hex_digit (n mod 16)]"
    by (simp add: u_escape_def)
  ultimately show ?thesis by (simp only:)
qed

lemma u_escape_split: "u_escape n = 92 # 117 # drop 2 (u_escape n)"
  by (simp add: u_escape_def)

lemma scan_u_escape:
  assumes "n < 65536" and "\<not> is_surrogate n"
  shows "scan_string (u_escape n @ s) = (case scan_string s of None \<Rightarrow> None | Some (t, r) \<Rightarrow> Some (n # t, r))"
proof -
  have "unescape (117 # drop 2 (u_escape n) @ s) = Some (n, s)"
    using hex4_u_escape [OF assms(1), of s] assms(2) by (auto simp: unescape_def unescape_unicode_def is_surrogate_def)
  then show ?thesis by (subst u_escape_split) simp
qed

lemma unescape_pair:
  assumes "0xD800 \<le> h" "h \<le> 0xDBFF" "0xDC00 \<le> l" "l \<le> 0xDFFF"
  shows "unescape (117 # drop 2 (u_escape h) @ u_escape l @ s) = Some (0x10000 + (h - 0xD800) * 1024 + (l - 0xDC00), s)"
proof -
  have "hex4 (drop 2 (u_escape h) @ u_escape l @ s) = Some (h, 92 # 117 # drop 2 (u_escape l) @ s)"
    using hex4_u_escape [of h "(92 # 117 # drop 2 (u_escape l)) @ s"] assms(2) unfolding u_escape_split [of l, symmetric] by simp (rule u_escape_split)
  moreover have "hex4 (drop 2 (u_escape l) @ s) = Some (l, s)" using assms by (intro hex4_u_escape) simp
  ultimately show ?thesis using assms by (simp add: unescape_def unescape_unicode_def)
qed

lemma scan_u_pair:
  assumes "65536 \<le> c" and "c < 0x110000"
  shows "scan_string (u_escape (0xD800 + (c - 65536) div 1024) @ u_escape (0xDC00 + (c - 65536) mod 1024) @ s)
    = (case scan_string s of None \<Rightarrow> None | Some (t, r) \<Rightarrow> Some (c # t, r))"
proof -
  define h where "h = 0xD800 + (c - 65536) div 1024"
  define l where "l = 0xDC00 + (c - 65536) mod 1024"
  have "(c - 65536) div 1024 \<le> 1023" using assms(2) by simp
  then have h: "0xD800 \<le> h" "h \<le> 0xDBFF" by (simp_all add: h_def)
  have "(c - 65536) mod 1024 \<le> 1023" by (simp flip: less_Suc_eq_le)
  then have l: "0xDC00 \<le> l" "l \<le> 0xDFFF" by (simp_all add: l_def)
  have "0x10000 + (h - 0xD800) * 1024 + (l - 0xDC00) = c" using assms(1) by (simp add: h_def l_def)
  then have "unescape (117 # drop 2 (u_escape h) @ u_escape l @ s) = Some (c, s)" using unescape_pair [OF h l, of s] by simp
  then show ?thesis unfolding h_def [symmetric] l_def [symmetric] by (subst u_escape_split) simp
qed

lemma scan_ascii_char:
  assumes "c < 0x110000" and "\<not> is_surrogate c"
  shows "scan_string (concat (map ascii_escape (escape_char c)) @ s) = (case scan_string s of None \<Rightarrow> None | Some (t, r) \<Rightarrow> Some (c # t, r))"
proof (cases "c < 127")
  case True
  have "hex_digit m < 127" if "m < 16" for m using that by (simp add: hex_digit_def)
  then have "\<forall>x\<in>set (escape_char c). x < 127" using True by (auto simp: escape_char_def)
  then have "concat (map ascii_escape (escape_char c)) = concat (map (\<lambda>x. [x]) (escape_char c))"
    by (intro arg_cong [where f = concat] map_cong) (simp_all add: ascii_escape_def)
  then show ?thesis by (simp add: scan_escape_char)
next
  case False
  then have "escape_char c = [c]" by (simp add: escape_char_def)
  with False show ?thesis using scan_u_escape [of c s] scan_u_pair [of c s] assms by (auto simp: ascii_escape_def)
qed

lemma scan_ascii_string:
  assumes "plain_text s"
  shows "scan_string (tl (ascii_string s) @ r) = Some (s, r)" "ascii_string s = 34 # tl (ascii_string s)"
proof -
  have "scan_string (concat (map ascii_escape (escape s)) @ 34 # r) = Some (s, r)"
    using assms by (induction s) (simp_all add: plain_text_def escape_def scan_ascii_char)
  then show "scan_string (tl (ascii_string s) @ r) = Some (s, r)" by (simp add: ascii_string_def json_string_def ascii_escape_def)
  show "ascii_string s = 34 # tl (ascii_string s)" by (simp add: ascii_string_def json_string_def ascii_escape_def)
qed

subsection \<open>Values\<close>

fun plain_value :: "pyval \<Rightarrow> bool" where
  "plain_value (PStr s) = plain_text s"
| "plain_value (PList xs) = (\<forall>x\<in>set xs. plain_value x)"
| "plain_value (PDict d) = (\<forall>p\<in>set d. plain_text (key_str (fst p)) \<and> plain_value (snd p))"
| "plain_value _ = True"

text \<open>Values that JSON can hold.\<close>

definition sendable :: "pyval \<Rightarrow> bool" where
  "sendable v \<longleftrightarrow> json_ok v \<and> plain_value v"

lemma spaced_hd:
  assumes "spaced_json v = Inr t" and "json_ok v"
  shows "t \<noteq> [] \<and> \<not> is_ws (hd t) \<and> hd t \<noteq> 93 \<and> hd t \<noteq> 125"
proof (cases v)
  case (PInt i)
  with assms int_repr_hd [of i t] show ?thesis by (auto simp: is_digit_def is_ws_def)
next
  case (PFloat x)
  with assms float_repr_hd [of x] show ?thesis by (auto simp: is_digit_def is_ws_def)
qed (use assms in \<open>auto simp: rbind_eq_Inr str_def is_ws_def ascii_string_def json_string_def ascii_escape_def split: if_splits\<close>)

lemma sendable_simps [simp]:
  "sendable (PList xs) \<longleftrightarrow> (\<forall>x\<in>set xs. sendable x)" "sendable (PStr s) \<longleftrightarrow> plain_text s" "\<not> sendable (PTuple xs)"
  by (auto simp: sendable_def)

lemma sendable_PDict:
  "sendable (PDict d) \<longleftrightarrow> distinct (map fst d) \<and> (\<forall>p\<in>set d. (\<exists>s. fst p = PStr s \<and> plain_text s) \<and> sendable (snd p))"
  by (auto simp: sendable_def) fastforce+

text \<open>One element and one member, followed by the end or by another.\<close>

lemma pelems_steps:
  assumes "t \<noteq> []"
  shows "pvalue h k rl (t @ 93 # r) = Inr (v, 93 # r) \<Longrightarrow> pelems h k rl acc (t @ 93 # r) = Inr (PList (acc @ [v]), r)"
    "pvalue h k rl (t @ 44 # 32 # u) = Inr (v, 44 # 32 # u) \<Longrightarrow> skip_ws u = u \<Longrightarrow>
     pelems h k rl acc (t @ 44 # 32 # u) = pelems h k rl (acc @ [v]) u"
  using assms by (simp_all add: pelems.simps [of h k rl acc] skip_ws_def is_ws_def)

lemma pmembers_steps:
  assumes "plain_text s" and "t \<noteq> []" "\<not> is_ws (hd t)"
  shows "pvalue h k rl (t @ 125 # r) = Inr (v, 125 # r) \<Longrightarrow>
     pmembers h k rl acc (ascii_string s @ [58, 32] @ t @ 125 # r) = rbind (h (acc @ [(s, v)])) (\<lambda>w. Inr (w, r))"
    "pvalue h k rl (t @ 44 # 32 # u) = Inr (v, 44 # 32 # u) \<Longrightarrow> skip_ws u = u \<Longrightarrow>
     pmembers h k rl acc (ascii_string s @ [58, 32] @ t @ 44 # 32 # u) = pmembers h k rl (acc @ [(s, v)]) u"
proof -
  have skip: "skip_ws (t @ w) = t @ w" for w using assms(2,3) by (intro skip_ws_id) simp
  have string: "ascii_string s = 34 # tl (ascii_string s)" "scan_string (tl (ascii_string s) @ w) = Some (s, w)" for w
    using scan_ascii_string [OF assms(1)] by blast+
  show "pvalue h k rl (t @ 125 # r) = Inr (v, 125 # r) \<Longrightarrow>
     pmembers h k rl acc (ascii_string s @ [58, 32] @ t @ 125 # r) = rbind (h (acc @ [(s, v)])) (\<lambda>w. Inr (w, r))"
    "pvalue h k rl (t @ 44 # 32 # u) = Inr (v, 44 # 32 # u) \<Longrightarrow> skip_ws u = u \<Longrightarrow>
     pmembers h k rl acc (ascii_string s @ [58, 32] @ t @ 44 # 32 # u) = pmembers h k rl (acc @ [(s, v)]) u"
    using skip by (subst string(1), subst pmembers.simps, simp add: string(2) skip_ws_def is_ws_def)+
qed

lemma pvalue_ascii: "plain_text s \<Longrightarrow> pvalue h k rl (ascii_string s @ r) = Inr (PStr s, r)"
  by (subst scan_ascii_string(2)) (simp_all add: pvalue.simps scan_ascii_string(1))

lemma elements_hd: "spaced_elements (v # vs) = Inr t \<Longrightarrow> json_ok v \<Longrightarrow> t \<noteq> [] \<and> \<not> is_ws (hd t) \<and> hd t \<noteq> 93"
  by (auto simp: rbind_eq_Inr split: if_splits dest: spaced_hd)

lemma items_hd: "spaced_items (p # ps) = Inr t \<Longrightarrow> t \<noteq> [] \<and> hd t = 34"
  by (cases p) (auto simp: rbind_eq_Inr ascii_string_def json_string_def ascii_escape_def split: if_splits pyval.splits)

lemma pvalue_list:
  assumes "u = [] \<and> xs = [] \<or> u \<noteq> [] \<and> \<not> is_ws (hd u) \<and> hd u \<noteq> 93 \<and> pelems h k rl [] (u @ 93 # r) = Inr (PList xs, r)"
  shows "pvalue h k (Suc rl) (91 # u @ 93 # r) = Inr (PList xs, r)"
proof (cases "u = []")
  case True
  with assms show ?thesis by (simp add: pvalue.simps skip_ws_def is_ws_def starts_with_def str_def)
next
  case False
  with assms have "skip_ws (u @ 93 # r) = u @ 93 # r" "\<not> starts_with '']'' (u @ 93 # r)"
    by (auto intro!: skip_ws_id simp: starts_with_def str_def take_Cons' neq_Nil_conv)
  with assms False show ?thesis by (simp add: pvalue.simps)
qed

lemma pvalue_dict:
  assumes "h (pairs_of d) = Inr (PDict d)"
    and "u = [] \<and> d = [] \<or> u \<noteq> [] \<and> hd u = 34 \<and> pmembers h k rl [] (u @ 125 # r) = rbind (h (pairs_of d)) (\<lambda>w. Inr (w, r))"
  shows "pvalue h k (Suc rl) (123 # u @ 125 # r) = Inr (PDict d, r)"
proof (cases "u = []")
  case True
  with assms show ?thesis by (simp add: pvalue.simps skip_ws_def is_ws_def starts_with_def str_def pairs_of_def)
next
  case False
  with assms have "skip_ws (u @ 125 # r) = u @ 125 # r" "\<not> starts_with ''}'' (u @ 125 # r)"
    by (auto intro!: skip_ws_id simp: is_ws_def starts_with_def str_def take_Cons' neq_Nil_conv)
  with assms False show ?thesis by (simp add: pvalue.simps)
qed

lemma pvalue_spaced_all:
  assumes h: "keeps_pairs h"
  shows "\<lbrakk>spaced_json v = Inr t; sendable v; jdepth v \<le> rl; num_end r\<rbrakk> \<Longrightarrow> pvalue h k rl (t @ r) = Inr (v, r)"
    and "\<lbrakk>spaced_elements vs = Inr t; vs \<noteq> []; \<forall>v\<in>set vs. sendable v \<and> jdepth v \<le> rl\<rbrakk>
           \<Longrightarrow> pelems h k rl acc (t @ 93 # r) = Inr (PList (acc @ vs), r)"
    and "\<lbrakk>spaced_items d = Inr t; d \<noteq> []; \<forall>p\<in>set d. (\<exists>s. fst p = PStr s \<and> plain_text s) \<and> sendable (snd p) \<and> jdepth (snd p) \<le> rl\<rbrakk>
           \<Longrightarrow> pmembers h k rl pacc (t @ 125 # r) = rbind (h (pacc @ pairs_of d)) (\<lambda>w. Inr (w, r))"
proof (induction v and vs and d arbitrary: t rl r and t rl r acc and t rl r pacc
    rule: spaced_json_spaced_elements_spaced_items.induct)
  case (3 i)
  then show ?case using int_repr_hd [of i t] scan_number_int [of i t r] by (intro pvalue_number) auto
next
  case (4 x)
  then have t: "t = float_repr x" and x: "float_ok x" "isfinite x" by (auto simp: sendable_def)
  show ?case unfolding t using float_repr_hd [OF x] scan_number_float [OF x 4(4)] by (intro pvalue_number) auto
next
  case (6 xs)
  then obtain u where u: "spaced_elements xs = Inr u" and t: "t = 91 # u @ [93]" by (auto simp: rbind_eq_Inr)
  obtain rl' where rl: "rl = Suc rl'" and d: "\<forall>x\<in>set xs. jdepth x \<le> rl'" using 6(4) unfolding jdepth_PList by (cases rl) auto
  have "u = [] \<and> xs = [] \<or> u \<noteq> [] \<and> \<not> is_ws (hd u) \<and> hd u \<noteq> 93 \<and> pelems h k rl' [] (u @ 93 # r) = Inr (PList xs, r)"
    using u elements_hd [of "hd xs" "tl xs" u] 6(1) [OF u, of rl' "[]" r] 6(3) d by (cases xs) (auto simp: sendable_def)
  then show ?case using pvalue_list by (simp add: t rl)
next
  case (8 d)
  then obtain u where u: "spaced_items d = Inr u" and t: "t = 123 # u @ [125]" by (auto simp: rbind_eq_Inr)
  obtain rl' where rl: "rl = Suc rl'" and dp: "\<forall>p\<in>set d. jdepth (snd p) \<le> rl'" using 8(4) unfolding jdepth_PDict by (cases rl) auto
  have "\<forall>p\<in>set d. \<exists>s. fst p = PStr s" "distinct (map fst d)" using 8(3) by (auto simp: sendable_PDict)
  then have hd: "h (pairs_of d) = Inr (PDict d)"
    using h distinct_pairs_of [of d] pairs_of_inverse [of d] by (auto simp: keeps_pairs_def)
  have "u = [] \<and> d = [] \<or> u \<noteq> [] \<and> hd u = 34 \<and> pmembers h k rl' [] (u @ 125 # r) = rbind (h (pairs_of d)) (\<lambda>w. Inr (w, r))"
    using u items_hd [of "hd d" "tl d" u] 8(1) [OF u, of rl' "[]" r] 8(3) dp by (cases d) (auto simp: sendable_PDict)
  then show ?case using pvalue_dict [of h d u k rl' r] hd by (simp add: t rl)
next
  case (11 v vs)
  then obtain t1 where t1: "spaced_json v = Inr t1" by (auto simp: rbind_eq_Inr)
  have v: "sendable v" "jdepth v \<le> rl" using 11(5) by auto
  have ne: "t1 \<noteq> []" using spaced_hd [OF t1] v by (auto simp: sendable_def)
  show ?case
  proof (cases "vs = []")
    case True
    then show ?thesis using 11(1) [OF t1 v] num_end_delim 11(3) t1 pelems_steps(1) [OF ne] by simp
  next
    case False
    then obtain t2 where t2: "spaced_elements vs = Inr t2" and t: "t = t1 @ 44 # 32 # t2" using 11(3) t1 by (auto simp: rbind_eq_Inr)
    have "t2 \<noteq> [] \<and> \<not> is_ws (hd t2)" using False t2 elements_hd [of "hd vs" "tl vs" t2] 11(5) by (cases vs) (auto simp: sendable_def)
    then have "skip_ws (t2 @ 93 # r) = t2 @ 93 # r" by (intro skip_ws_id) simp
    with 11(1) [OF t1 v] num_end_delim have "pelems h k rl acc (t @ 93 # r) = pelems h k rl (acc @ [v]) (t2 @ 93 # r)"
      using pelems_steps(2) [OF ne] by (simp add: t)
    then show ?thesis using 11(2) [OF t1 False t2 False] 11(5) by simp
  qed
next
  case (13 key v d)
  then obtain s where key: "key = PStr s" "plain_text s" by auto
  then obtain t1 where t1: "spaced_json v = Inr t1" using 13(3) by (auto simp: rbind_eq_Inr)
  have v: "sendable v" "jdepth v \<le> rl" using 13(5) by auto
  have ne: "t1 \<noteq> []" "\<not> is_ws (hd t1)" using spaced_hd [OF t1] v by (auto simp: sendable_def)
  show ?case
  proof (cases "d = []")
    case True
    then show ?thesis using 13(1) [OF key(1) t1 v] num_end_delim 13(3) t1 key pmembers_steps(1) [OF key(2) ne] by (auto simp: pairs_of_def)
  next
    case False
    then obtain t2 where t2: "spaced_items d = Inr t2" and t: "t = ascii_string s @ [58, 32] @ t1 @ 44 # 32 # t2"
      using 13(3) t1 key by (auto simp: rbind_eq_Inr)
    have "t2 \<noteq> [] \<and> hd t2 = 34" using False t2 items_hd by (cases d) auto
    then have "skip_ws (t2 @ 125 # r) = t2 @ 125 # r" by (intro skip_ws_id) (simp add: is_ws_def)
    with 13(1) [OF key(1) t1 v] num_end_delim have "pmembers h k rl pacc (t @ 125 # r) = pmembers h k rl (pacc @ [(s, v)]) (t2 @ 125 # r)"
      using pmembers_steps(2) [OF key(2) ne] by (simp add: t)
    then show ?thesis using 13(2) [OF key(1) t1 False t2 False] 13(5) key by (simp add: pairs_of_def)
  qed
qed (auto simp: pvalue_literal pvalue_ascii)

subsection \<open>Lines\<close>

definition printable :: "pystr \<Rightarrow> bool" where
  "printable s = list_all (\<lambda>c. 32 \<le> c \<and> c < 127) s"

lemma printable_simps [simp]:
  "printable []" "printable (c # s) \<longleftrightarrow> 32 \<le> c \<and> c < 127 \<and> printable s" "printable (s @ t) \<longleftrightarrow> printable s \<and> printable t"
  "printable (replicate n c) \<longleftrightarrow> n = 0 \<or> 32 \<le> c \<and> c < 127"
  by (auto simp: printable_def list_all_iff)

lemma printable_concat: "(\<And>c. c \<in> set s \<Longrightarrow> printable (f c)) \<Longrightarrow> printable (concat (map f s))"
  by (induction s) auto

lemma printable_digits: "all_digits ds \<Longrightarrow> printable (digit_text ds)"
  by (auto simp: printable_def list_all_iff digit_text_def)

lemma printable_ascii_string: "printable (ascii_string s)"
proof -
  have hex: "printable [hex_digit (m mod 16)]" for m using mod_less_divisor [of 16 m] by (simp add: hex_digit_def del: mod_less_divisor)
  then have u: "printable (u_escape n)" for n by (simp add: u_escape_def)
  have "32 \<le> x" if "x \<in> set (escape_char c)" for x c using that by (auto simp: escape_char_def hex_digit_def split: if_splits)
  then have "32 \<le> x" if "x \<in> set (json_string s)" for x using that by (auto simp: json_string_def escape_def)
  then show ?thesis unfolding ascii_string_def by (intro printable_concat) (auto simp: ascii_escape_def u)
qed

lemma printable_int: "int_repr i = Inr t \<Longrightarrow> printable t"
  using dec_digits_lt by (auto simp: int_repr_def Let_def str_def intro!: printable_digits split: if_splits)

lemma printable_pos: "printable (pos_repr q)"
proof -
  obtain ds p where dp: "repr_digits q = (ds, p)" by fastforce
  have "\<exists>n. set ds \<subseteq> set (dec_digits n)"
    using dp set_dropWhileD by (fastforce simp: repr_digits_def Let_def split: prod.splits)
  then have ds: "all_digits ds" using dec_digits_lt by blast
  have e: "printable (exponent_text e)" for e
    using dec_digits_lt by (auto simp: exponent_text_def Let_def str_def intro!: printable_digits)
  have "printable (format_repr ds p)"
    using ds e by (auto simp: format_repr_def str_def intro!: printable_digits dest: in_set_takeD in_set_dropD)
  then show ?thesis by (simp add: pos_repr_def dp)
qed

lemma printable_float: "printable (float_repr x)"
  by (cases x) (simp_all add: printable_pos str_def)

lemma spaced_printable:
  "spaced_json v = Inr t \<Longrightarrow> printable t" "spaced_elements vs = Inr t \<Longrightarrow> printable t" "spaced_items d = Inr t \<Longrightarrow> printable t"
proof (induction v and vs and d arbitrary: t and t and t rule: spaced_json_spaced_elements_spaced_items.induct)
  case (3 i)
  then show ?case by (simp add: printable_int)
qed (auto simp: rbind_eq_Inr printable_float printable_ascii_string str_def split: if_splits pyval.splits)

lemma lines_from_append: "lines_from acc (xs @ 10 # ys) = lines_from acc (xs @ [10]) @ lines_from [] ys"
proof (induction acc xs rule: lines_from.induct)
  case (2 acc c r)
  show ?case
  proof (cases r)
    case Nil
    then show ?thesis by (simp add: line_break_def)
  next
    case (Cons d r')
    consider "c = 13" "d = 10" | "\<not> (c = 13 \<and> d = 10)" "line_break c" | "\<not> (c = 13 \<and> d = 10)" "\<not> line_break c" by blast
    then show ?thesis using 2 Cons by cases auto
  qed
qed (simp add: line_break_def)

lemma lines_from_printable: "printable s \<Longrightarrow> s \<noteq> [] \<or> acc \<noteq> [] \<Longrightarrow> lines_from acc s = [rev acc @ s]"
  by (induction s arbitrary: acc) (auto simp: line_break_def)

lemma last_dropped: "dropWhile p xs \<noteq> [] \<Longrightarrow> last (dropWhile p xs) = last xs"
  by (induction xs) auto

lemma strip_line:
  "py_strip (earlier @ MARKER @ 123 # u @ [125, 10]) = dropWhile is_space earlier @ MARKER @ 123 # u @ [125]"
proof -
  have "dropWhile is_space (earlier @ MARKER @ w) = dropWhile is_space earlier @ MARKER @ w" for w
    by (induction earlier) (simp_all add: MARKER_def str_def is_space_def)
  then show ?thesis by (simp add: py_strip_def is_space_def)
qed

lemma decoded_line:
  assumes "printable (123 # u @ [125])" and "earlier = [] \<or> last earlier = 10"
  shows "decoded rl (earlier @ MARKER @ 123 # u @ [125]) = json_loads plain_pairs plain_constant rl (123 # u @ [125])"
proof -
  let ?line = "MARKER @ 123 # u @ [125]"
  have line: "printable ?line" using assms(1) by (simp add: MARKER_def str_def)
  have "\<exists>before_lines. splitlines (earlier @ ?line) = before_lines @ [?line]"
  proof (cases "earlier = []")
    case True
    then show ?thesis using lines_from_printable [OF line, of "[]"] by (simp add: splitlines_def)
  next
    case False
    then have "earlier @ ?line = butlast earlier @ 10 # ?line" using assms(2) by (metis append.assoc append_Cons append_Nil append_butlast_last_id)
    then have "splitlines (earlier @ ?line) = lines_from [] (butlast earlier @ 10 # ?line)" unfolding splitlines_def by (rule arg_cong)
    also have "\<dots> = lines_from [] (butlast earlier @ [10]) @ [?line]"
      unfolding lines_from_append [of "[]" "butlast earlier" ?line] by (simp add: lines_from_printable [OF line])
    finally show ?thesis by blast
  qed
  moreover have "snd (snd (partition_at 61 ?line)) = 123 # u @ [125]" by (simp add: partition_at_def MARKER_def str_def)
  ultimately show ?thesis by (auto simp: decoded_def)
qed

text \<open>C21: What a producer emits as the last line of its output is what the controller decodes from it, whatever
  complete lines come before.\<close>

theorem channel_roundtrip:
  assumes "sendable (PDict d)" and "jdepth (PDict d) \<le> rl" and "emit (PDict d) = Inr line" and "earlier = [] \<or> last earlier = 10"
  shows "decoded rl (py_strip (earlier @ line)) = Inr (PDict d)"
proof -
  from assms(3) obtain u where spaced: "spaced_json (PDict d) = Inr (123 # u @ [125])" and line: "line = MARKER @ 123 # u @ [125, 10]"
    by (auto simp: emit_def rbind_eq_Inr)
  have "last (dropWhile is_space earlier) = 10" if "dropWhile is_space earlier \<noteq> []"
    using that assms(4) last_dropped [of is_space earlier] by auto
  then have "decoded rl (py_strip (earlier @ line)) = json_loads plain_pairs plain_constant rl (123 # u @ [125])"
    using spaced_printable(1) [OF spaced] by (subst line, subst strip_line, intro decoded_line) auto
  moreover have "pvalue plain_pairs plain_constant rl ((123 # u @ [125]) @ []) = Inr (PDict d, [])"
    using assms(1,2) spaced by (intro pvalue_spaced_all(1) [OF keeps_pairs_plain]) (simp_all add: num_end_def)
  ultimately show ?thesis by (simp add: json_loads_def skip_ws_def is_ws_def)
qed

theorem channel_roundtrip_witness:
  "\<exists>line. emit (PDict [(skey ''uds'', PDict [(skey ''jobs'', PInt 8)]), (skey ''http'', PList [PBool True])]) = Inr line
     \<and> decoded 5 (py_strip (str ''x'' @ [10] @ line)) = Inr (PDict [(skey ''uds'', PDict [(skey ''jobs'', PInt 8)]), (skey ''http'', PList [PBool True])])"
proof -
  let ?d = "[(skey ''uds'', PDict [(skey ''jobs'', PInt 8)]), (skey ''http'', PList [PBool True])]"
  have ok: "sendable (PDict ?d)" "jdepth (PDict ?d) \<le> 5" by (simp_all add: sendable_def plain_text_def is_surrogate_def str_def)
  obtain line where line: "emit (PDict ?d) = Inr line" by (simp add: emit_def json_eval ascii_string_def)
  from channel_roundtrip [OF ok line, of "str ''x'' @ [10]"] line show ?thesis by (simp add: str_def)
qed

end
