(* ===== verification/Summary.thy ===== *)
theory Summary
  imports ReleaseRun
begin

section \<open>The summary of a comparison (\<^verbatim>\<open>bench/compare.py\<close>, \<^verbatim>\<open>markdown\<close>)\<close>

text \<open>
  The Markdown text of a comparison, with the three number formats it uses: two decimals with
  thousands separated, two decimals with a sign, and six significant digits. Formatting rounds the
  exact value of a double, half to even; an int is converted to a double first. What \<^verbatim>\<open>str\<close> gives
  for a revision that is not a text is an argument (\<open>shown\<close>). Shown: a summary can be written of every
  comparison, it has a line for every metric, and a printed value is within half a hundredth.
\<close>

subsection \<open>Number formats\<close>

fun commas :: "pystr \<Rightarrow> pystr" where
  "commas (a # b # c # d # r) = a # b # c # 44 # commas (d # r)"
| "commas s = s"

definition grouped :: "pystr \<Rightarrow> pystr" where
  "grouped s = rev (commas (rev s))"

definition hundredths :: "rat \<Rightarrow> nat" where
  "hundredths q = nat (round_half_even (q * 100))"

definition two_decimals :: "bool \<Rightarrow> rat \<Rightarrow> pystr" where
  "two_decimals group_digits q =
     (let n = hundredths q; whole = digit_text (dec_digits (n div 100)) in
      (if group_digits then grouped whole else whole) @ str ''.'' @ digit_text [n mod 100 div 10, n mod 10])"

text \<open>\<^verbatim>\<open>format(x, ",.2f")\<close> and \<^verbatim>\<open>format(x, "+.2f")\<close>.\<close>

definition fixed2 :: "bool \<Rightarrow> bool \<Rightarrow> pyfloat \<Rightarrow> pystr" where
  "fixed2 group_digits always_sign x =
     (if signbit x then str ''-'' else if always_sign then str ''+'' else []) @
     (if x = NaN then str ''nan'' else if \<not> isfinite x then str ''inf'' else two_decimals group_digits \<bar>float_value x\<bar>)"

text \<open>\<^verbatim>\<open>format(x, "g")\<close>: six significant digits without trailing zeros.\<close>

definition significant :: "rat \<Rightarrow> nat \<times> int" where
  "significant q =
     (let e = ilog 10 q; c = round_half_even (q * ipow 10 (5 - e)) in
      if c = 1000000 then (100000, e + 1) else (nat c, e))"

definition general_text :: "rat \<Rightarrow> pystr" where
  "general_text q =
     (case significant q of (c, e) \<Rightarrow>
      let ds = rev (dropWhile (\<lambda>d. d = 0) (rev (dec_digits c))); n = nat (e + 1) in
      if e < - 4 \<or> 6 \<le> e then
        digit_text (take 1 ds) @ (if length ds \<le> 1 then [] else str ''.'' @ digit_text (drop 1 ds)) @ str ''e'' @ exponent_text e
      else if e < 0 then str ''0.'' @ digit_text (replicate (nat (- e - 1)) 0 @ ds)
      else if length ds \<le> n then digit_text (ds @ replicate (n - length ds) 0)
      else digit_text (take n ds) @ str ''.'' @ digit_text (drop n ds))"

definition general :: "pyfloat \<Rightarrow> pystr" where
  "general x =
     (if signbit x then str ''-'' else []) @
     (if x = NaN then str ''nan'' else if \<not> isfinite x then str ''inf''
      else if float_value x = 0 then str ''0'' else general_text \<bar>float_value x\<bar>)"

subsection \<open>\<^verbatim>\<open>markdown\<close>\<close>

definition number :: "pyval option \<Rightarrow> pystr res" where
  "number v = (case v of None \<Rightarrow> Inr (str ''missing'') | Some x \<Rightarrow> rbind (num_float x) (\<lambda>f. Inr (fixed2 True False f)))"

definition change_text :: "row \<Rightarrow> pystr res" where
  "change_text r =
     rbind (case regression_percent r of None \<Rightarrow> Inr (str ''missing'') | Some x \<Rightarrow> rbind (num_float x) (\<lambda>f. Inr (fixed2 False True f @ str ''%''))) (\<lambda>t.
     Inr (t @ (if row_regressed r then str '' **threshold exceeded**'' else [])))"

definition variability_text :: "row \<Rightarrow> pystr res" where
  "variability_text r =
     rbind (number (baseline_mad r)) (\<lambda>b. rbind (number (candidate_mad r)) (\<lambda>c.
     Inr (b @ str ''% / '' @ c @ str ''%'' @ (if row_noisy r then str '' **too noisy**'' else []))))"

definition row_text :: "row \<Rightarrow> pystr res" where
  "row_text r =
     rbind (change_text r) (\<lambda>change.
     rbind (variability_text r) (\<lambda>variability.
     rbind (number (baseline_median r)) (\<lambda>b.
     rbind (number (candidate_median r)) (\<lambda>c.
     Inr (str ''| '' @ str (metric r) @ str '' | '' @ b @ str '' | '' @ c @ str '' | '' @ change @ str '' | '' @ variability @ str '' | ''
       @ int_text (int (baseline_samples r)) @ str ''/'' @ int_text (int (candidate_samples r)) @ str '' |'')))))"

definition NOTES :: string where
  "NOTES = ''Median of trial measurements on the same configuration. Sampling and hosted-runner noise remain; this is not production capacity certification.''"

definition revision_text :: "(pyval \<Rightarrow> pystr) \<Rightarrow> pyval \<Rightarrow> pystr" where
  "revision_text shown v = (case v of PStr s \<Rightarrow> s | _ \<Rightarrow> shown v)"

definition summary_head :: "(pyval \<Rightarrow> pystr) \<Rightarrow> comparison \<Rightarrow> pystr list" where
  "summary_head shown c =
     [str ''# Tay release performance'', [],
      str ''Baseline `'' @ revision_text shown (get_field (identities c) ''baseline_revision'') @ str ''` '' @ [8594] @ str '' candidate `''
        @ revision_text shown (get_field (identities c) ''candidate_revision'') @ str ''`'', [],
      str ''| Metric | Baseline median | Candidate median | Regression | Relative MAD baseline/candidate | Samples |'',
      str ''| --- | ---: | ---: | ---: | ---: | ---: |'']"

definition summary_tail :: "comparison \<Rightarrow> pystr list" where
  "summary_tail c =
     [[], str ''Positive regression means worse; negative means improved.'',
      str ''Relative MAD is median absolute deviation divided by the median; qualification requires each cohort to stay within ''
        @ general (max_relative_mad_percent c) @ str ''% for every metric. No trials are discarded.'', [], str NOTES, []]"

definition markdown_lines :: "(pyval \<Rightarrow> pystr) \<Rightarrow> comparison \<Rightarrow> pystr list res" where
  "markdown_lines shown c = rbind (rmap row_text (metrics c)) (\<lambda>rows. Inr (summary_head shown c @ rows @ summary_tail c))"

definition markdown :: "(pyval \<Rightarrow> pystr) \<Rightarrow> comparison \<Rightarrow> pystr res" where
  "markdown shown c = rbind (markdown_lines shown c) (\<lambda>ls. Inr (join_with 10 ls))"

text \<open>Opening the new file and writing the summary, as \<^verbatim>\<open>main\<close> does.\<close>

definition write_summary :: "(pyval \<Rightarrow> pystr) \<Rightarrow> unit res \<Rightarrow> comparison \<Rightarrow> unit res" where
  "write_summary shown opening c = rbind opening (\<lambda>_. rbind (markdown shown c) (\<lambda>_. Inr ()))"

subsection \<open>A summary can be written of every comparison\<close>

abbreviation formats :: "pyval option \<Rightarrow> bool" where
  "formats v \<equiv> (\<forall>x. v = Some x \<longrightarrow> is_ok (num_float x))"

lemma is_ok_rbindI: "is_ok r \<Longrightarrow> (\<And>x. is_ok (f x)) \<Longrightarrow> is_ok (rbind r f)"
  by (cases r) simp_all

lemma number_ok: "formats v \<Longrightarrow> is_ok (number v)"
  by (cases v) (auto simp: number_def is_ok_iff rbind_eq_Inr)

lemma median_formats:
  assumes "list_all positive_number vs" and "median vs = Inr m"
  shows "is_ok (num_float m)"
proof (cases "odd (length vs)")
  case True
  then have "length vs div 2 < length vs" using odd_pos by fastforce
  moreover have "m = num_sorted vs ! (length vs div 2)" using True assms(2) by (auto simp: median_def Let_def split: if_splits)
  ultimately have "m \<in> set vs" using set_num_sorted [of vs] by (metis length_num_sorted nth_mem)
  then have "positive_number m" using assms(1) by (simp add: list_all_iff)
  then show ?thesis by (cases m) (auto simp: positive_number_def is_ok_iff)
next
  case False
  then obtain x where "num_div x (PInt 2) = Inr m" using assms(2) by (auto simp: median_def Let_def rbind_eq_Inr split: if_splits)
  then show ?thesis using num_div_float by (fastforce simp: is_ok_iff)
qed

lemma cohort_formats:
  assumes "cohort_of name report = Inr co"
  shows "formats (c_median co)" "formats (c_dispersion co)"
proof -
  show "formats (c_median co)"
  proof (intro allI impI)
    fix m assume m: "c_median co = Some m"
    show "is_ok (num_float m)" by (rule cohort_of_complete [OF assms m]) (rule median_formats)
  qed
  show "formats (c_dispersion co)"
  proof (intro allI impI)
    fix d assume d: "c_dispersion co = Some d"
    then obtain x m where "num_div x m = Inr d"
      using assms by (auto simp: cohort_of_def dispersion_of_def Let_def rbind_eq_Inr split: if_splits)
    then show "is_ok (num_float d)" using num_div_float by (fastforce simp: is_ok_iff)
  qed
qed

lemma regression_formats:
  assumes "regression_of dir b a = Inr r"
  shows "formats r"
proof (intro allI impI)
  fix y assume "r = Some y"
  then obtain u v q d where "num_div u v = Inr q" "num_sub q (PInt 1) = Inr d" "num_mul d (PInt 100) = Inr y"
    using assms by (auto simp: regression_of_def rbind_eq_Inr split: option.splits if_splits)
  moreover obtain x where "q = PFloat x" using num_div_float calculation(1) by blast
  ultimately show "is_ok (num_float y)" by (auto simp: on_floats_def rbind_eq_Inr is_ok_iff)
qed

lemma row_text_ok:
  assumes "row_of base cand t mad nd = Inr r"
  shows "is_ok (row_text r)"
proof -
  have "formats (baseline_median r)" "formats (candidate_median r)" "formats (baseline_mad r)" "formats (candidate_mad r)" "formats (regression_percent r)"
    using assms cohort_formats regression_formats by (auto simp: row_of_def rbind_eq_Inr)
  moreover have "is_ok (change_text r)" if "formats (regression_percent r)"
    using that unfolding change_text_def by (intro is_ok_rbindI) (auto intro: is_ok_rbindI split: option.split)
  ultimately show ?thesis
    unfolding row_text_def variability_text_def by (intro is_ok_rbindI number_ok) simp_all
qed

text \<open>A summary of a comparison can always be written, and has a line for every metric between its head and
  its tail: nothing that \<^verbatim>\<open>compare\<close> returns makes the formatting raise.\<close>

theorem summary_complete:
  assumes "compare_reports base cand t mad = Inr c"
  shows "\<exists>rows. markdown_lines shown c = Inr (summary_head shown c @ rows @ summary_tail c)
    \<and> length rows = length METRICS \<and> (\<forall>i<length METRICS. row_text (metrics c ! i) = Inr (rows ! i))"
proof -
  have rows: "rmap (row_of base cand t mad) METRICS = Inr (metrics c)" using assms by (auto simp: compare_reports_def rbind_eq_Inr)
  have ok: "row_text r = Inr (projr (row_text r))" if "r \<in> set (metrics c)" for r
    using rmap_eq_Inr_set [OF rows that] row_text_ok by (metis is_ok_iff sum.sel(2))
  then have "rmap row_text (metrics c) = Inr (map (\<lambda>r. projr (row_text r)) (metrics c))" by (rule rmap_all_Inr)
  moreover have "row_text (metrics c ! i) = Inr (projr (row_text (metrics c ! i)))" if "i < length (metrics c)" for i
    using that ok by (metis nth_mem)
  ultimately show ?thesis
    using rmap_eq_Inr_length [OF rows] by (auto simp: markdown_lines_def)
qed

theorem summary_complete_witness:
  "\<exists>c rows. compare_reports sample_report sample_report (Flt 20) (Flt 10) = Inr c \<and>
     markdown_lines (\<lambda>_. []) c = Inr (summary_head (\<lambda>_. []) c @ rows @ summary_tail c) \<and> length rows = 6"
proof -
  obtain c where c: "compare_reports sample_report sample_report (Flt 20) (Flt 10) = Inr c" using sample_compare by blast
  from summary_complete [OF c, of "\<lambda>_. []"] c show ?thesis by (auto simp: METRICS_def)
qed

text \<open>What is printed with two decimals is the nearest hundredth.\<close>

lemma hundredths_near: "0 \<le> q \<Longrightarrow> \<bar>of_nat (hundredths q) / 100 - q\<bar> \<le> 1 / 200"
proof -
  assume q: "0 \<le> q"
  have "0 \<le> round_half_even (q * 100)" using q by (intro round_half_even_nonneg) simp
  then have n: "(of_nat (hundredths q) :: rat) = of_int (round_half_even (q * 100))" by (simp add: hundredths_def of_nat_nat)
  have "of_int (round_half_even x) \<le> x + 1 / 2 \<and> x - 1 / 2 \<le> of_int (round_half_even x)" for x
    by (simp add: round_half_even_def Let_def) linarith
  from this [of "q * 100"] show ?thesis unfolding n abs_le_iff by (simp add: field_simps)
qed

end
