(* ===== verification/Spec2Isabelle.thy ===== *)
theory Spec2Isabelle
  imports Supervisor WorkerRuns Credentials ReleaseRun Qualification Cli SoakLive SoakChannel Summary
begin

text \<open>
  A verification development for tay's Python code: the SDK in \<^verbatim>\<open>src/clients/python/tay\<close>, the release
  and soak programs in \<^verbatim>\<open>src/bench\<close>, and the qualification check in \<^verbatim>\<open>src/.github/scripts\<close>. The SDK lets a Python
  process submit jobs to the tay engine, declare schedules, and execute tasks for it, over a Unix socket
  or over HTTP; the other programs decide whether a version may be released.

  \<^bold>\<open>How the parts interact.\<close> A task is declared with the SDK (TaskDecl) and its calls are serialised
  to JSON arguments (Protocol, Json). Submissions and schedules are validated (Validation, Schedules) before they
  are sent. The socket client (Client) frames envelopes over one connection, matches replies to
  requests, runs delivered executions (Execution) within its capacity and reports their results; a supervisor
  reconnects and replays declarations (ClientApi, Supervisor). The HTTP client and worker (Http, HttpWorker) offer the
  same by requests and long polling. The benchmark driver (ReleaseRun) produces the reports that the regression gate
  (Compare) judges, and the qualification check (Qualification) looks for a run in which that gate passed. The soak test
  (Soak, SoakRoles) runs engine, workers and producers in containers and checks recovery.

  \<^bold>\<open>Conventions.\<close>
  \<^item> A method is a function on a record of the object's attributes. The code is cooperative, so an operation is
    the section between two \<^verbatim>\<open>await\<close>s; concurrency is the interleaving of sections, an inductive step
    relation whose reachable states the invariants quantify over.
  \<^item> An exception is a value: results are \<^verbatim>\<open>error + value\<close> (\<open>res\<close>), and \<open>exn\<close> has a constructor for each class of
    \<^verbatim>\<open>errors.py\<close> and each built-in exception the code raises or lets through. Texts of messages are kept only where
    they come from the server.
  \<^item> What comes from outside is an argument: fresh ids, the clock, whether a write fails, the answer of a server
    or a process, what a task returns, SHA-256, the cryptography package, Unicode tables. Ghost logs
    (\<open>sent\<close>, \<open>h_log\<close>, \<open>k_log\<close>) record what was sent or started.
  \<^item> Python's ints are \<open>int\<close>; floats are IEEE 754 doubles with correct rounding; a \<^verbatim>\<open>str\<close> is a list of code
    points that may hold surrogates; a \<^verbatim>\<open>dict\<close> is an association list in insertion order. \<^verbatim>\<open>json\<close>, \<^verbatim>\<open>urlsplit\<close>,
    \<^verbatim>\<open>ipaddress\<close>, \<^verbatim>\<open>os.path\<close>, UTF-8/16/32 and \<^verbatim>\<open>statistics.median\<close> follow CPython 3.11; \<open>rl\<close> is the number of nested
    containers its recursion limit allows the JSON decoder.

  \<^bold>\<open>Theories.\<close> Shared: Prelude (results, dictionaries, and the locale \<open>keyed_table\<close> that dictionaries interpret),
  PyValue, PyFloat, Numbers, Utf8 (with the locale \<open>prefix_codec\<close> of self-delimiting encodings, interpreted for
  characters, headers and frames), Json, Encodings, Url, Transitions (reachability; the locales \<open>kept_by_steps\<close>,
  \<open>ascending_steps\<close> and \<open>stages\<close>), Scripts (programs that run commands, their Hoare triples, and specifications of logs).
  \<^item> \<^verbatim>\<open>protocol.py\<close> -- Protocol: frames are self-delimiting and bounded and come back as sent; exactly which values
    normalise and which envelopes are accepted.
  \<^item> \<^verbatim>\<open>validation.py\<close>, \<^verbatim>\<open>job_options.py\<close> -- Validation: the options accepted are exactly those of a specification
    field by field.
  \<^item> \<^verbatim>\<open>responses.py\<close>, \<^verbatim>\<open>results.py\<close> -- Responses: decoding of replies; waiting for a result always ends.
  \<^item> \<^verbatim>\<open>socket_path.py\<close> -- SocketPath: a discovered path is valid and selects itself.
  \<^item> \<^verbatim>\<open>schedules.py\<close> -- Schedules: only valid declarations are sent, listing ends and is complete. The locale
    \<open>scheduling_object\<close> states what the API needs of a transport; both transports interpret it.
  \<^item> \<^verbatim>\<open>task.py\<close> -- TaskDecl: serialised arguments bind the same values when the task is called.
  \<^item> \<^verbatim>\<open>execution.py\<close> -- Execution: invocation and the bounds on what is reported.
  \<^item> \<^verbatim>\<open>client.py\<close> -- Client (the operations), ClientInv (each keeps the invariant; the step relation), ClientProps
    (correlation, fencing, capacity, single settlement, shutdown), ClientApi (bootstrap as a refinement of its plan,
    submission, retained schedules), Supervisor (an attempt as a sequence of steps; backoff).
  \<^item> \<^verbatim>\<open>http.py\<close> -- Http (targets, TLS rules, one request and all its outcomes), HttpWorker (the worker as a step
    relation, its invariant and session fencing), WorkerRuns (no duplicate and no revived execution), Credentials
    (what a PKCS#12 bundle makes trusted).
  \<^item> \<^verbatim>\<open>doctor.py\<close>, \<^verbatim>\<open>__main__.py\<close> -- Doctor, Cli: the verdicts of the probes, choice and life cycle of a served worker,
    exit codes.
  \<^item> \<^verbatim>\<open>bench/compare.py\<close> -- Compare (a passing gate means complete reports within the limits), Summary (the Markdown
    text, which can be written of every comparison).
  \<^item> \<^verbatim>\<open>bench/release_compare.py\<close> -- ReleaseRun: balanced order, a fresh directory for each trial, both reports written.
  \<^item> \<^verbatim>\<open>check_release_qualification.py\<close> -- Qualification: exit code 0 only for a qualified commit.
  \<^item> \<^verbatim>\<open>bench/soak.py\<close> -- SoakRoles (the task of the workers and the actions of the producers; what a verification has
    seen), Soak (the controller), SoakProps (its commands refine the life cycle \<open>lifecycle_step\<close> of the engine; what a
    run that passes has done), SoakLive (in a healthy environment it ends and passes), SoakChannel (what producers emit
    is what the controller decodes).

  \<^bold>\<open>Loops and fuel.\<close> Loops over data are structural recursion or have a measure. Waiting for a result and listing
  schedules are partial functions into \<open>option\<close>; that they return is proved. The loops of the soak controller take
  fuel and yield \<open>Unfinished\<close> when it is used up: its life cycle is proved for every fuel, so for every prefix of a
  run, and its liveness theorem gives the fuel that suffices, two more than the number of clock readings after which the time
  is up (each turn reads the clock at least once, and a start of the engine needs one turn of its own loop). The loops
  of the producers have the bound 100 of the source.

  \<^bold>\<open>Not modelled.\<close> \<^verbatim>\<open>__init__.py\<close> only re-exports names, and \<^verbatim>\<open>examples/standalone\<close> holds short scripts that call
  the SDK. The engine in \<^verbatim>\<open>src/lib\<close> and \<^verbatim>\<open>src/native\<close> is another program in another language; its replies are arguments.
  Left out as pure input and output: \<^verbatim>\<open>argparse\<close> and the parsing of option texts, opening sockets and files, TLS
  itself, terminal output, signals other than their effect on serving. Of the SDK, type annotations, docstrings,
  the context managers that only call start and close, and deprecated aliases have no definition of their own. Parts
  of the soak report that nothing reads (host facts, time stamps) are not kept. An execution that closes its own HTTP
  worker is outside the model.
\<close>

end
